(* ===== verification/Prelude.thy ===== *)
theory Prelude
  imports Main "HOL-Library.Word" "HOL-Library.Monad_Syntax"
begin

text \<open>
  What the components share: the widths of the C integers they keep, the error codes of
  TinyOS, C arrays and C strings with their bounds (an access outside is the value
  \<open>None\<close>, so that memory safety is a theorem and not a convention), and the generic lemmas
  on lists and words that the component proofs use.
\<close>

unbundle bit_operations_syntax

section \<open>Integers and error codes\<close>

type_synonym u8 = "8 word"
type_synonym u16 = "16 word"
type_synonym u32 = "32 word"
type_synonym u64 = "64 word"

text \<open>The TinyOS result codes the sources use. They are small integers, and
  \<open>CC2520LinuxLinkP\<close> does arithmetic on them, so they stay numbers.\<close>

type_synonym error_t = u8

abbreviation (input) SUCCESS :: error_t where "SUCCESS \<equiv> 0"
abbreviation (input) FAIL :: error_t where "FAIL \<equiv> 1"
abbreviation (input) ESIZE :: error_t where "ESIZE \<equiv> 2"
abbreviation (input) ECANCEL :: error_t where "ECANCEL \<equiv> 3"
abbreviation (input) EOFF :: error_t where "EOFF \<equiv> 4"
abbreviation (input) EBUSY :: error_t where "EBUSY \<equiv> 5"
abbreviation (input) EALREADY :: error_t where "EALREADY \<equiv> 9"

section \<open>Collections of facts\<close>

named_theorems mem_simps \<open>reads and writes of arrays and strings inside their bounds\<close>

section \<open>Arrays\<close>

definition aget :: "'a list \<Rightarrow> nat \<Rightarrow> 'a option" where
  "aget xs i = (if i < length xs then Some (xs ! i) else None)"

definition aupd :: "'a list \<Rightarrow> nat \<Rightarrow> ('a \<Rightarrow> 'a) \<Rightarrow> 'a list option" where
  "aupd xs i f = (if i < length xs then Some (xs[i := f (xs ! i)]) else None)"

lemma aget_in [mem_simps]: "i < length xs \<Longrightarrow> aget xs i = Some (xs ! i)"
  by (simp add: aget_def)

lemma aupd_in [mem_simps]: "i < length xs \<Longrightarrow> aupd xs i f = Some (xs[i := f (xs ! i)])"
  by (simp add: aupd_def)

lemma aget_Some_iff: "aget xs i = Some x \<longleftrightarrow> i < length xs \<and> x = xs ! i"
  by (auto simp: aget_def)

lemma aupd_Some_iff: "aupd xs i f = Some ys \<longleftrightarrow> i < length xs \<and> ys = xs[i := f (xs ! i)]"
  by (auto simp: aupd_def)

text \<open>A block copy \<open>memcpy(dst + off, src, |src|)\<close> that must fit.\<close>

definition memcpy_at :: "'a list \<Rightarrow> nat \<Rightarrow> 'a list \<Rightarrow> 'a list option" where
  "memcpy_at dst off src =
     (if off + length src \<le> length dst
      then Some (take off dst @ src @ drop (off + length src) dst) else None)"

lemma memcpy_at_in [mem_simps]:
  "off + length src \<le> length dst \<Longrightarrow>
   memcpy_at dst off src = Some (take off dst @ src @ drop (off + length src) dst)"
  by (simp add: memcpy_at_def)

lemma memcpy_at_length: "memcpy_at dst off src = Some d \<Longrightarrow> length d = length dst"
  by (auto simp: memcpy_at_def split: if_splits)

section \<open>Bytes\<close>

lemma unat_of_nat_u8: "n < 256 \<Longrightarrow> unat (of_nat n :: u8) = n"
  by (simp add: unat_of_nat)

lemma unat_u8: "unat (b :: u8) < 256"
proof -
  have "unat b < 2 ^ LENGTH(8)" by (rule unsigned_less)
  then show ?thesis by simp
qed

lemma unat_widen [simp]: "unat (ucast (b :: u8) :: u16) = unat b"
proof -
  have "unat b < 2 ^ 16" using unat_u8 [of b] by simp
  then show ?thesis by (simp add: unsigned_ucast_eq take_bit_nat_eq_self_iff)
qed

lemma top_bit_u8: "drop_bit 7 (c :: u8) = 0 \<longleftrightarrow> \<not> bit c 7"
proof
  assume "drop_bit 7 c = 0"
  then have "\<not> bit (drop_bit 7 c) 0" by simp
  then show "\<not> bit c 7" by (simp add: bit_drop_bit_eq)
next
  assume c: "\<not> bit c 7"
  show "drop_bit 7 c = 0"
  proof (rule bit_word_eqI)
    fix n
    show "bit (drop_bit 7 c) n = bit 0 n"
      using c bit_imp_le_length [of c "7 + n"] by (cases n) (auto simp: bit_drop_bit_eq)
  qed
qed

section \<open>C strings\<close>

text \<open>
  A C string argument is the list of the bytes before the end of its buffer; the byte at
  index \<open>length s\<close> is the terminator. A byte of the list may be \<open>NUL\<close> as well: then the
  string ends there. Reading beyond the terminator is \<open>None\<close>.
\<close>

abbreviation NUL :: char where "NUL \<equiv> CHR 0x00"

definition cget :: "string \<Rightarrow> nat \<Rightarrow> char option" where
  "cget s i = (if i < length s then Some (s ! i) else if i = length s then Some NUL else None)"

lemma cget_in [mem_simps]: "i < length s \<Longrightarrow> cget s i = Some (s ! i)"
  by (simp add: cget_def)

lemma cget_end [mem_simps]: "cget s (length s) = Some NUL"
  by (simp add: cget_def)

lemma cget_le: "i \<le> length s \<Longrightarrow> \<exists>c. cget s i = Some c"
  by (auto simp: cget_def)

lemma cget_notNUL: "cget s i = Some c \<Longrightarrow> c \<noteq> NUL \<Longrightarrow> i < length s \<and> s ! i = c"
  by (auto simp: cget_def split: if_splits)

lemma cget_SomeD: "cget s i = Some c \<Longrightarrow> i \<le> length s"
  by (auto simp: cget_def split: if_splits)

lemma cget_append [mem_simps]: "i < length s \<Longrightarrow> cget (s @ t) i = Some (s ! i)"
  by (simp add: cget_def nth_append)

lemma cget_append_right [mem_simps]: "cget (s @ t) (length s + i) = cget t i"
  by (simp add: cget_def nth_append)

text \<open>The string stored in a buffer: the bytes up to the first \<open>NUL\<close>.\<close>

definition cstr :: "string \<Rightarrow> string" where
  "cstr buf = takeWhile (\<lambda>c. c \<noteq> NUL) buf"

lemma cstr_Cons: "cstr (c # s) = (if c = NUL then [] else c # cstr s)"
  by (simp add: cstr_def)

lemma cstr_idem [simp]: "cstr (cstr s) = cstr s"
  by (simp add: cstr_def takeWhile_idem)

lemma cstr_id: "NUL \<notin> set s \<Longrightarrow> cstr s = s"
  by (auto simp: cstr_def takeWhile_eq_all_conv)

lemma cstr_append_NUL [simp]: "NUL \<notin> set s \<Longrightarrow> cstr (s @ NUL # t) = s"
  unfolding cstr_def by (subst takeWhile_append2) auto

lemma NUL_notin_cstr [simp]: "NUL \<notin> set (cstr s)"
  by (auto simp: cstr_def dest: set_takeWhileD)

lemma length_cstr_le: "length (cstr s) \<le> length s"
  by (simp add: cstr_def length_takeWhile_le)

lemma takeWhile_append_stop:
  "\<forall>x \<in> set xs. P x \<Longrightarrow> \<not> P y \<Longrightarrow> takeWhile P (xs @ y # ys) = xs"
  by (simp add: takeWhile_append2)

section \<open>The set of descriptors after \<open>select\<close>\<close>

text \<open>What the bit of a descriptor that was put into the set is when \<open>select\<close> returns: below the bound
  it tells whether the descriptor is ready; the kernel gives back whole words (of 32 bits on
  the ARM of the boards), so above the bound it is cleared in the last of them and keeps
  its value beyond.\<close>

definition select_bit :: "nat \<Rightarrow> nat set \<Rightarrow> nat \<Rightarrow> bool" where
  "select_bit nfds ready fd \<longleftrightarrow> (if fd < nfds then fd \<in> ready else 32 * ((nfds + 31) div 32) \<le> fd)"

end
