(* ===== verification/Posix.thy ===== *)
theory Posix
  imports Prelude
begin

text \<open>
  The operating system as the processes see it. The kernel is not part of the repository: it is
  the \<^emph>\<open>script\<close> of the replies it will give, over which the theorems quantify. A system call
  takes the next reply and appends itself and the reply to the \<^emph>\<open>trace\<close>; with the script at its
  end the call does not return, which is how every finite prefix of a run that goes on for ever
  is a run of the model. A program is a function from its state to an outcome; \<open>Fault\<close> is an
  access outside a buffer, or a call with a file descriptor its macro cannot take.
\<close>

section \<open>Calls and replies\<close>

datatype 'b call =
    Open string
  | Close int
  | Read int nat
  | Write int "'b list"
  | Fcntl_get int
  | Fcntl_set int int
  | Ioctl int string
  | Getaddrinfo string string
  | Socket
  | Connect int
  | Send int "'b list"
  | Recv int nat
  | Select int "int list"
  | Sleep nat
  | System string
  | Pipe
  | Fork
  | Register int
  | Unregister int
  | Access string
  | Lseek int int
  | Mmap int int
  | Sendto int "'b list" bool
  | Epoll_create
  | Epoll_add int int
  | Epoll_del int int
  | Epoll_wait int
  | Sigqueue int

text \<open>A reply: the error number of a call that fails (and then returns -1), the value of one
  that does not (for \<open>pipe\<close> the read end, and the write end as second value), the bytes it
  delivers, and the descriptors \<open>select\<close> finds ready. \<open>epoll_wait\<close> gives the number of events and
  as second value the descriptor of the event. \<open>Register\<close> and \<open>Unregister\<close> are the commands of
  \<open>IOManagerP\<close> that add a descriptor to the main loop and remove it.\<close>

record 'b reply =
  err :: "nat option"
  rval :: int
  rval2 :: int
  data :: "'b list"
  ready :: "int set"

definition failed :: "'b reply \<Rightarrow> bool" where
  "failed r \<longleftrightarrow> err r \<noteq> None"

lemma failed_simps [simp]:
  "\<not> failed \<lparr>err = None, rval = v, rval2 = w, data = d, ready = f\<rparr>"
  "failed \<lparr>err = Some e, rval = v, rval2 = w, data = d, ready = f\<rparr>"
  by (simp_all add: failed_def)

definition EAGAIN :: nat where "EAGAIN = 11"
definition EINTR :: nat where "EINTR = 4"
definition ENOENT :: nat where "ENOENT = 2"
definition EBUSY_nr :: nat where "EBUSY_nr = 16"
definition EEXIST :: nat where "EEXIST = 17"
definition O_NONBLOCK :: int where "O_NONBLOCK = 2048"

abbreviation (input) ok_reply :: "int \<Rightarrow> 'b reply" where
  "ok_reply v \<equiv> \<lparr>err = None, rval = v, rval2 = 0, data = [], ready = {}\<rparr>"

abbreviation (input) data_reply :: "'b list \<Rightarrow> 'b reply" where
  "data_reply d \<equiv> \<lparr>err = None, rval = int (length d), rval2 = 0, data = d, ready = {}\<rparr>"

abbreviation (input) err_reply :: "nat \<Rightarrow> 'b reply" where
  "err_reply e \<equiv> \<lparr>err = Some e, rval = -1, rval2 = 0, data = [], ready = {}\<rparr>"

section \<open>Strings and bytes\<close>

text \<open>A number as \<open>%d\<close> prints it.\<close>

fun show_nat :: "nat \<Rightarrow> string" where
  "show_nat n = (if n < 10 then [char_of (n + 48)] else show_nat (n div 10) @ [char_of (n mod 10 + 48)])"

declare show_nat.simps [simp del]

definition bytes :: "string \<Rightarrow> u8 list" where
  "bytes = map of_char"

section \<open>Programs\<close>

datatype ('a, 's) outcome = Ret 'a 's | Exit int 's | Blocked 's | Fault 's

type_synonym ('a, 's) prog = "'s \<Rightarrow> ('a, 's) outcome"

definition ret :: "'a \<Rightarrow> ('a, 's) prog" where
  "ret x s = Ret x s"

definition seq :: "('a, 's) prog \<Rightarrow> ('a \<Rightarrow> ('b, 's) prog) \<Rightarrow> ('b, 's) prog" where
  "seq m k s = (case m s of Ret x s' \<Rightarrow> k x s' | Exit n s' \<Rightarrow> Exit n s' | Blocked s' \<Rightarrow> Blocked s' | Fault s' \<Rightarrow> Fault s')"

definition modify :: "('s \<Rightarrow> 's) \<Rightarrow> (unit, 's) prog" where
  "modify f s = Ret () (f s)"

definition gets :: "('s \<Rightarrow> 'a) \<Rightarrow> ('a, 's) prog" where
  "gets f s = Ret (f s) s"

definition fault :: "('a, 's) prog" where
  "fault s = Fault s"

definition stop :: "int \<Rightarrow> ('a, 's) prog" where
  "stop n s = Exit n s"

text \<open>A step that reads or writes memory: \<open>None\<close> is an access out of bounds.\<close>

definition access :: "('s \<Rightarrow> 'a option) \<Rightarrow> ('a, 's) prog" where
  "access f s = (case f s of None \<Rightarrow> Fault s | Some x \<Rightarrow> Ret x s)"

lemma seq_Ret [simp]: "m s = Ret x s' \<Longrightarrow> seq m k s = k x s'"
  by (simp add: seq_def)

lemma seq_ret [simp]: "seq (ret x) k s = k x s"
  by (simp add: seq_def ret_def)

lemma seq_modify [simp]: "seq (modify f) k s = k () (f s)"
  by (simp add: seq_def modify_def)

lemma seq_gets [simp]: "seq (gets g) k s = k (g s) s"
  by (simp add: seq_def gets_def)

lemma seq_fault [simp]: "seq fault k s = Fault s"
  by (simp add: seq_def fault_def)

lemma seq_stop [simp]: "seq (stop n) k s = Exit n s"
  by (simp add: seq_def stop_def)

lemma seq_access [simp]:
  "seq (access f) k s = (case f s of None \<Rightarrow> Fault s | Some x \<Rightarrow> k x s)"
  by (simp add: seq_def access_def split: option.split)

lemma seq_seq: "seq (seq m k) l = seq m (\<lambda>x. seq (k x) l)"
  by (rule ext) (simp add: seq_def split: outcome.split)

text \<open>The state an outcome leaves behind.\<close>

fun final :: "('a, 's) outcome \<Rightarrow> 's" where
  "final (Ret x s) = s" | "final (Exit n s) = s" | "final (Blocked s) = s" | "final (Fault s) = s"

section \<open>Calling the system\<close>

record 'b os =
  script :: "'b reply list"
  trace :: "('b call \<times> 'b reply) list"

definition syscall :: "'b call \<Rightarrow> ('b reply, ('b, 'x) os_scheme) prog" where
  "syscall c s =
     (case script s of
        [] \<Rightarrow> Blocked s
      | r # rs \<Rightarrow> Ret r (s\<lparr>script := rs, trace := trace s @ [(c, r)]\<rparr>))"

lemma syscall_Nil [simp]: "script s = [] \<Longrightarrow> syscall c s = Blocked s"
  by (simp add: syscall_def)

lemma syscall_Cons [simp]:
  "script s = r # rs \<Longrightarrow> syscall c s = Ret r (s\<lparr>script := rs, trace := trace s @ [(c, r)]\<rparr>)"
  by (simp add: syscall_def)

lemma seq_syscall:
  "seq (syscall c) k s =
     (case script s of [] \<Rightarrow> Blocked s
      | r # rs \<Rightarrow> k r (s\<lparr>script := rs, trace := trace s @ [(c, r)]\<rparr>))"
  by (simp add: seq_def syscall_def split: list.split)

text \<open>A read of at most \<open>n\<close> bytes: the kernel delivers no more than it was asked for.\<close>

definition payload :: "nat \<Rightarrow> 'b reply \<Rightarrow> 'b list" where
  "payload n r = take n (data r)"

lemma length_payload: "length (payload n r) \<le> n"
  by (simp add: payload_def)

section \<open>Reasoning about programs\<close>

text \<open>What holds after a program: \<open>Q\<close> of its value and state when it returns, \<open>E\<close> of its state
  when it stops in any other way. The equations take a program apart.\<close>

definition wp :: "('a, 's) prog \<Rightarrow> ('a \<Rightarrow> 's \<Rightarrow> bool) \<Rightarrow> ('s \<Rightarrow> bool) \<Rightarrow> 's \<Rightarrow> bool" where
  "wp m Q E s = (case m s of Ret x s' \<Rightarrow> Q x s' | Exit n s' \<Rightarrow> E s' | Blocked s' \<Rightarrow> E s' | Fault s' \<Rightarrow> E s')"

named_theorems wp_simps \<open>the weakest precondition of each construct\<close>

lemma wp_seq [wp_simps]: "wp (seq m k) Q E s = wp m (\<lambda>x. wp (k x) Q E) E s"
  by (simp add: wp_def seq_def split: outcome.split)

lemma wp_ret [wp_simps]: "wp (ret x) Q E s = Q x s"
  by (simp add: wp_def ret_def)

lemma wp_modify [wp_simps]: "wp (modify f) Q E s = Q () (f s)"
  by (simp add: wp_def modify_def)

lemma wp_gets [wp_simps]: "wp (gets f) Q E s = Q (f s) s"
  by (simp add: wp_def gets_def)

lemma wp_fault [wp_simps]: "wp fault Q E s = E s"
  by (simp add: wp_def fault_def)

lemma wp_stop [wp_simps]: "wp (stop n) Q E s = E s"
  by (simp add: wp_def stop_def)

lemma wp_access [wp_simps]:
  "wp (access f) Q E s = (case f s of None \<Rightarrow> E s | Some x \<Rightarrow> Q x s)"
  by (simp add: wp_def access_def split: option.split)

lemma wp_syscall [wp_simps]:
  "wp (syscall c) Q E s =
     (case script s of [] \<Rightarrow> E s | r # rs \<Rightarrow> Q r (s\<lparr>script := rs, trace := trace s @ [(c, r)]\<rparr>))"
  by (simp add: wp_def syscall_def split: list.split)

lemma wp_syscallI:
  "(\<And>r rs. script s = r # rs \<Longrightarrow> Q r (s\<lparr>script := rs, trace := trace s @ [(c, r)]\<rparr>)) \<Longrightarrow> E s \<Longrightarrow>
   wp (syscall c) Q E s"
  by (simp add: wp_syscall split: list.split)

lemma wp_if [wp_simps]: "wp (if b then m else m') Q E s = (if b then wp m Q E s else wp m' Q E s)"
  by simp

lemma wp_mono:
  "wp m Q E s \<Longrightarrow> (\<And>x s. Q x s \<Longrightarrow> Q' x s) \<Longrightarrow> (\<And>s. E s \<Longrightarrow> E' s) \<Longrightarrow> wp m Q' E' s"
  by (simp add: wp_def split: outcome.splits)

lemma wp_RetD: "wp m Q E s \<Longrightarrow> m s = Ret x s' \<Longrightarrow> Q x s'"
  by (simp add: wp_def)

lemma wp_final: "wp m (\<lambda>_. P) P s \<Longrightarrow> P (final (m s))"
  by (simp add: wp_def split: outcome.splits)

section \<open>File descriptors\<close>

text \<open>\<open>file_helpers.c\<close>; the tunnel client has a copy.\<close>

definition make_nonblocking :: "int \<Rightarrow> (int, ('b, 'x) os_scheme) prog" where
  "make_nonblocking fd = seq (syscall (Fcntl_get fd)) (\<lambda>flags.
     if failed flags then ret 0
     else seq (syscall (Fcntl_set fd (rval flags OR O_NONBLOCK))) (\<lambda>r.
       ret (if failed r then 0 else 1)))"

text \<open>What was written to a descriptor, write by write: what the other end of a pipe reads.\<close>

fun written_step :: "int \<Rightarrow> 'b call \<times> 'b reply \<Rightarrow> 'b list list" where
  "written_step fd (Write f b, r) = (if f = fd \<and> \<not> failed r then [b] else [])"
| "written_step fd _ = []"

definition written :: "int \<Rightarrow> ('b call \<times> 'b reply) list \<Rightarrow> 'b list list" where
  "written fd tr = concat (map (written_step fd) tr)"

section \<open>Running commands\<close>

text \<open>\<open>ssystem\<close> of the tunnel client and of \<open>TunP\<close>. The callers pass the finished command as the
  format, with no further argument: a directive other than \<open>%%\<close> then has nothing to print,
  which is a fault.\<close>

fun format_noargs :: "string \<Rightarrow> string option" where
  "format_noargs [] = Some []"
| "format_noargs (c # s) =
     (if c = CHR ''%'' then
        (case s of d # s' \<Rightarrow> if d = CHR ''%'' then do { r \<leftarrow> format_noargs s'; Some (d # r) } else None
         | [] \<Rightarrow> None)
      else do { r \<leftarrow> format_noargs s; Some (c # r) })"

definition ssystem :: "string \<Rightarrow> (int, ('b, 'x) os_scheme) prog" where
  "ssystem fmt = seq (access (\<lambda>s. format_noargs fmt)) (\<lambda>cmd.
     seq (syscall (System (take 127 cmd))) (\<lambda>r. ret (rval r)))"

lemma format_noargs_plain: "CHR ''%'' \<notin> set s \<Longrightarrow> format_noargs s = Some s"
  by (induction s) auto

section \<open>Loops without an end\<close>

text \<open>\<open>while (1)\<close>: the body says with a value that the loop is left. Each round of such a loop
  makes a system call, so a run has no more rounds than the script has replies, and the bound
  of \<open>forever\<close> is never what ends it (\<open>forever_unfold\<close>).\<close>

fun rounds :: "nat \<Rightarrow> ('a option, 's) prog \<Rightarrow> ('a, 's) prog" where
  "rounds 0 m s = Blocked s"
| "rounds (Suc n) m s =
     (case m s of
        Ret None s' \<Rightarrow> rounds n m s'
      | Ret (Some y) s' \<Rightarrow> Ret y s'
      | Exit v s' \<Rightarrow> Exit v s' | Blocked s' \<Rightarrow> Blocked s' | Fault s' \<Rightarrow> Fault s')"

definition forever :: "('a option, ('b, 'x) os_scheme) prog \<Rightarrow> ('a, ('b, 'x) os_scheme) prog" where
  "forever m s = rounds (Suc (length (script s))) m s"

definition consumes :: "('a, ('b, 'x) os_scheme) prog \<Rightarrow> bool" where
  "consumes m \<longleftrightarrow> (\<forall>s x s'. m s = Ret x s' \<longrightarrow> length (script s') < length (script s))"

definition nonexpanding :: "('a, ('b, 'x) os_scheme) prog \<Rightarrow> bool" where
  "nonexpanding m \<longleftrightarrow> (\<forall>s x s'. m s = Ret x s' \<longrightarrow> length (script s') \<le> length (script s))"

lemma consumes_nonexpanding: "consumes m \<Longrightarrow> nonexpanding m"
  by (fastforce simp: consumes_def nonexpanding_def)

lemma rounds_enough:
  assumes "consumes m"
  shows "length (script s) < n \<Longrightarrow> length (script s) < n' \<Longrightarrow> rounds n m s = rounds n' m s"
proof (induction n arbitrary: s n')
  case (Suc n)
  then obtain k where n': "n' = Suc k" by (cases n') auto
  have "rounds n m s' = rounds k m s'" if "m s = Ret None s'" for s'
  proof -
    have "length (script s') < length (script s)" using assms that by (simp add: consumes_def)
    with Suc.prems n' show ?thesis by (intro Suc.IH) simp_all
  qed
  then show ?case unfolding n' by (simp split: outcome.split option.split)
qed simp

lemma forever_unfold:
  assumes "consumes m"
  shows "forever m s =
     (case m s of
        Ret None s' \<Rightarrow> forever m s'
      | Ret (Some y) s' \<Rightarrow> Ret y s'
      | Exit v s' \<Rightarrow> Exit v s' | Blocked s' \<Rightarrow> Blocked s' | Fault s' \<Rightarrow> Fault s')"
proof -
  have "rounds (length (script s)) m s' = rounds (Suc (length (script s'))) m s'"
    if "m s = Ret None s'" for s'
  proof -
    have "length (script s') < length (script s)" using assms that by (simp add: consumes_def)
    then show ?thesis by (intro rounds_enough [OF assms]) simp_all
  qed
  then show ?thesis unfolding forever_def rounds.simps by (simp split: outcome.split option.split)
qed

lemma wp_rounds:
  assumes body: "\<And>s. I s \<Longrightarrow> wp m (\<lambda>x s. case x of None \<Rightarrow> I s | Some y \<Rightarrow> Q y s) E s"
    and E: "\<And>s. I s \<Longrightarrow> E s"
  shows "I s \<Longrightarrow> wp (rounds n m) Q E s"
proof (induction n arbitrary: s)
  case (Suc n)
  note b = body [OF Suc.prems]
  show ?case
  proof (cases "\<exists>s'. m s = Ret None s'")
    case True
    then obtain s' where s': "m s = Ret None s'" by blast
    then have "I s'" using b by (simp add: wp_def)
    from Suc.IH [OF this] s' show ?thesis by (simp add: wp_def)
  next
    case False
    with b show ?thesis by (auto simp: wp_def split: outcome.splits option.splits)
  qed
qed (simp add: wp_def E)

lemma wp_forever:
  assumes "I s"
    and "\<And>s. I s \<Longrightarrow> wp m (\<lambda>x s. case x of None \<Rightarrow> I s | Some y \<Rightarrow> Q y s) E s"
    and "\<And>s. I s \<Longrightarrow> E s"
  shows "wp (forever m) Q E s"
  using wp_rounds [of I m Q E s "Suc (length (script s))"] assms
  by (simp add: wp_def forever_def del: rounds.simps)

lemma nonexpanding_rounds:
  assumes "nonexpanding m"
  shows "nonexpanding (rounds n m)"
proof -
  have "rounds n m s = Ret x s' \<Longrightarrow> length (script s') \<le> length (script s)" for s x s'
  proof (induction n arbitrary: s)
    case (Suc n)
    from Suc.prems consider "m s = Ret (Some x) s'"
      | t where "m s = Ret None t" "rounds n m t = Ret x s'"
      by (auto split: outcome.splits option.splits)
    then show ?case
    proof cases
      case 1
      then show ?thesis using assms by (auto simp: nonexpanding_def)
    next
      case 2
      then have "length (script s') \<le> length (script t)" by (intro Suc.IH)
      moreover have "length (script t) \<le> length (script s)"
        using assms 2 by (auto simp: nonexpanding_def)
      ultimately show ?thesis by simp
    qed
  qed simp
  then show ?thesis by (auto simp: nonexpanding_def)
qed

lemma nonexpanding_forever: "nonexpanding m \<Longrightarrow> nonexpanding (forever m)"
  using nonexpanding_rounds [of m] by (simp add: nonexpanding_def forever_def del: rounds.simps)

lemma consumes_syscall: "consumes (syscall c)"
  by (auto simp: consumes_def syscall_def split: list.splits)

lemma consumes_seq: "consumes m \<Longrightarrow> (\<And>x. nonexpanding (k x)) \<Longrightarrow> consumes (seq m k)"
  unfolding consumes_def nonexpanding_def seq_def
  by (auto split: outcome.splits) (meson le_less_trans)

lemma nonexpanding_seq: "nonexpanding m \<Longrightarrow> (\<And>x. nonexpanding (k x)) \<Longrightarrow> nonexpanding (seq m k)"
  unfolding nonexpanding_def seq_def
  by (auto split: outcome.splits) (meson le_trans)

lemma consumes_gets: "(\<And>x. consumes (k x)) \<Longrightarrow> consumes (seq (gets f) k)"
  by (simp add: consumes_def)

lemma nonexpanding_gets: "(\<And>x. nonexpanding (k x)) \<Longrightarrow> nonexpanding (seq (gets f) k)"
  by (simp add: nonexpanding_def)

lemma consumes_access: "(\<And>x. consumes (k x)) \<Longrightarrow> consumes (seq (access f) k)"
  by (simp add: consumes_def split: option.split)

lemma nonexpanding_prims:
  "nonexpanding (ret x)" "nonexpanding (syscall c)" "nonexpanding fault" "nonexpanding (stop n)"
  "nonexpanding (gets f)" "nonexpanding (access f)"
  by (auto simp: nonexpanding_def ret_def fault_def stop_def gets_def access_def syscall_def
      split: list.splits option.splits)

lemma nonexpanding_modify: "(\<And>s. script (f s) = script s) \<Longrightarrow> nonexpanding (modify f)"
  by (auto simp: nonexpanding_def modify_def)

end
