(* ===== verification/Jsmn.thy ===== *)
theory Jsmn
  imports Prelude
begin

text \<open>
  The JSON tokenizer of the tunnel client (\<open>software/ipv6_tunnel/lib/jsmn/jsmn.c\<close>), built as
  the client builds it: without \<open>JSMN_STRICT\<close> and without \<open>JSMN_PARENT_LINKS\<close>. A result of
  \<open>None\<close> is an access outside the text or the token array. Positions and counters are
  natural numbers: the text is a buffer of at most 4096 bytes, far below the 31 bits of the
  C type. The first part holds the functions of the file in their order, the second the
  safety invariant of the parser, the third what it does on the answers of the server.
\<close>

section \<open>Data\<close>

datatype jsmntype = JSMN_PRIMITIVE | JSMN_OBJECT | JSMN_ARRAY | JSMN_STRING

datatype jsmnerr = JSMN_ERROR_NOMEM | JSMN_ERROR_INVAL | JSMN_ERROR_PART | JSMN_SUCCESS

record jsmntok =
  tok_type :: jsmntype
  tok_start :: int
  tok_end :: int
  tok_size :: int

record jsmn_parser =
  pos :: nat
  toknext :: nat
  toksuper :: int

type_synonym jsmn_result = "(jsmnerr \<times> jsmn_parser \<times> jsmntok list) option"

section \<open>Tokens\<close>

definition jsmn_alloc_token ::
  "jsmn_parser \<Rightarrow> jsmntok list \<Rightarrow> nat \<Rightarrow> (nat option \<times> jsmn_parser \<times> jsmntok list) option" where
  "jsmn_alloc_token p ts num_tokens =
     (if toknext p \<ge> num_tokens then Some (None, p, ts)
      else do {
        ts' \<leftarrow> aupd ts (toknext p) (\<lambda>t. t\<lparr>tok_start := -1, tok_end := -1, tok_size := 0\<rparr>);
        Some (Some (toknext p), p\<lparr>toknext := toknext p + 1\<rparr>, ts')
      })"

definition jsmn_fill_token :: "jsmntype \<Rightarrow> int \<Rightarrow> int \<Rightarrow> jsmntok \<Rightarrow> jsmntok" where
  "jsmn_fill_token ty s e t = t\<lparr>tok_type := ty, tok_start := s, tok_end := e, tok_size := 0\<rparr>"

text \<open>Allocating a token and filling it, as both scanners do when they found the end of
  their text: \<open>start\<close> is the position to go back to when no token is left.\<close>

definition jsmn_emit ::
  "jsmntype \<Rightarrow> int \<Rightarrow> nat \<Rightarrow> nat \<Rightarrow> jsmn_parser \<Rightarrow> jsmntok list \<Rightarrow> nat \<Rightarrow> jsmn_result" where
  "jsmn_emit ty s q start p ts num_tokens = do {
     (tok, p', ts') \<leftarrow> jsmn_alloc_token (p\<lparr>pos := q\<rparr>) ts num_tokens;
     (case tok of
        None \<Rightarrow> Some (JSMN_ERROR_NOMEM, p'\<lparr>pos := start\<rparr>, ts')
      | Some i \<Rightarrow> do {
          ts'' \<leftarrow> aupd ts' i (jsmn_fill_token ty s (int q));
          Some (JSMN_SUCCESS, p', ts'')
        })
   }"

section \<open>Primitives\<close>

definition prim_delims :: "char set" where
  "prim_delims = {CHR '':'', CHR 0x09, CHR 0x0D, CHR 0x0A, CHR '' '', CHR '','', CHR '']'', CHR ''}''}"

text \<open>The loop of \<open>jsmn_parse_primitive\<close>: \<open>Inr q\<close> when it reaches \<open>found\<close> (a delimiter or,
  as the build is not strict, the end of the text), \<open>Inl ()\<close> at a byte that is not printable
  ASCII. Bytes from 128 on are negative where \<open>char\<close> is signed and at least 127 where it is
  not: the test fails for them either way.\<close>

function prim_scan :: "string \<Rightarrow> nat \<Rightarrow> (unit + nat) option" where
  "prim_scan js q =
     (case cget js q of
        None \<Rightarrow> None
      | Some c \<Rightarrow>
          if c = NUL then Some (Inr q)
          else if c \<in> prim_delims then Some (Inr q)
          else if (of_char c :: nat) < 32 \<or> (of_char c :: nat) \<ge> 127 then Some (Inl ())
          else prim_scan js (q + 1))"
  by pat_completeness auto
termination
  by (relation "measure (\<lambda>(js, q). Suc (length js) - q)") (auto dest: cget_SomeD)

definition jsmn_parse_primitive ::
  "jsmn_parser \<Rightarrow> string \<Rightarrow> jsmntok list \<Rightarrow> nat \<Rightarrow> jsmn_result" where
  "jsmn_parse_primitive p js ts num_tokens = do {
     r \<leftarrow> prim_scan js (pos p);
     (case r of
        Inl _ \<Rightarrow> Some (JSMN_ERROR_INVAL, p, ts)
      | Inr q \<Rightarrow> do {
          (e, p', ts') \<leftarrow> jsmn_emit JSMN_PRIMITIVE (int (pos p)) q (pos p) p ts num_tokens;
          Some (e, if e = JSMN_SUCCESS then p'\<lparr>pos := pos p' - 1\<rparr> else p', ts')
        })
   }"

section \<open>Strings\<close>

definition str_escapes :: "char set" where
  "str_escapes = {CHR 0x22, CHR ''/'', CHR 0x5C, CHR ''b'', CHR ''f'', CHR ''r'', CHR ''n'',
     CHR ''t'', CHR ''u''}"

text \<open>The loop of \<open>jsmn_parse_string\<close>: the position of the closing quote, or the error.\<close>

function str_scan :: "string \<Rightarrow> nat \<Rightarrow> (jsmnerr + nat) option" where
  "str_scan js q =
     (case cget js q of
        None \<Rightarrow> None
      | Some c \<Rightarrow>
          if c = NUL then Some (Inl JSMN_ERROR_PART)
          else if c = CHR 0x22 then Some (Inr q)
          else if c = CHR 0x5C then
            (case cget js (q + 1) of
               None \<Rightarrow> None
             | Some e \<Rightarrow>
                 if e \<in> str_escapes then str_scan js (q + 2) else Some (Inl JSMN_ERROR_INVAL))
          else str_scan js (q + 1))"
  by pat_completeness auto
termination
  by (relation "measure (\<lambda>(js, q). Suc (length js) - q)") (auto dest: cget_SomeD)

definition jsmn_parse_string ::
  "jsmn_parser \<Rightarrow> string \<Rightarrow> jsmntok list \<Rightarrow> nat \<Rightarrow> jsmn_result" where
  "jsmn_parse_string p js ts num_tokens = do {
     r \<leftarrow> str_scan js (pos p + 1);
     (case r of
        Inl e \<Rightarrow> Some (e, p, ts)
      | Inr q \<Rightarrow> jsmn_emit JSMN_STRING (int (pos p + 1)) q (pos p) p ts num_tokens)
   }"

section \<open>The parser\<close>

definition tok_open :: "jsmntok \<Rightarrow> bool" where
  "tok_open t \<longleftrightarrow> tok_start t \<noteq> -1 \<and> tok_end t = -1"

text \<open>The loop \<open>for (i = k - 1; i >= 0; i--)\<close> that looks for the last open token.\<close>

fun last_open :: "jsmntok list \<Rightarrow> nat \<Rightarrow> nat option option" where
  "last_open ts 0 = Some None"
| "last_open ts (Suc i) =
     (case aget ts i of
        None \<Rightarrow> None
      | Some t \<Rightarrow> if tok_open t then Some (Some i) else last_open ts i)"

text \<open>\<open>if (parser->toksuper != -1) tokens[parser->toksuper].size++\<close>\<close>

definition inc_super :: "jsmn_parser \<Rightarrow> jsmntok list \<Rightarrow> jsmntok list option" where
  "inc_super p ts =
     (if toksuper p \<noteq> -1
      then (if toksuper p < 0 then None
            else aupd ts (nat (toksuper p)) (\<lambda>t. t\<lparr>tok_size := tok_size t + 1\<rparr>))
      else Some ts)"

definition jsmn_open :: "char \<Rightarrow> jsmn_parser \<Rightarrow> jsmntok list \<Rightarrow> nat \<Rightarrow> jsmn_result" where
  "jsmn_open c p ts num_tokens = do {
     (tok, p', ts') \<leftarrow> jsmn_alloc_token p ts num_tokens;
     (case tok of
        None \<Rightarrow> Some (JSMN_ERROR_NOMEM, p', ts')
      | Some i \<Rightarrow> do {
          ts'' \<leftarrow> inc_super p' ts';
          ts''' \<leftarrow> aupd ts'' i
            (\<lambda>t. t\<lparr>tok_type := (if c = CHR ''{'' then JSMN_OBJECT else JSMN_ARRAY),
                   tok_start := int (pos p')\<rparr>);
          Some (JSMN_SUCCESS, p'\<lparr>toksuper := int (toknext p') - 1\<rparr>, ts''')
        })
   }"

definition jsmn_close :: "char \<Rightarrow> jsmn_parser \<Rightarrow> jsmntok list \<Rightarrow> jsmn_result" where
  "jsmn_close c p ts = do {
     let ty = (if c = CHR ''}'' then JSMN_OBJECT else JSMN_ARRAY);
     r \<leftarrow> last_open ts (toknext p);
     (case r of
        None \<Rightarrow> Some (JSMN_ERROR_INVAL, p, ts)
      | Some i \<Rightarrow> do {
          t \<leftarrow> aget ts i;
          if tok_type t \<noteq> ty then Some (JSMN_ERROR_INVAL, p, ts)
          else do {
            ts' \<leftarrow> aupd ts i (\<lambda>t. t\<lparr>tok_end := int (pos p) + 1\<rparr>);
            r' \<leftarrow> last_open ts' (Suc i);
            Some (JSMN_SUCCESS,
              p\<lparr>toksuper := (case r' of None \<Rightarrow> -1 | Some j \<Rightarrow> int j)\<rparr>, ts')
          }
        })
   }"

text \<open>A string or a primitive inside the switch: the size of the parent grows on success.\<close>

definition jsmn_value :: "jsmn_result \<Rightarrow> jsmn_result" where
  "jsmn_value res = do {
     (r, p', ts') \<leftarrow> res;
     if r \<noteq> JSMN_SUCCESS then Some (r, p', ts')
     else do { ts'' \<leftarrow> inc_super p' ts'; Some (JSMN_SUCCESS, p', ts'') }
   }"

definition jsmn_switch ::
  "char \<Rightarrow> jsmn_parser \<Rightarrow> string \<Rightarrow> jsmntok list \<Rightarrow> nat \<Rightarrow> jsmn_result" where
  "jsmn_switch c p js ts num_tokens =
     (if c = CHR ''{'' \<or> c = CHR ''['' then jsmn_open c p ts num_tokens
      else if c = CHR ''}'' \<or> c = CHR '']'' then jsmn_close c p ts
      else if c = CHR 0x22 then jsmn_value (jsmn_parse_string p js ts num_tokens)
      else if c \<in> {CHR 0x09, CHR 0x0D, CHR 0x0A, CHR '':'', CHR '','', CHR '' ''}
        then Some (JSMN_SUCCESS, p, ts)
      else jsmn_value (jsmn_parse_primitive p js ts num_tokens))"

section \<open>Termination of the main loop\<close>

declare prim_scan.simps [simp del] str_scan.simps [simp del]

lemma prim_scan_ge: "prim_scan js q = Some (Inr r) \<Longrightarrow> q \<le> r"
proof (induction js q rule: prim_scan.induct)
  case (1 js q)
  then show ?case
    by (subst (asm) prim_scan.simps) (fastforce split: option.splits if_splits)
qed

lemma str_scan_ge: "str_scan js q = Some (Inr r) \<Longrightarrow> q \<le> r"
proof (induction js q rule: str_scan.induct)
  case (1 js q)
  then show ?case
    by (subst (asm) (2) str_scan.simps) (fastforce split: option.splits if_splits)
qed

text \<open>A primitive that starts at a byte which is neither the end nor a delimiter has at least
  one byte, so the \<open>parser->pos--\<close> of \<open>jsmn_parse_primitive\<close> does not go below its start.\<close>

lemma prim_scan_gt:
  assumes "prim_scan js q = Some (Inr r)" and "cget js q = Some c" and "c \<noteq> NUL" and "c \<notin> prim_delims"
  shows "q < r"
proof -
  from assms have "prim_scan js (q + 1) = Some (Inr r)"
    by (subst (asm) prim_scan.simps) (auto split: if_splits)
  then have "q + 1 \<le> r" by (rule prim_scan_ge)
  then show ?thesis by simp
qed

lemma switch_delims:
  "c \<notin> {CHR ''}'', CHR '']''} \<Longrightarrow> c \<notin> {CHR 0x09, CHR 0x0D, CHR 0x0A, CHR '':'', CHR '','', CHR '' ''}
   \<Longrightarrow> c \<notin> prim_delims"
  by (auto simp: prim_delims_def)

lemma jsmn_alloc_token_pos:
  "jsmn_alloc_token p ts n = Some (tok, p', ts') \<Longrightarrow> pos p' = pos p \<and> toksuper p' = toksuper p"
  by (auto simp: jsmn_alloc_token_def aupd_Some_iff split: if_splits Option.bind_splits)

lemma jsmn_emit_pos:
  "jsmn_emit ty s q start p ts n = Some (e, p', ts') \<Longrightarrow> pos p' = (if e = JSMN_SUCCESS then q else start)"
  by (auto simp: jsmn_emit_def dest!: jsmn_alloc_token_pos
      split: if_splits Option.bind_splits option.splits)

lemma jsmn_value_pos:
  "jsmn_value res = Some (e, p', ts') \<Longrightarrow> \<exists>ts''. res = Some (e, p', ts'')"
  by (auto simp: jsmn_value_def split: if_splits Option.bind_splits)

lemma jsmn_switch_pos:
  assumes sw: "jsmn_switch c p js ts n = Some (e, p', ts')"
    and c: "cget js (pos p) = Some c" "c \<noteq> NUL"
  shows "pos p \<le> pos p'"
proof -
  have "jsmn_open c p ts n = Some (e, p', ts') \<Longrightarrow> pos p \<le> pos p'"
    by (auto simp: jsmn_open_def dest!: jsmn_alloc_token_pos
        split: if_splits Option.bind_splits option.splits)
  moreover have "jsmn_close c p ts = Some (e, p', ts') \<Longrightarrow> pos p \<le> pos p'"
    by (auto simp: jsmn_close_def Let_def split: if_splits Option.bind_splits option.splits)
  moreover have "jsmn_value (jsmn_parse_string p js ts n) = Some (e, p', ts') \<Longrightarrow> pos p \<le> pos p'"
    by (auto simp: jsmn_parse_string_def dest!: jsmn_value_pos jsmn_emit_pos str_scan_ge
        split: if_splits Option.bind_splits sum.splits)
  moreover have "pos p \<le> pos p'"
    if "c \<notin> prim_delims" "jsmn_value (jsmn_parse_primitive p js ts n) = Some (e, p', ts')"
    using that c
    by (auto simp: jsmn_parse_primitive_def dest!: jsmn_value_pos jsmn_emit_pos prim_scan_gt
        split: if_splits Option.bind_splits sum.splits)
  ultimately show ?thesis
    using sw switch_delims [of c] by (auto simp: jsmn_switch_def split: if_splits)
qed

text \<open>The main loop: the switch on the current byte, then \<open>pos++\<close>; after the loop, the check
  that no object or array stayed open.\<close>

function jsmn_parse ::
  "jsmn_parser \<Rightarrow> string \<Rightarrow> jsmntok list \<Rightarrow> nat \<Rightarrow> jsmn_result" where
  "jsmn_parse p js ts num_tokens =
     (case cget js (pos p) of
        None \<Rightarrow> None
      | Some c \<Rightarrow>
          if c = NUL then
            (case last_open ts (toknext p) of
               None \<Rightarrow> None
             | Some None \<Rightarrow> Some (JSMN_SUCCESS, p, ts)
             | Some (Some _) \<Rightarrow> Some (JSMN_ERROR_PART, p, ts))
          else
            (case jsmn_switch c p js ts num_tokens of
               None \<Rightarrow> None
             | Some (e, p', ts') \<Rightarrow>
                 if e = JSMN_SUCCESS
                 then jsmn_parse (p'\<lparr>pos := pos p' + 1\<rparr>) js ts' num_tokens
                 else Some (e, p', ts')))"
  by pat_completeness auto
termination
proof (relation "measure (\<lambda>(p, js, ts, n). Suc (length js) - pos p)", goal_cases)
  case 1
  show ?case by simp
next
  case (2 p js ts n c res e q p' ts')
  then have "pos p < length js" "pos p \<le> pos p'"
    by (auto dest: cget_notNUL jsmn_switch_pos)
  then show ?case by simp
qed

declare jsmn_parse.simps [simp del]

definition jsmn_init :: jsmn_parser where
  "jsmn_init = \<lparr>pos = 0, toknext = 0, toksuper = -1\<rparr>"

section \<open>Memory safety and the token invariant\<close>

text \<open>A token that was handed out lies inside the text; it is open (\<open>end = -1\<close>) or its end
  is not before its start.\<close>

definition tok_ok :: "nat \<Rightarrow> nat \<Rightarrow> jsmntok \<Rightarrow> bool" where
  "tok_ok len q t \<longleftrightarrow> 0 \<le> tok_start t \<and> tok_start t \<le> int q \<and>
     (tok_end t = -1 \<or> tok_start t \<le> tok_end t \<and> tok_end t \<le> int len)"

definition jsmn_inv :: "string \<Rightarrow> nat \<Rightarrow> jsmn_parser \<Rightarrow> jsmntok list \<Rightarrow> bool" where
  "jsmn_inv js n p ts \<longleftrightarrow>
     length ts = n \<and> toknext p \<le> n \<and> pos p \<le> length js \<and>
     (toksuper p = -1 \<or> 0 \<le> toksuper p \<and> toksuper p < int (toknext p)) \<and>
     (\<forall>i < toknext p. tok_ok (length js) (pos p) (ts ! i))"

text \<open>A case of the switch is safe when it stays inside its arrays, keeps the invariant and,
  on success, leaves the position on a byte of the text, so that the \<open>pos++\<close> of the loop is
  in bounds as well.\<close>

definition jsmn_safe :: "string \<Rightarrow> nat \<Rightarrow> jsmn_result \<Rightarrow> bool" where
  "jsmn_safe js n res \<longleftrightarrow> (case res of None \<Rightarrow> False
     | Some (e, p, ts) \<Rightarrow> jsmn_inv js n p ts \<and> (e = JSMN_SUCCESS \<longrightarrow> pos p < length js))"

lemma tok_ok_mono: "tok_ok len q t \<Longrightarrow> q \<le> q' \<Longrightarrow> tok_ok len q' t"
  by (auto simp: tok_ok_def)

lemma tok_ok_size [simp]: "tok_ok len q (t\<lparr>tok_size := k\<rparr>) = tok_ok len q t"
  by (simp add: tok_ok_def)

lemma jsmn_inv_pos:
  "jsmn_inv js n p ts \<Longrightarrow> pos p \<le> q \<Longrightarrow> q \<le> length js \<Longrightarrow> jsmn_inv js n (p\<lparr>pos := q\<rparr>) ts"
  by (auto simp: jsmn_inv_def intro: tok_ok_mono)

lemma jsmn_inv_inc_super:
  "jsmn_inv js n p ts \<Longrightarrow> \<exists>ts'. inc_super p ts = Some ts' \<and> jsmn_inv js n p ts'"
  by (auto simp: jsmn_inv_def inc_super_def aupd_def nth_list_update)

lemma last_open_in:
  "k \<le> length ts \<Longrightarrow> last_open ts k =
     Some (if \<exists>i < k. tok_open (ts ! i) then Some (GREATEST i. i < k \<and> tok_open (ts ! i)) else None)"
proof (induction k)
  case 0
  then show ?case by simp
next
  case (Suc k)
  show ?case
  proof (cases "tok_open (ts ! k)")
    case True
    then have "(GREATEST i. i < Suc k \<and> tok_open (ts ! i)) = k"
      by (intro Greatest_equality) auto
    with True Suc.prems show ?thesis by (auto simp: aget_def)
  next
    case False
    then have "(i < Suc k \<and> tok_open (ts ! i)) = (i < k \<and> tok_open (ts ! i))" for i
      using less_Suc_eq by auto
    with False Suc show ?thesis by (auto simp: aget_def)
  qed
qed

lemma last_open_less: "last_open ts k = Some (Some i) \<Longrightarrow> i < k \<and> i < length ts \<and> tok_open (ts ! i)"
  by (induction k) (auto simp: aget_def split: if_splits)

lemma last_open_total: "k \<le> length ts \<Longrightarrow> \<exists>r. last_open ts k = Some r"
  by (simp add: last_open_in)

lemma last_open_None: "last_open ts k = Some None \<Longrightarrow> i < k \<Longrightarrow> \<not> tok_open (ts ! i)"
  by (induction k) (auto simp: aget_def less_Suc_eq split: if_splits)

lemma prim_scan_total:
  "q \<le> length js \<Longrightarrow> \<exists>r. prim_scan js q = Some r \<and> (\<forall>z. r = Inr z \<longrightarrow> z \<le> length js)"
proof (induction js q rule: prim_scan.induct)
  case (1 js q)
  from "1.prems" obtain c where c: "cget js q = Some c" using cget_le by blast
  show ?case
    using 1 c cget_notNUL [OF c] by (auto simp: prim_scan.simps [of js q])
qed

lemma NUL_notin_escapes: "c \<in> str_escapes \<Longrightarrow> c \<noteq> NUL"
  by (auto simp: str_escapes_def)

lemma str_scan_total:
  "q \<le> length js \<Longrightarrow> \<exists>r. str_scan js q = Some r \<and> r \<noteq> Inl JSMN_SUCCESS \<and>
     (\<forall>z. r = Inr z \<longrightarrow> z < length js)"
proof (induction js q rule: str_scan.induct)
  case (1 js q)
  from "1.prems" obtain c where c: "cget js q = Some c" using cget_le by blast
  show ?case
  proof (cases "c = CHR 0x5C")
    case True
    with cget_notNUL [OF c] have "q + 1 \<le> length js" by simp
    then obtain e where e: "cget js (q + 1) = Some e" using cget_le by blast
    show ?thesis
    proof (cases "e \<in> str_escapes")
      case esc: True
      then have "q + 2 \<le> length js" using cget_notNUL [OF e NUL_notin_escapes] by simp
      then have "\<exists>r. str_scan js (q + 2) = Some r \<and> r \<noteq> Inl JSMN_SUCCESS \<and>
          (\<forall>z. r = Inr z \<longrightarrow> z < length js)"
        using c True e esc by (intro "1.IH"(1)) auto
      with c True e esc show ?thesis by (simp add: str_scan.simps [of js q])
    next
      case False
      with c True e show ?thesis by (simp add: str_scan.simps [of js q])
    qed
  next
    case False
    then show ?thesis
      using 1 c cget_notNUL [OF c] by (auto simp: str_scan.simps [of js q])
  qed
qed

lemma jsmn_alloc_token_cases:
  assumes "jsmn_inv js n p ts"
  obtains "toknext p = n" "jsmn_alloc_token p ts n = Some (None, p, ts)"
  | "toknext p < n" "jsmn_alloc_token p ts n = Some (Some (toknext p), p\<lparr>toknext := toknext p + 1\<rparr>,
       ts[toknext p := (ts ! toknext p)\<lparr>tok_start := -1, tok_end := -1, tok_size := 0\<rparr>])"
proof (cases "toknext p = n")
  case True
  then show ?thesis by (intro that(1)) (simp_all add: jsmn_alloc_token_def)
next
  case False
  with assms show ?thesis
    by (intro that(2)) (simp_all add: jsmn_inv_def jsmn_alloc_token_def aupd_def)
qed

lemma jsmn_emit_safe:
  assumes inv: "jsmn_inv js n p ts" and q: "pos p \<le> r" "r \<le> q" "q \<le> length js" "r < length js"
    and s: "0 \<le> s" "s \<le> int r"
  shows "\<exists>e p' ts'. jsmn_emit ty s q (pos p) p ts n = Some (e, p', ts') \<and>
    jsmn_safe js n (Some (e, if e = JSMN_SUCCESS then p'\<lparr>pos := r\<rparr> else p', ts'))"
proof -
  from inv q have inv': "jsmn_inv js n (p\<lparr>pos := q\<rparr>) ts"
    by (intro jsmn_inv_pos) auto
  then show ?thesis
  proof (cases rule: jsmn_alloc_token_cases)
    case 1
    with inv show ?thesis by (simp add: jsmn_emit_def jsmn_safe_def)
  next
    case 2
    with inv s q show ?thesis
      by (auto simp: jsmn_emit_def jsmn_safe_def jsmn_inv_def aupd_def jsmn_fill_token_def
          tok_ok_def nth_list_update less_Suc_eq)
  qed
qed

lemma jsmn_parse_primitive_safe:
  assumes inv: "jsmn_inv js n p ts" and c: "cget js (pos p) = Some c" "c \<noteq> NUL" "c \<notin> prim_delims"
  shows "jsmn_safe js n (jsmn_parse_primitive p js ts n)"
proof -
  from inv obtain r where r: "prim_scan js (pos p) = Some r" "\<forall>z. r = Inr z \<longrightarrow> z \<le> length js"
    using prim_scan_total [of "pos p" js] by (auto simp: jsmn_inv_def)
  show ?thesis
  proof (cases r)
    case (Inl u)
    with r inv show ?thesis by (simp add: jsmn_parse_primitive_def jsmn_safe_def)
  next
    case (Inr q)
    with r c have q: "pos p < q" "q \<le> length js" by (auto dest: prim_scan_gt)
    then have "pos p \<le> q - 1" "q - 1 \<le> q" "q \<le> length js" "q - 1 < length js"
      "0 \<le> int (pos p)" "int (pos p) \<le> int (q - 1)" by auto
    from jsmn_emit_safe [OF inv this, of JSMN_PRIMITIVE] obtain e p' ts' where
      em: "jsmn_emit JSMN_PRIMITIVE (int (pos p)) q (pos p) p ts n = Some (e, p', ts')"
      "jsmn_safe js n (Some (e, if e = JSMN_SUCCESS then p'\<lparr>pos := q - 1\<rparr> else p', ts'))"
      by blast
    moreover from em(1) have "e = JSMN_SUCCESS \<Longrightarrow> pos p' = q" by (auto dest: jsmn_emit_pos)
    ultimately show ?thesis using r Inr by (auto simp: jsmn_parse_primitive_def)
  qed
qed

lemma jsmn_parse_string_safe:
  assumes inv: "jsmn_inv js n p ts" and c: "pos p < length js"
  shows "jsmn_safe js n (jsmn_parse_string p js ts n)"
proof -
  obtain r where r: "str_scan js (pos p + 1) = Some r" "r \<noteq> Inl JSMN_SUCCESS"
      "\<forall>z. r = Inr z \<longrightarrow> z < length js"
    using str_scan_total [of "pos p + 1" js] c by auto
  show ?thesis
  proof (cases r)
    case (Inl e)
    with r inv show ?thesis by (simp add: jsmn_parse_string_def jsmn_safe_def)
  next
    case (Inr q)
    with r have q: "pos p + 1 \<le> q" "q < length js" by (auto dest: str_scan_ge)
    then obtain e p' ts' where em: "jsmn_emit JSMN_STRING (int (pos p + 1)) q (pos p) p ts n = Some (e, p', ts')"
      "jsmn_safe js n (Some (e, if e = JSMN_SUCCESS then p'\<lparr>pos := q\<rparr> else p', ts'))"
      using jsmn_emit_safe [OF inv, of q q "int (pos p + 1)" JSMN_STRING] by auto
    moreover from em(1) have "e = JSMN_SUCCESS \<Longrightarrow> p'\<lparr>pos := q\<rparr> = p'" by (auto dest: jsmn_emit_pos)
    ultimately show ?thesis using r Inr by (auto simp: jsmn_parse_string_def split: if_splits)
  qed
qed

lemma jsmn_value_safe: "jsmn_safe js n res \<Longrightarrow> jsmn_safe js n (jsmn_value res)"
proof -
  assume safe: "jsmn_safe js n res"
  then obtain e p ts where res: "res = Some (e, p, ts)" and inv: "jsmn_inv js n p ts"
    by (auto simp: jsmn_safe_def split: option.splits)
  from jsmn_inv_inc_super [OF inv] obtain ts' where "inc_super p ts = Some ts'" "jsmn_inv js n p ts'"
    by blast
  with res safe show ?thesis by (simp add: jsmn_safe_def jsmn_value_def)
qed

lemma jsmn_open_safe:
  assumes inv: "jsmn_inv js n p ts" and c: "pos p < length js"
  shows "jsmn_safe js n (jsmn_open c p ts n)"
  using inv
proof (cases rule: jsmn_alloc_token_cases)
  case 1
  with inv show ?thesis by (simp add: jsmn_open_def jsmn_safe_def)
next
  case 2
  show ?thesis
  proof (cases "toksuper p = -1")
    case True
    with 2 inv c show ?thesis
      by (auto simp: jsmn_open_def jsmn_safe_def jsmn_inv_def inc_super_def aupd_def
          tok_ok_def less_Suc_eq)
  next
    case False
    with inv have "0 \<le> toksuper p" by (auto simp: jsmn_inv_def)
    then obtain k where "toksuper p = int k" using nonneg_int_cases by blast
    with inv have k: "toksuper p = int k" "k < toknext p" "k < length ts"
      by (auto simp: jsmn_inv_def)
    with 2 inv c show ?thesis
      by (auto simp: jsmn_open_def jsmn_safe_def jsmn_inv_def inc_super_def aupd_def
          nth_list_update less_Suc_eq) (auto simp: tok_ok_def)
  qed
qed

lemma jsmn_close_safe:
  assumes inv: "jsmn_inv js n p ts" and c: "pos p < length js"
  shows "jsmn_safe js n (jsmn_close c p ts)"
proof -
  let ?ty = "if c = CHR ''}'' then JSMN_OBJECT else JSMN_ARRAY"
  from inv obtain r where r: "last_open ts (toknext p) = Some r"
    using last_open_total [of "toknext p" ts] by (auto simp: jsmn_inv_def)
  show ?thesis
  proof (cases r)
    case None
    with r inv show ?thesis by (simp add: jsmn_close_def jsmn_safe_def)
  next
    case (Some i)
    with r have i: "i < toknext p" "i < length ts" by (auto dest: last_open_less)
    let ?ts = "ts[i := (ts ! i)\<lparr>tok_end := int (pos p) + 1\<rparr>]"
    from i obtain r' where r': "last_open ?ts (Suc i) = Some r'"
      using last_open_total [of "Suc i" ?ts] by auto
    then have "r' = Some j \<Longrightarrow> j < toknext p" for j
      using i last_open_less [of ?ts "Suc i" j] by (auto simp del: last_open.simps)
    with r r' Some i inv c show ?thesis
      by (auto simp: jsmn_close_def jsmn_safe_def jsmn_inv_def aget_def aupd_def tok_ok_def
          nth_list_update split: option.splits)
  qed
qed

lemma jsmn_switch_safe:
  assumes inv: "jsmn_inv js n p ts" and c: "cget js (pos p) = Some c" "c \<noteq> NUL"
  shows "jsmn_safe js n (jsmn_switch c p js ts n)"
proof -
  have lt: "pos p < length js" using cget_notNUL [OF c] by simp
  moreover have "jsmn_safe js n (Some (JSMN_SUCCESS, p, ts))"
    using inv lt by (simp add: jsmn_safe_def)
  ultimately show ?thesis
    using jsmn_open_safe [OF inv lt] jsmn_close_safe [OF inv lt]
      jsmn_value_safe [OF jsmn_parse_string_safe [OF inv lt]]
      jsmn_value_safe [OF jsmn_parse_primitive_safe [OF inv c]] switch_delims [of c]
    unfolding jsmn_switch_def by (simp split: if_split)
qed

lemma jsmn_parse_inv:
  "jsmn_inv js n p ts \<Longrightarrow> \<exists>e p' ts'. jsmn_parse p js ts n = Some (e, p', ts') \<and> jsmn_inv js n p' ts' \<and>
     (e = JSMN_SUCCESS \<longrightarrow> (\<forall>i < toknext p'. \<not> tok_open (ts' ! i)))"
proof (induction p js ts n rule: jsmn_parse.induct)
  case (1 p js ts n)
  from "1.prems" have "pos p \<le> length js" by (simp add: jsmn_inv_def)
  then obtain c where c: "cget js (pos p) = Some c" using cget_le by blast
  show ?case
  proof (cases "c = NUL")
    case True
    from "1.prems" obtain r where "last_open ts (toknext p) = Some r"
      using last_open_total [of "toknext p" ts] by (auto simp: jsmn_inv_def)
    with c True "1.prems" show ?thesis
      by (cases r) (auto simp: jsmn_parse.simps [of p js ts n] dest: last_open_None)
  next
    case False
    from jsmn_switch_safe [OF "1.prems" c False] obtain e p' ts' where
      sw: "jsmn_switch c p js ts n = Some (e, p', ts')" and inv: "jsmn_inv js n p' ts'"
      and lt: "e = JSMN_SUCCESS \<Longrightarrow> pos p' < length js"
      by (auto simp: jsmn_safe_def split: option.splits)
    show ?thesis
    proof (cases "e = JSMN_SUCCESS")
      case True
      have "jsmn_inv js n (p'\<lparr>pos := pos p' + 1\<rparr>) ts'"
        using jsmn_inv_pos [OF inv, of "pos p' + 1"] lt [OF True] by simp
      from "1.IH" [OF c False sw refl refl True this] show ?thesis
        using c False sw True by (simp add: jsmn_parse.simps [of p js ts n])
    next
      case nsucc: False
      with c False sw inv show ?thesis by (simp add: jsmn_parse.simps [of p js ts n])
    qed
  qed
qed

lemma jsmn_init_inv: "jsmn_inv js (length ts) jsmn_init ts"
  by (simp add: jsmn_inv_def jsmn_init_def)

text \<open>What a caller may rely on, for every text and every token array: the parser returns,
  without leaving its arrays; after success every token it handed out is a range of the text.\<close>

definition tok_range :: "nat \<Rightarrow> jsmntok \<Rightarrow> bool" where
  "tok_range len t \<longleftrightarrow> 0 \<le> tok_start t \<and> tok_start t \<le> tok_end t \<and> tok_end t \<le> int len"

lemma tok_ok_range: "tok_ok len q t \<Longrightarrow> \<not> tok_open t \<Longrightarrow> tok_range len t"
  by (auto simp: tok_ok_def tok_open_def tok_range_def)

lemma jsmn_parse_ranges:
  obtains e p ts' where "jsmn_parse jsmn_init js ts (length ts) = Some (e, p, ts')"
    "length ts' = length ts" "toknext p \<le> length ts" "pos p \<le> length js"
    "e = JSMN_SUCCESS \<Longrightarrow> \<forall>i < toknext p. tok_range (length js) (ts' ! i)"
  using jsmn_parse_inv [OF jsmn_init_inv [of js ts]]
  by (fastforce simp: jsmn_inv_def intro: tok_ok_range)

section \<open>Flat objects of strings\<close>

text \<open>The messages of the tunnel protocol are objects of plain strings. \<open>print_obj\<close> prints one,
  \<open>obj_toks\<close> is the list of tokens it must give.\<close>

definition plain :: "string \<Rightarrow> bool" where
  "plain s \<longleftrightarrow> CHR 0x22 \<notin> set s \<and> CHR 0x5C \<notin> set s \<and> NUL \<notin> set s"

fun print_member :: "string \<times> string \<Rightarrow> string" where
  "print_member (k, v) = CHR 0x22 # k @ CHR 0x22 # CHR '':'' # CHR 0x22 # v @ [CHR 0x22]"

fun print_tail :: "(string \<times> string) list \<Rightarrow> string" where
  "print_tail [] = [CHR ''}'']"
| "print_tail (m # ms) = CHR '','' # print_member m @ print_tail ms"

fun print_obj :: "(string \<times> string) list \<Rightarrow> string" where
  "print_obj [] = [CHR ''{'', CHR ''}'']"
| "print_obj (m # ms) = CHR ''{'' # print_member m @ print_tail ms"

definition str_tok :: "nat \<Rightarrow> string \<Rightarrow> jsmntok" where
  "str_tok off s = \<lparr>tok_type = JSMN_STRING, tok_start = int off, tok_end = int (off + length s), tok_size = 0\<rparr>"

fun member_toks :: "nat \<Rightarrow> string \<times> string \<Rightarrow> jsmntok list" where
  "member_toks off (k, v) = [str_tok (off + 1) k, str_tok (off + length k + 4) v]"

fun members_toks :: "nat \<Rightarrow> (string \<times> string) list \<Rightarrow> jsmntok list" where
  "members_toks off [] = []"
| "members_toks off (m # ms) = member_toks off m @ members_toks (off + length (print_member m) + 1) ms"

definition obj_toks :: "(string \<times> string) list \<Rightarrow> jsmntok list" where
  "obj_toks ms = \<lparr>tok_type = JSMN_OBJECT, tok_start = 0, tok_end = int (length (print_obj ms)),
     tok_size = 2 * int (length ms)\<rparr> # members_toks 1 ms"

lemma length_members_toks [simp]: "length (members_toks off ms) = 2 * length ms"
  by (induction off ms rule: members_toks.induct) auto

lemma str_scan_plain:
  "plain s \<Longrightarrow> str_scan (pre @ s @ CHR 0x22 # post) (length pre) = Some (Inr (length pre + length s))"
proof (induction s arbitrary: pre)
  case Nil
  then show ?case by (simp add: str_scan.simps [of _ "length pre"] cget_def)
next
  case (Cons c s)
  then have "c \<noteq> CHR 0x22" "c \<noteq> CHR 0x5C" "c \<noteq> NUL" "plain s" by (auto simp: plain_def)
  with Cons.IH [of "pre @ [c]"] show ?case
    by (simp add: str_scan.simps [of _ "length pre"] cget_def nth_append)
qed

lemma jsmn_parse_skip:
  assumes "cget js (pos p) = Some c" "c \<in> {CHR '':'', CHR '',''}"
  shows "jsmn_parse p js ts n = jsmn_parse (p\<lparr>pos := pos p + 1\<rparr>) js ts n"
  using assms by (auto simp: jsmn_parse.simps [of p js ts n] jsmn_switch_def)

lemma jsmn_parse_member_string:
  assumes js: "js = pre @ CHR 0x22 # s @ CHR 0x22 # post" and pl: "plain s"
    and ts: "ts = ob # done @ t # rest" "length ts = n"
    and p: "pos p = length pre" "toknext p = Suc (length done)" "toksuper p = 0"
  shows "jsmn_parse p js ts n =
    jsmn_parse (p\<lparr>toknext := Suc (Suc (length done)), pos := length pre + length s + 2\<rparr>) js
      (ob\<lparr>tok_size := tok_size ob + 1\<rparr> # done @ str_tok (length pre + 1) s # rest) n"
proof -
  have c: "cget js (pos p) = Some (CHR 0x22)" by (simp add: js p cget_def nth_append)
  have "str_scan js (pos p + 1) = Some (Inr (length pre + 1 + length s))"
    using str_scan_plain [OF pl, of "pre @ [CHR 0x22]" post] by (simp add: js p)
  moreover have lt: "Suc (length done) < n" using ts by auto
  ultimately have "jsmn_parse_string p js ts n = Some (JSMN_SUCCESS,
      p\<lparr>pos := length pre + 1 + length s, toknext := Suc (Suc (length done))\<rparr>,
      ob # done @ str_tok (length pre + 1) s # rest)"
    using ts p by (simp add: jsmn_parse_string_def jsmn_emit_def jsmn_alloc_token_def aupd_def
        jsmn_fill_token_def str_tok_def nth_append)
  with c p show ?thesis
    by (simp add: jsmn_parse.simps [of p js ts n] jsmn_switch_def jsmn_value_def inc_super_def aupd_def)
qed

lemma jsmn_parse_member:
  assumes js: "js = pre @ print_member m @ post" and pl: "plain (fst m)" "plain (snd m)"
    and ts: "ts = ob # done @ t1 # t2 # rest" "length ts = n"
    and p: "pos p = length pre" "toknext p = Suc (length done)" "toksuper p = 0"
  shows "jsmn_parse p js ts n =
    jsmn_parse (p\<lparr>toknext := Suc (length done + 2), pos := length pre + length (print_member m)\<rparr>) js
      (ob\<lparr>tok_size := tok_size ob + 2\<rparr> # done @ member_toks (length pre) m @ rest) n"
proof (cases m)
  case (Pair k v)
  let ?p1 = "p\<lparr>toknext := Suc (Suc (length done)), pos := length pre + length k + 2\<rparr>"
  let ?p2 = "?p1\<lparr>pos := length pre + length k + 3\<rparr>"
  let ?t1 = "str_tok (length pre + 1) k"
  let ?ts1 = "ob\<lparr>tok_size := tok_size ob + 1\<rparr> # done @ ?t1 # t2 # rest"
  have len: "length ?ts1 = n" using ts by simp
  have "jsmn_parse p js ts n = jsmn_parse ?p1 js ?ts1 n"
    using jsmn_parse_member_string [of js pre k "CHR '':'' # CHR 0x22 # v @ CHR 0x22 # post" ts ob
        "done" t1 "t2 # rest" n p] js pl ts p Pair by simp
  also have "\<dots> = jsmn_parse ?p2 js ?ts1 n"
    using jsmn_parse_skip [of js ?p1 "CHR '':''" ?ts1 n] cget_append_right
        [of "pre @ CHR 0x22 # k @ [CHR 0x22]" "CHR '':'' # CHR 0x22 # v @ CHR 0x22 # post" 0]
    by (simp add: js Pair cget_def numeral_3_eq_3)
  also have "\<dots> = jsmn_parse (p\<lparr>toknext := Suc (length done + 2), pos := length pre + length (print_member m)\<rparr>) js
      (ob\<lparr>tok_size := tok_size ob + 2\<rparr> # done @ member_toks (length pre) m @ rest) n"
    using jsmn_parse_member_string [of js "pre @ CHR 0x22 # k @ [CHR 0x22, CHR '':'']" v post ?ts1
        "ob\<lparr>tok_size := tok_size ob + 1\<rparr>" "done @ [?t1]" t2 rest n ?p2] js pl len p Pair
    by (simp add: algebra_simps numeral_eq_Suc)
  finally show ?thesis .
qed

lemma last_open_closed:
  "tok_open ob \<Longrightarrow> \<forall>t \<in> set done. \<not> tok_open t \<Longrightarrow>
   k \<le> length done \<Longrightarrow> last_open (ob # done @ rest) (Suc k) = Some (Some 0)"
  by (induction k) (auto simp: aget_def nth_append)

lemma str_tok_closed [simp]: "\<not> tok_open (str_tok off s)"
  by (simp add: tok_open_def str_tok_def)

lemma member_toks_closed [simp]: "t \<in> set (member_toks off m) \<Longrightarrow> \<not> tok_open t"
  by (cases m) auto

lemma length_member_toks [simp]: "length (member_toks off m) = 2"
  by (cases m) simp

lemma members_toks_closed: "t \<in> set (members_toks off ms) \<Longrightarrow> \<not> tok_open t"
  by (induction off ms rule: members_toks.induct) auto

lemma last_open_all_closed:
  "\<forall>t \<in> set ts. \<not> tok_open t \<Longrightarrow> k \<le> length ts \<Longrightarrow> last_open (ts @ rest) k = Some None"
  by (induction k) (auto simp: aget_def nth_append)

lemma jsmn_parse_end:
  assumes js: "js = pre @ [CHR ''}'']" and ob: "tok_type ob = JSMN_OBJECT" "tok_start ob = 0" "tok_end ob = -1"
    and cl: "\<forall>t \<in> set done. \<not> tok_open t"
    and ts: "ts = ob # done @ rest" "length ts = n"
    and p: "pos p = length pre" "toknext p = Suc (length done)"
  shows "jsmn_parse p js ts n = Some (JSMN_SUCCESS, p\<lparr>toksuper := -1, pos := length js\<rparr>,
    ob\<lparr>tok_end := int (length js)\<rparr> # done @ rest)"
proof -
  let ?ts = "ob\<lparr>tok_end := int (length js)\<rparr> # done @ rest"
  have c: "cget js (pos p) = Some (CHR ''}'')" by (simp add: js p cget_def nth_append)
  have len: "length js = Suc (length pre)" by (simp add: js)
  have op: "tok_open ob" and nop: "\<not> tok_open (ob\<lparr>tok_end := int (length js)\<rparr>)"
    using ob by (auto simp: tok_open_def)
  have lo: "last_open ts (toknext p) = Some (Some 0)"
    unfolding p ts(1) using op cl by (intro last_open_closed) auto
  have "last_open ?ts (Suc 0) = Some None" using nop by (simp add: aget_def)
  then have "jsmn_close (CHR ''}'') p ts = Some (JSMN_SUCCESS, p\<lparr>toksuper := -1\<rparr>, ?ts)"
    using lo ob p by (simp add: jsmn_close_def aget_def aupd_def ts(1) js add.commute del: last_open.simps)
  then have "jsmn_parse p js ts n = jsmn_parse (p\<lparr>toksuper := -1, pos := length js\<rparr>) js ?ts n"
    using c by (simp add: jsmn_parse.simps [of p js ts n] jsmn_switch_def p len)
  moreover have "last_open ?ts (toknext p) = Some None"
    using last_open_all_closed [of "ob\<lparr>tok_end := int (length js)\<rparr> # done" "toknext p" rest] nop cl p
    by simp
  ultimately show ?thesis
    by (simp add: jsmn_parse.simps [of "p\<lparr>toksuper := -1, pos := length js\<rparr>"] cget_end)
qed

lemma jsmn_parse_tail:
  assumes "js = pre @ print_tail ms" and "list_all (\<lambda>(k, v). plain k \<and> plain v) ms"
    and "tok_type ob = JSMN_OBJECT" "tok_start ob = 0" "tok_end ob = -1"
    and "\<forall>t \<in> set done. \<not> tok_open t"
    and "ts = ob # done @ free @ rest" "length free = 2 * length ms" "length ts = n"
    and "pos p = length pre" "toknext p = Suc (length done)" "toksuper p = 0"
  shows "\<exists>p'. jsmn_parse p js ts n = Some (JSMN_SUCCESS, p',
      ob\<lparr>tok_size := tok_size ob + 2 * int (length ms), tok_end := int (length js)\<rparr>
        # done @ members_toks (length pre + 1) ms @ rest) \<and>
    toknext p' = Suc (length done + 2 * length ms)"
  using assms
proof (induction ms arbitrary: pre ob "done" ts p free)
  case Nil
  then show ?case
    using jsmn_parse_end [of js pre ob "done" ts rest n p] by simp
next
  case (Cons m ms)
  then obtain t1 t2 free' where free: "free = t1 # t2 # free'" "length free' = 2 * length ms"
    by (auto simp: length_Suc_conv)
  let ?p1 = "p\<lparr>pos := length pre + 1\<rparr>"
  let ?p2 = "?p1\<lparr>toknext := Suc (length done + 2), pos := length (pre @ [CHR '','']) + length (print_member m)\<rparr>"
  let ?ob = "ob\<lparr>tok_size := tok_size ob + 2\<rparr>"
  let ?mt = "member_toks (length (pre @ [CHR '','' ])) m"
  have "jsmn_parse p js ts n = jsmn_parse ?p1 js ts n"
    using jsmn_parse_skip [of js p "CHR '',''" ts n] Cons.prems by (simp add: cget_def nth_append)
  also have "\<dots> = jsmn_parse ?p2 js (?ob # done @ ?mt @ free' @ rest) n"
    using jsmn_parse_member [of js "pre @ [CHR '','']" m "print_tail ms" ts ob "done" t1 t2
        "free' @ rest" n ?p1] Cons.prems free by auto
  finally have step: "jsmn_parse p js ts n = jsmn_parse ?p2 js (?ob # (done @ ?mt) @ free' @ rest) n"
    by simp
  have "\<exists>p'. jsmn_parse ?p2 js (?ob # (done @ ?mt) @ free' @ rest) n = Some (JSMN_SUCCESS, p',
      ?ob\<lparr>tok_size := tok_size ?ob + 2 * int (length ms), tok_end := int (length js)\<rparr>
        # (done @ ?mt) @ members_toks (length (pre @ CHR '','' # print_member m) + 1) ms @ rest) \<and>
    toknext p' = Suc (length (done @ ?mt) + 2 * length ms)"
    using Cons.prems free
    by (intro Cons.IH [where free = free']) (auto split: prod.splits)
  with step show ?case by (cases m) (simp add: algebra_simps)
qed

lemma jsmn_parse_begin:
  assumes js: "js = CHR ''{'' # post" and ts: "ts = t # rest" "length ts = n"
  shows "jsmn_parse jsmn_init js ts n = jsmn_parse \<lparr>pos = 1, toknext = 1, toksuper = 0\<rparr> js
    (\<lparr>tok_type = JSMN_OBJECT, tok_start = 0, tok_end = -1, tok_size = 0\<rparr> # rest) n"
proof -
  have "cget js (pos jsmn_init) = Some (CHR ''{'')" by (simp add: js jsmn_init_def cget_def)
  moreover have "jsmn_switch (CHR ''{'') jsmn_init js ts n = Some (JSMN_SUCCESS,
      \<lparr>pos = 0, toknext = 1, toksuper = 0\<rparr>,
      \<lparr>tok_type = JSMN_OBJECT, tok_start = 0, tok_end = -1, tok_size = 0\<rparr> # rest)"
    using ts by (cases t) (auto simp: jsmn_switch_def jsmn_open_def jsmn_alloc_token_def
        inc_super_def aupd_def jsmn_init_def)
  ultimately show ?thesis by (simp add: jsmn_parse.simps [of jsmn_init js ts n])
qed

lemma jsmn_parse_obj:
  assumes pl: "list_all (\<lambda>(k, v). plain k \<and> plain v) ms"
    and n: "1 + 2 * length ms \<le> length ts"
  shows "\<exists>p'. jsmn_parse jsmn_init (print_obj ms) ts (length ts) =
    Some (JSMN_SUCCESS, p', obj_toks ms @ drop (1 + 2 * length ms) ts) \<and> toknext p' = 1 + 2 * length ms"
proof -
  let ?js = "print_obj ms"
  let ?ob = "\<lparr>tok_type = JSMN_OBJECT, tok_start = 0, tok_end = -1, tok_size = 0\<rparr>"
  let ?p = "\<lparr>pos = 1, toknext = 1, toksuper = 0\<rparr>"
  let ?rest = "drop (1 + 2 * length ms) ts"
  obtain t ts1 where ts: "ts = t # ts1" using n by (cases ts) auto
  show ?thesis
  proof (cases ms)
    case Nil
    have "jsmn_parse ?p ?js (?ob # ts1) (length ts) = Some (JSMN_SUCCESS, ?p\<lparr>toksuper := -1, pos := length ?js\<rparr>,
        ?ob\<lparr>tok_end := int (length ?js)\<rparr> # [] @ ts1)"
      using Nil ts by (intro jsmn_parse_end [where pre = "[CHR ''{'']"]) auto
    with jsmn_parse_begin [of ?js "[CHR ''}'']" ts t ts1] Nil ts show ?thesis
      by (simp add: obj_toks_def)
  next
    case (Cons m ms')
    with n ts obtain t1 t2 ts2 where ts1: "ts1 = t1 # t2 # ts2" and l2: "2 * length ms' \<le> length ts2"
      by (cases ts1; cases "tl ts1") auto
    let ?free = "take (2 * length ms') ts2"
    let ?ob2 = "?ob\<lparr>tok_size := 2\<rparr>"
    let ?mt = "member_toks 1 m"
    let ?p2 = "?p\<lparr>toknext := 3, pos := 1 + length (print_member m)\<rparr>"
    have pl': "plain (fst m)" "plain (snd m)" "list_all (\<lambda>(k, v). plain k \<and> plain v) ms'"
      using pl Cons by auto
    have "jsmn_parse jsmn_init ?js ts (length ts) = jsmn_parse ?p ?js (?ob # t1 # t2 # ts2) (length ts)"
      using jsmn_parse_begin [of ?js _ ts t ts1] Cons ts ts1 by simp
    also have "\<dots> = jsmn_parse ?p2 ?js (?ob2 # ?mt @ ts2) (length ts)"
      using jsmn_parse_member [of ?js "[CHR ''{'']" m "print_tail ms'" "?ob # t1 # t2 # ts2" ?ob "[]" t1 t2
          ts2 "length ts" ?p] Cons ts ts1 pl' by (simp add: numeral_3_eq_3)
    finally have step: "jsmn_parse jsmn_init ?js ts (length ts) =
      jsmn_parse ?p2 ?js (?ob2 # ?mt @ ?free @ drop (2 * length ms') ts2) (length ts)" by simp
    have "\<exists>p'. jsmn_parse ?p2 ?js (?ob2 # ?mt @ ?free @ drop (2 * length ms') ts2) (length ts) =
        Some (JSMN_SUCCESS, p',
          ?ob2\<lparr>tok_size := tok_size ?ob2 + 2 * int (length ms'), tok_end := int (length ?js)\<rparr>
          # ?mt @ members_toks (length (CHR ''{'' # print_member m) + 1) ms' @ drop (2 * length ms') ts2) \<and>
        toknext p' = Suc (length ?mt + 2 * length ms')"
      using Cons pl' ts ts1 l2
      by (intro jsmn_parse_tail [where free = ?free]) (auto split: prod.splits)
    with step Cons ts ts1 show ?thesis by (cases m) (simp add: obj_toks_def)
  qed
qed

section \<open>Properties\<close>

definition tok0 :: jsmntok where
  "tok0 = \<lparr>tok_type = JSMN_PRIMITIVE, tok_start = 0, tok_end = 0, tok_size = 0\<rparr>"

text \<open>C9. For every text and every token array the parser returns, and no read of the text
  and no read or write of the array is out of bounds (the model would give \<open>None\<close>). When it
  reports success, every token it handed out is a range of the text, with no token left
  open.\<close>

theorem jsmn_parse_safe:
  "\<exists>e p ts'. jsmn_parse jsmn_init js ts (length ts) = Some (e, p, ts') \<and>
     length ts' = length ts \<and> toknext p \<le> length ts \<and> pos p \<le> length js \<and>
     (e = JSMN_SUCCESS \<longrightarrow> (\<forall>i < toknext p. tok_range (length js) (ts' ! i)))"
  by (rule jsmn_parse_ranges [of js ts]) blast

theorem jsmn_parse_safe_witness:
  "\<exists>p ts'. jsmn_parse jsmn_init (print_obj []) [tok0] 1 = Some (JSMN_SUCCESS, p, ts') \<and>
     toknext p = 1 \<and> tok_range 2 (ts' ! 0)"
  using jsmn_parse_safe [of "print_obj []" "[tok0]"] jsmn_parse_obj [of "[]" "[tok0]"]
  by (auto simp: numeral_2_eq_2)

text \<open>C17. Parsing undoes printing on the objects of the tunnel protocol: an object of plain
  strings whose tokens fit the array is accepted, and the tokens are the object, with the
  number of its parts, and the exact range of every key and value in order; the rest of the
  array is not written.\<close>

theorem jsmn_parse_print_obj:
  assumes "list_all (\<lambda>(k, v). plain k \<and> plain v) ms" and "1 + 2 * length ms \<le> length ts"
  shows "\<exists>p'. jsmn_parse jsmn_init (print_obj ms) ts (length ts) =
    Some (JSMN_SUCCESS, p', obj_toks ms @ drop (1 + 2 * length ms) ts) \<and> toknext p' = 1 + 2 * length ms"
  using assms by (rule jsmn_parse_obj)

theorem jsmn_parse_print_obj_witness:
  "\<exists>p'. jsmn_parse jsmn_init (print_obj [(''Id'', ''ab'')]) (replicate 4 tok0) 4 =
    Some (JSMN_SUCCESS, p', obj_toks [(''Id'', ''ab'')] @ [tok0]) \<and> toknext p' = 3"
  using jsmn_parse_print_obj [of "[(''Id'', ''ab'')]" "replicate 4 tok0"]
  by (simp add: plain_def numeral_eq_Suc)

text \<open>A string or a primitive that cannot be read, because its text is bad or because
  no token is left, has no effect: the parser goes back to the byte it started from and
  neither its counters nor the tokens change, so the call can be repeated with a bigger
  array or more text.\<close>

lemma jsmn_value_error_restores:
  "(jsmn_parse_string p js ts n = Some (e, p', ts') \<or> jsmn_parse_primitive p js ts n = Some (e, p', ts')) \<and>
   e \<noteq> JSMN_SUCCESS \<Longrightarrow> p' = p \<and> ts' = ts"
  by (auto simp: jsmn_parse_string_def jsmn_parse_primitive_def jsmn_emit_def jsmn_alloc_token_def
      split: if_splits Option.bind_splits option.splits sum.splits)

lemma jsmn_value_error_restores_witness:
  "jsmn_parse_string jsmn_init [CHR 0x22] [] 0 = Some (JSMN_ERROR_PART, jsmn_init, []) \<and>
   jsmn_init = jsmn_init"
proof -
  have *: "jsmn_parse_string jsmn_init [CHR 0x22] [] 0 = Some (JSMN_ERROR_PART, jsmn_init, [])"
    by (simp add: jsmn_parse_string_def jsmn_init_def str_scan.simps cget_def)
  with jsmn_value_error_restores [of jsmn_init "[CHR 0x22]" "[]" 0 JSMN_ERROR_PART jsmn_init "[]"]
  show ?thesis by simp
qed

end
