(* ===== verification/Ini.thy ===== *)
theory Ini
  imports Prelude
begin

text \<open>
  The .INI reader (\<open>software/ipv6_tunnel/lib/ini/ini.c\<close>, and the identical copy
  \<open>tinyos/support/sdk/c/ini/ini.c\<close>) with the switches of its header: continuation lines and
  a byte order mark are allowed, the line buffer is on the stack. A file is the list of its
  bytes. The handler is a parameter: it takes the user's state and gives the new state and
  whether it accepted the pair. The pointers of \<open>ini_parse_file\<close> are the strings they point
  to; where the code compares two of them (\<open>start > line\<close>) the model keeps the fact it tests.
\<close>

section \<open>Helpers on strings\<close>

definition isspace :: "char \<Rightarrow> bool" where
  "isspace c \<longleftrightarrow> c \<in> {CHR '' '', CHR 0x09, CHR 0x0A, CHR 0x0B, CHR 0x0C, CHR 0x0D}"

text \<open>\<open>while (p > s && isspace(*--p)) *p = 0\<close>: from the end of the string towards its start.\<close>

definition rstrip :: "string \<Rightarrow> string" where
  "rstrip s = rev (dropWhile isspace (rev s))"

fun lskip :: "string \<Rightarrow> string" where
  "lskip [] = []"
| "lskip (c # s) = (if isspace c then lskip s else c # s)"

text \<open>The number of bytes before the first \<open>c\<close>, or before a \<open>;\<close> that follows a space; the
  length of the string when there is neither. \<open>None\<close> for \<open>c\<close> is the call with \<open>'\\0'\<close>.\<close>

fun find_char_or_comment_from :: "bool \<Rightarrow> string \<Rightarrow> char option \<Rightarrow> nat" where
  "find_char_or_comment_from was_whitespace [] c = 0"
| "find_char_or_comment_from was_whitespace (x # s) c =
     (if Some x \<noteq> c \<and> \<not> (was_whitespace \<and> x = CHR '';'')
      then Suc (find_char_or_comment_from (isspace x) s c) else 0)"

definition find_char_or_comment :: "string \<Rightarrow> char option \<Rightarrow> nat" where
  "find_char_or_comment s c = find_char_or_comment_from False s c"

text \<open>\<open>strncpy\<close> fills the whole buffer, then \<open>strncpy0\<close> puts the terminator in its last byte.\<close>

definition strncpy :: "string \<Rightarrow> nat \<Rightarrow> string" where
  "strncpy src sz = take sz (src @ replicate sz NUL)"

definition strncpy0 :: "string \<Rightarrow> nat \<Rightarrow> string" where
  "strncpy0 src sz = (strncpy src sz)[sz - 1 := NUL]"

section \<open>Reading lines\<close>

definition MAX_SECTION :: nat where "MAX_SECTION = 50"
definition MAX_NAME :: nat where "MAX_NAME = 50"
definition INI_MAX_LINE :: nat where "INI_MAX_LINE = 200"

text \<open>\<open>fgets\<close> stores at most \<open>size - 1\<close> bytes, up to and with the first newline. The result is
  what it stored and the rest of the file.\<close>

fun fgets_line :: "nat \<Rightarrow> string \<Rightarrow> string \<times> string" where
  "fgets_line 0 s = ([], s)"
| "fgets_line (Suc k) [] = ([], [])"
| "fgets_line (Suc k) (c # s) =
     (if c = CHR 0x0A then ([c], s) else (let (l, r) = fgets_line k s in (c # l, r)))"

definition fgets :: "nat \<Rightarrow> string \<Rightarrow> (string \<times> string) option" where
  "fgets sz s = (if s = [] then None else Some (fgets_line (sz - 1) s))"

section \<open>The parser\<close>

record 'u ini_state =
  section_buf :: string
  prev_name :: string
  lineno :: nat
  error :: nat
  user :: 'u

type_synonym 'u ini_handler = "'u \<Rightarrow> string \<Rightarrow> string \<Rightarrow> string \<Rightarrow> 'u \<times> bool"

text \<open>\<open>if (!handler(...) && !error) error = lineno;\<close>\<close>

definition call_handler ::
  "'u ini_handler \<Rightarrow> string \<Rightarrow> string \<Rightarrow> 'u ini_state \<Rightarrow> 'u ini_state" where
  "call_handler h name value st =
     (let (u, ok) = h (user st) (cstr (section_buf st)) name value in
      st\<lparr>user := u, error := (if \<not> ok \<and> error st = 0 then lineno st else error st)\<rparr>)"

definition set_error :: "'u ini_state \<Rightarrow> 'u ini_state" where
  "set_error st = (if error st = 0 then st\<lparr>error := lineno st\<rparr> else st)"

definition has_bom :: "string \<Rightarrow> bool" where
  "has_bom line \<longleftrightarrow> (case line of a # b # c # _ \<Rightarrow>
     a = CHR 0xEF \<and> b = CHR 0xBB \<and> c = CHR 0xBF | _ \<Rightarrow> False)"

text \<open>What one line is, in the order of the tests of the loop: \<open>first\<close> tells that it is line 1,
  \<open>has_prev\<close> that \<open>*prev_name\<close> is not 0. \<open>moved\<close> is the test \<open>start > line\<close>.\<close>

datatype line_kind =
    Blank
  | Continuation string
  | Header string
  | Pair string string
  | Malformed

definition ini_pair :: "string \<Rightarrow> nat \<Rightarrow> line_kind" where
  "ini_pair start i =
     (let name = rstrip (take i start);
          value0 = lskip (drop (i + 1) start);
          value = rstrip (take (find_char_or_comment value0 None) value0)
      in Pair name value)"

definition ini_classify :: "bool \<Rightarrow> bool \<Rightarrow> string \<Rightarrow> line_kind" where
  "ini_classify first has_prev line =
     (let bom = (first \<and> has_bom line);
          stripped = rstrip (if bom then drop 3 line else line);
          start = lskip stripped;
          moved = (bom \<or> length start < length stripped)
      in
      if start \<noteq> [] \<and> (hd start = CHR '';'' \<or> hd start = CHR ''#'') then Blank
      else if has_prev \<and> start \<noteq> [] \<and> moved then Continuation start
      else if start \<noteq> [] \<and> hd start = CHR ''['' then
        (let i = find_char_or_comment (tl start) (Some (CHR '']'')) in
         if i < length (tl start) \<and> tl start ! i = CHR '']'' then Header (take i (tl start)) else Malformed)
      else if start \<noteq> [] then
        (let e = find_char_or_comment start (Some (CHR ''=''));
             i = (if e < length start \<and> start ! e = CHR ''='' then e
                  else find_char_or_comment start (Some (CHR '':'')))
         in if i < length start \<and> (start ! i = CHR ''='' \<or> start ! i = CHR '':'')
            then ini_pair start i else Malformed)
      else Blank)"

text \<open>What the loop does with the line.\<close>

fun ini_apply :: "'u ini_handler \<Rightarrow> line_kind \<Rightarrow> 'u ini_state \<Rightarrow> 'u ini_state" where
  "ini_apply h Blank st = st"
| "ini_apply h (Continuation v) st = call_handler h (cstr (prev_name st)) v st"
| "ini_apply h (Header s) st =
     st\<lparr>section_buf := strncpy0 s MAX_SECTION, prev_name := (prev_name st)[0 := NUL]\<rparr>"
| "ini_apply h (Pair n v) st = call_handler h n v (st\<lparr>prev_name := strncpy0 n MAX_NAME\<rparr>)"
| "ini_apply h Malformed st = set_error st"

definition ini_line :: "'u ini_handler \<Rightarrow> string \<Rightarrow> 'u ini_state \<Rightarrow> 'u ini_state" where
  "ini_line h stored st0 =
     (let st = st0\<lparr>lineno := lineno st0 + 1\<rparr>
      in ini_apply h (ini_classify (lineno st = 1) (cstr (prev_name st) \<noteq> []) (cstr stored)) st)"

lemma fgets_line_Nil [simp]: "fgets_line k [] = ([], [])"
  by (cases k) auto

lemma fgets_line_shorter: "0 < k \<Longrightarrow> s \<noteq> [] \<Longrightarrow> length (snd (fgets_line k s)) < length s"
proof (induction k s rule: fgets_line.induct)
  case (3 k c s)
  then show ?case
    by (cases "k = 0 \<or> s = []") (auto split: prod.splits simp: less_SucI gr0_conv_Suc)
qed auto

function ini_loop :: "'u ini_handler \<Rightarrow> string \<Rightarrow> 'u ini_state \<Rightarrow> 'u ini_state" where
  "ini_loop h input st =
     (case fgets INI_MAX_LINE input of
        None \<Rightarrow> st
      | Some (l, rest) \<Rightarrow> ini_loop h rest (ini_line h l st))"
  by pat_completeness auto
termination
proof (relation "measure (\<lambda>(h, input, st). length input)", goal_cases)
  case 1
  show ?case by simp
next
  case (2 h input st r l rest)
  then have "input \<noteq> []" "rest = snd (fgets_line (INI_MAX_LINE - 1) input)"
    by (auto simp: fgets_def split: if_splits)
  then show ?case using fgets_line_shorter [of "INI_MAX_LINE - 1" input] by (simp add: INI_MAX_LINE_def)
qed

declare ini_loop.simps [simp del]

definition ini_init :: "'u \<Rightarrow> 'u ini_state" where
  "ini_init u = \<lparr>section_buf = replicate MAX_SECTION NUL, prev_name = replicate MAX_NAME NUL, lineno = 0, error = 0, user = u\<rparr>"

definition ini_parse_file :: "'u ini_handler \<Rightarrow> string \<Rightarrow> 'u \<Rightarrow> nat \<times> 'u" where
  "ini_parse_file h input u = (let st = ini_loop h input (ini_init u) in (error st, user st))"

text \<open>\<open>ini_parse\<close>: \<open>None\<close> for a file that cannot be opened.\<close>

definition ini_parse :: "'u ini_handler \<Rightarrow> string option \<Rightarrow> 'u \<Rightarrow> int \<times> 'u" where
  "ini_parse h input u =
     (case input of None \<Rightarrow> (-1, u)
      | Some s \<Rightarrow> (let (e, u') = ini_parse_file h s u in (int e, u')))"

section \<open>Facts about the helpers\<close>

lemma length_strncpy [simp]: "length (strncpy src sz) = sz"
  by (simp add: strncpy_def)

lemma length_strncpy0 [simp]: "length (strncpy0 src sz) = sz"
  by (simp add: strncpy0_def)

lemma cstr_append: "cstr (a @ b) = (if NUL \<in> set a then cstr a else a @ cstr b)"
  by (induction a) (auto simp: cstr_def)

lemma cstr_NULs [simp]: "cstr (replicate n NUL) = []"
  by (cases n) (auto simp: cstr_def)

lemma cstr_strncpy0:
  assumes "0 < sz" and "NUL \<notin> set src"
  shows "cstr (strncpy0 src sz) = take (sz - 1) src"
proof (cases "length src < sz")
  case True
  then have "strncpy0 src sz = src @ replicate (sz - length src) NUL"
    by (auto simp: strncpy0_def strncpy_def list_update_append nth_list_update intro!: nth_equalityI)
  with True assms show ?thesis by (simp add: cstr_append)
next
  case False
  then have "strncpy0 src sz = take (sz - 1) src @ [NUL]"
    using assms(1)
    by (auto simp: strncpy0_def strncpy_def nth_append nth_list_update intro!: nth_equalityI)
  moreover have "NUL \<notin> set (take (sz - 1) src)" using assms(2) by (auto dest: in_set_takeD)
  ultimately show ?thesis by simp
qed

lemma lskip_dropWhile: "lskip s = dropWhile isspace s"
  by (induction s) auto

lemma length_lskip_le: "length (lskip s) \<le> length s"
  by (simp add: lskip_dropWhile length_dropWhile_le)

lemma lskip_id: "s = [] \<or> \<not> isspace (hd s) \<Longrightarrow> lskip s = s"
  by (cases s) auto

lemma rstrip_id: "s = [] \<or> \<not> isspace (last s) \<Longrightarrow> rstrip s = s"
  by (cases s rule: rev_cases) (auto simp: rstrip_def)

lemma rstrip_append_space: "\<forall>c \<in> set w. isspace c \<Longrightarrow> rstrip (s @ w) = rstrip s"
  unfolding rstrip_def rev_append by (subst dropWhile_append2) auto

lemma rstrip_Nil [simp]: "rstrip [] = []"
  by (simp add: rstrip_def)

text \<open>Both helpers only cut white space, and what is left does not end, or start, with one.\<close>

lemma rstrip_decomp: "\<exists>w. s = rstrip s @ w \<and> (\<forall>c \<in> set w. isspace c)"
proof -
  have "rev s = takeWhile isspace (rev s) @ dropWhile isspace (rev s)" by simp
  then have "s = rstrip s @ rev (takeWhile isspace (rev s))"
    unfolding rstrip_def by (metis rev_append rev_rev_ident)
  then show ?thesis by (metis set_rev set_takeWhileD)
qed

lemma rstrip_last: "rstrip s \<noteq> [] \<Longrightarrow> \<not> isspace (last (rstrip s))"
  unfolding rstrip_def by (metis hd_dropWhile last_rev rev_is_Nil_conv)

lemma rstrip_idem [simp]: "rstrip (rstrip s) = rstrip s"
  using rstrip_last [of s] by (cases "rstrip s = []") (auto intro: rstrip_id)

lemma lskip_hd: "lskip s \<noteq> [] \<Longrightarrow> \<not> isspace (hd (lskip s))"
  unfolding lskip_dropWhile by (metis hd_dropWhile)

lemma find_from_le: "find_char_or_comment_from w s c \<le> length s"
  by (induction w s c rule: find_char_or_comment_from.induct) auto

lemma find_le: "find_char_or_comment s c \<le> length s"
  by (simp add: find_char_or_comment_def find_from_le)

lemma find_from_first:
  "\<forall>x \<in> set a. Some x \<noteq> c \<and> x \<noteq> CHR '';'' \<Longrightarrow>
   find_char_or_comment_from w (a @ b) c = length a + find_char_or_comment_from
     (if a = [] then w else isspace (last a)) b c"
proof (induction a arbitrary: w)
  case (Cons x a)
  then show ?case by (cases a) auto
qed simp

lemma find_first:
  "\<forall>x \<in> set a. x \<noteq> c \<and> x \<noteq> CHR '';'' \<Longrightarrow> find_char_or_comment (a @ c # b) (Some c) = length a"
  by (simp add: find_char_or_comment_def find_from_first)

lemma find_none: "CHR '';'' \<notin> set s \<Longrightarrow> find_char_or_comment s None = length s"
  using find_from_first [of s None False "[]"] by (auto simp: find_char_or_comment_def)

section \<open>Lines\<close>

text \<open>The pieces the loop sees, in order; a line longer than the buffer is several pieces.\<close>

function ini_lines :: "string \<Rightarrow> string list" where
  "ini_lines input =
     (case fgets INI_MAX_LINE input of None \<Rightarrow> [] | Some (l, rest) \<Rightarrow> l # ini_lines rest)"
  by pat_completeness auto
termination
proof (relation "measure length", goal_cases)
  case 1
  show ?case by simp
next
  case (2 input r l rest)
  then have "input \<noteq> []" "rest = snd (fgets_line (INI_MAX_LINE - 1) input)"
    by (auto simp: fgets_def split: if_splits)
  then show ?case using fgets_line_shorter [of "INI_MAX_LINE - 1" input] by (simp add: INI_MAX_LINE_def)
qed

declare ini_lines.simps [simp del]

lemma ini_loop_fold: "ini_loop h input st = fold (ini_line h) (ini_lines input) st"
proof (induction h input st rule: ini_loop.induct)
  case (1 h input st)
  show ?case
  proof (cases "fgets INI_MAX_LINE input")
    case None
    then show ?thesis by (simp add: ini_loop.simps [of h input] ini_lines.simps [of input])
  next
    case (Some lr)
    with "1.IH" show ?thesis
      by (cases lr) (simp add: ini_loop.simps [of h input] ini_lines.simps [of input])
  qed
qed

lemma fgets_line_append: "fst (fgets_line k s) @ snd (fgets_line k s) = s"
  by (induction k s rule: fgets_line.induct) (auto split: prod.splits)

lemma fgets_line_full:
  "length a = k \<Longrightarrow> CHR 0x0A \<notin> set a \<Longrightarrow> fgets_line k (a @ b) = (a, b)"
  by (induction k arbitrary: a) (auto simp: length_Suc_conv)

lemma fgets_line_newline:
  "length a < k \<Longrightarrow> CHR 0x0A \<notin> set a \<Longrightarrow> fgets_line k (a @ CHR 0x0A # b) = (a @ [CHR 0x0A], b)"
proof (induction k arbitrary: a)
  case (Suc k)
  then show ?case by (cases a) auto
qed simp

lemma ini_lines_Nil [simp]: "ini_lines [] = []"
  by (simp add: ini_lines.simps [of "[]"] fgets_def)

lemma ini_lines_newline:
  "length a < 199 \<Longrightarrow> CHR 0x0A \<notin> set a \<Longrightarrow>
   ini_lines (a @ CHR 0x0A # b) = (a @ [CHR 0x0A]) # ini_lines b"
  by (subst ini_lines.simps) (simp add: fgets_def INI_MAX_LINE_def fgets_line_newline)

lemma ini_lines_long:
  "length a = 199 \<Longrightarrow> CHR 0x0A \<notin> set a \<Longrightarrow> ini_lines (a @ b) = a # ini_lines b"
  by (subst ini_lines.simps) (auto simp: fgets_def INI_MAX_LINE_def fgets_line_full)

text \<open>The lines of a text, each with its newline; when all of them fit the buffer they are the pieces.\<close>

fun text_lines :: "string \<Rightarrow> string list" where
  "text_lines [] = []"
| "text_lines (c # s) =
     (if c = CHR 0x0A then [c] # text_lines s
      else (case text_lines s of [] \<Rightarrow> [[c]] | l # ls \<Rightarrow> (c # l) # ls))"

lemma text_lines_newline: "CHR 0x0A \<notin> set a \<Longrightarrow> text_lines (a @ CHR 0x0A # b) = (a @ [CHR 0x0A]) # text_lines b"
  by (induction a) auto

lemma text_lines_last: "CHR 0x0A \<notin> set a \<Longrightarrow> a \<noteq> [] \<Longrightarrow> text_lines a = [a]"
proof (induction a)
  case (Cons c a)
  then show ?case by (cases "a = []") auto
qed simp

lemma fgets_line_last: "CHR 0x0A \<notin> set a \<Longrightarrow> length a \<le> k \<Longrightarrow> fgets_line k a = (a, [])"
  by (induction k a rule: fgets_line.induct) auto

lemma ini_lines_text:
  "\<forall>l \<in> set (text_lines input). length l < INI_MAX_LINE \<Longrightarrow> ini_lines input = text_lines input"
proof (induction input rule: length_induct)
  case (1 input)
  show ?case
  proof (cases "CHR 0x0A \<in> set input")
    case True
    then obtain a b where s: "input = a @ CHR 0x0A # b" "CHR 0x0A \<notin> set a" by (meson split_list_first)
    then have t: "text_lines input = (a @ [CHR 0x0A]) # text_lines b" by (simp add: text_lines_newline)
    with 1 s(1) have "ini_lines b = text_lines b" by simp
    with t 1(2) s show ?thesis using ini_lines_newline [of a b] by (simp add: INI_MAX_LINE_def)
  next
    case False
    show ?thesis
    proof (cases "input = []")
      case False
      with \<open>CHR 0x0A \<notin> set input\<close> 1(2) show ?thesis
        by (subst ini_lines.simps) (simp add: text_lines_last fgets_def fgets_line_last INI_MAX_LINE_def)
    qed simp
  qed
qed

section \<open>Errors\<close>

text \<open>Which lines fail, said of their text: without white space at both ends a line that is not
  empty and not a comment fails, when it is a continuation (it was indented, or came after the
  byte order mark, and a name came before), if the handler refuses its text for that name; when it
  starts with \<open>[\<close>, if no \<open>]\<close> comes before a comment; and otherwise, if no \<open>=\<close> and no \<open>:\<close> comes
  before a comment, or the handler refuses its name and value. A comment inside a line is a
  \<open>;\<close> after white space.\<close>

fun uncomment :: "bool \<Rightarrow> string \<Rightarrow> string" where
  "uncomment w [] = []"
| "uncomment w (x # s) = (if w \<and> x = CHR '';'' then [] else x # uncomment (isspace x) s)"

definition strip :: "string \<Rightarrow> string" where
  "strip s = dropWhile isspace (rev (dropWhile isspace (rev s)))"

definition separator :: "string \<Rightarrow> char" where
  "separator s = (if CHR ''='' \<in> set (uncomment False s) then CHR ''='' else CHR '':'')"

definition line_fails :: "'u ini_handler \<Rightarrow> bool \<Rightarrow> string \<Rightarrow> string \<Rightarrow> 'u \<Rightarrow> string \<Rightarrow> bool" where
  "line_fails h first sec prev u l =
     (let bom = (first \<and> has_bom l); body = (if bom then drop 3 l else l); s = strip body in
      if s = [] \<or> hd s \<in> {CHR '';'', CHR ''#''} then False
      else if prev \<noteq> [] \<and> (bom \<or> isspace (hd body)) then \<not> snd (h u sec prev s)
      else if hd s = CHR ''['' then CHR '']'' \<notin> set (uncomment False (tl s))
      else if separator s \<notin> set (uncomment False s) then True
      else let name = takeWhile (\<lambda>x. x \<noteq> separator s) s; rest = tl (dropWhile (\<lambda>x. x \<noteq> separator s) s)
        in \<not> snd (h u sec (rstrip name) (rstrip (uncomment False (dropWhile isspace rest)))))"

text \<open>The search of the reader is a search in the line without its comment.\<close>

lemma find_uncomment:
  "c \<noteq> CHR '';'' \<Longrightarrow> find_char_or_comment_from w s (Some c) = length (takeWhile (\<lambda>x. x \<noteq> c) (uncomment w s))"
  "find_char_or_comment_from w s None = length (uncomment w s)"
  by (induction w s rule: uncomment.induct) auto

lemma take_uncomment: "take (length (uncomment w s)) s = uncomment w s"
  by (induction w s rule: uncomment.induct) auto

lemma uncomment_search:
  "c \<noteq> CHR '';'' \<Longrightarrow> k = length (takeWhile (\<lambda>x. x \<noteq> c) (uncomment w s)) \<Longrightarrow>
   (k < length s \<and> s ! k = c \<longleftrightarrow> c \<in> set (uncomment w s)) \<and>
   (c \<in> set (uncomment w s) \<longrightarrow> take k s = takeWhile (\<lambda>x. x \<noteq> c) s \<and> drop k s = dropWhile (\<lambda>x. x \<noteq> c) s)"
  by (induction w s arbitrary: k rule: uncomment.induct) auto

lemma find_search:
  assumes "c \<noteq> CHR '';''" "k = find_char_or_comment s (Some c)"
  shows "k < length s \<and> s ! k = c \<longleftrightarrow> c \<in> set (uncomment False s)"
    and "c \<in> set (uncomment False s) \<Longrightarrow> take k s = takeWhile (\<lambda>x. x \<noteq> c) s"
    and "c \<in> set (uncomment False s) \<Longrightarrow> drop (Suc k) s = tl (dropWhile (\<lambda>x. x \<noteq> c) s)"
proof -
  note k = uncomment_search [OF assms(1), of k False s]
  from k assms show "k < length s \<and> s ! k = c \<longleftrightarrow> c \<in> set (uncomment False s)"
      "c \<in> set (uncomment False s) \<Longrightarrow> take k s = takeWhile (\<lambda>x. x \<noteq> c) s"
    by (simp_all add: find_char_or_comment_def find_uncomment)
  have "drop (Suc k) s = tl (drop k s)" by (simp add: drop_Suc tl_drop)
  with k assms show "c \<in> set (uncomment False s) \<Longrightarrow> drop (Suc k) s = tl (dropWhile (\<lambda>x. x \<noteq> c) s)"
    by (simp add: find_char_or_comment_def find_uncomment)
qed

lemma ini_pair_text:
  assumes "c \<noteq> CHR '';''" "c \<in> set (uncomment False s)"
  shows "ini_pair s (find_char_or_comment s (Some c)) =
    Pair (rstrip (takeWhile (\<lambda>x. x \<noteq> c) s))
      (rstrip (uncomment False (dropWhile isspace (tl (dropWhile (\<lambda>x. x \<noteq> c) s)))))"
  using find_search(2,3) [OF assms(1) refl assms(2)]
  by (simp add: ini_pair_def Let_def lskip_dropWhile find_char_or_comment_def find_uncomment take_uncomment)

text \<open>The separator the reader uses.\<close>

lemma uncomment_stop: "length (uncomment w s) < length s \<Longrightarrow> s ! length (uncomment w s) = CHR '';''"
  by (induction w s rule: uncomment.induct) (auto split: if_splits)

lemma length_takeWhile_notin: "c \<notin> set xs \<Longrightarrow> length (takeWhile (\<lambda>x. x \<noteq> c) xs) = length xs"
  by (induction xs) auto

lemma separator_found:
  assumes "e = find_char_or_comment s (Some CHR ''='')"
    and "i = (if e < length s \<and> s ! e = CHR ''='' then e else find_char_or_comment s (Some CHR '':''))"
  shows "i < length s \<and> (s ! i = CHR ''='' \<or> s ! i = CHR '':'') \<longleftrightarrow> separator s \<in> set (uncomment False s)"
    and "separator s \<in> set (uncomment False s) \<Longrightarrow> i = find_char_or_comment s (Some (separator s))"
proof -
  note eq = find_search(1) [of "CHR ''=''", OF _ assms(1)] and col = find_search(1) [of "CHR '':''", OF _ refl, of s]
  have "s ! i \<noteq> CHR ''=''" if "CHR ''='' \<notin> set (uncomment False s)" "CHR '':'' \<notin> set (uncomment False s)" "i < length s"
  proof -
    have "find_char_or_comment s (Some CHR ''='') = length (uncomment False s)"
        "find_char_or_comment s (Some CHR '':'') = length (uncomment False s)"
      using that(1,2) by (simp_all add: find_char_or_comment_def find_uncomment length_takeWhile_notin)
    then have "i = length (uncomment False s)" using assms by simp
    with that(3) uncomment_stop [of False s] show ?thesis by simp
  qed
  then show "i < length s \<and> (s ! i = CHR ''='' \<or> s ! i = CHR '':'') \<longleftrightarrow> separator s \<in> set (uncomment False s)"
    using eq col assms(2) by (auto simp: separator_def)
  show "separator s \<in> set (uncomment False s) \<Longrightarrow> i = find_char_or_comment s (Some (separator s))"
    using eq assms by (auto simp: separator_def)
qed

lemma separator_not_comment: "separator s \<noteq> CHR '';''"
  by (simp add: separator_def)

text \<open>A line fails when the reader notes an error of its own for it.\<close>

definition line_bad :: "'u ini_handler \<Rightarrow> string \<Rightarrow> 'u ini_state \<Rightarrow> bool" where
  "line_bad h l st \<longleftrightarrow> error (ini_line h l (st\<lparr>error := 0\<rparr>)) \<noteq> 0"

lemma ini_apply_error:
  "0 < lineno st \<Longrightarrow> ini_apply h k (st\<lparr>error := e\<rparr>) = (ini_apply h k (st\<lparr>error := 0\<rparr>))
     \<lparr>error := (if e = 0 \<and> error (ini_apply h k (st\<lparr>error := 0\<rparr>)) \<noteq> 0 then lineno st else e)\<rparr>"
  by (cases k) (simp_all add: call_handler_def set_error_def split: prod.split)

lemma ini_line_error:
  "ini_line h l (st\<lparr>error := e\<rparr>) = (ini_line h l (st\<lparr>error := 0\<rparr>))
     \<lparr>error := (if e = 0 \<and> line_bad h l st then lineno st + 1 else e)\<rparr>"
proof -
  have swap: "(st\<lparr>error := e\<rparr>)\<lparr>lineno := n\<rparr> = (st\<lparr>lineno := n\<rparr>)\<lparr>error := e\<rparr>" for e n by simp
  show ?thesis
    using ini_apply_error [of "st\<lparr>lineno := lineno st + 1\<rparr>" h _ e]
    by (simp add: line_bad_def ini_line_def Let_def swap)
qed

lemma lineno_ini_line [simp]: "lineno (ini_line h l st) = lineno st + 1"
proof -
  have "lineno (ini_apply h k st) = lineno st" for k and st :: "'a ini_state"
    by (cases k) (simp_all add: call_handler_def set_error_def split: prod.split)
  then show ?thesis by (simp add: ini_line_def Let_def)
qed

text \<open>The state before line \<open>k\<close> (counted from 0), and whether that line fails.\<close>

definition state_at :: "'u ini_handler \<Rightarrow> string \<Rightarrow> 'u \<Rightarrow> nat \<Rightarrow> 'u ini_state" where
  "state_at h input u k = fold (ini_line h) (take k (ini_lines input)) (ini_init u)"

definition fails_at :: "'u ini_handler \<Rightarrow> string \<Rightarrow> 'u \<Rightarrow> nat \<Rightarrow> bool" where
  "fails_at h input u k \<longleftrightarrow> (let st = state_at h input u k in
     line_fails h (k = 0) (cstr (section_buf st)) (cstr (prev_name st)) (user st) (cstr (ini_lines input ! k)))"

lemma stripped_hd: "lskip (rstrip s) \<noteq> [] \<Longrightarrow> length (lskip (rstrip s)) < length (rstrip s) \<longleftrightarrow> isspace (hd s)"
proof -
  assume ne: "lskip (rstrip s) \<noteq> []"
  then have "rstrip s \<noteq> []" by auto
  moreover obtain w where "s = rstrip s @ w" using rstrip_decomp by blast
  ultimately have hd: "hd (rstrip s) = hd s" by (metis hd_append2)
  with \<open>rstrip s \<noteq> []\<close> show ?thesis
    by (cases "rstrip s") (auto simp: less_Suc_eq_le length_lskip_le)
qed

lemma if_moved:
  "(s \<noteq> [] \<Longrightarrow> m = m') \<Longrightarrow> (if a then b else if p \<and> s \<noteq> [] \<and> m then c else d) =
    (if a then b else if p \<and> s \<noteq> [] \<and> m' then c else d)"
  by auto

lemma line_bad_text:
  "line_bad h l st \<longleftrightarrow> line_fails h (lineno st = 0) (cstr (section_buf st)) (cstr (prev_name st)) (user st) (cstr l)"
proof -
  define bom where "bom = (lineno st = 0 \<and> has_bom (cstr l))"
  define body where "body = (if bom then drop 3 (cstr l) else cstr l)"
  define s where "s = lskip (rstrip body)"
  have s: "strip body = s" by (simp add: s_def strip_def lskip_dropWhile rstrip_def)
  have moved: "(bom \<or> length s < length (rstrip body)) \<longleftrightarrow> (bom \<or> isspace (hd body))" if "s \<noteq> []"
    using stripped_hd [of body] that by (simp add: s_def)
  have err: "error (ini_apply h k (st\<lparr>error := 0, lineno := lineno st + 1\<rparr>)) \<noteq> 0 \<longleftrightarrow> (case k of
      Malformed \<Rightarrow> True
    | Continuation v \<Rightarrow> \<not> snd (h (user st) (cstr (section_buf st)) (cstr (prev_name st)) v)
    | Pair n v \<Rightarrow> \<not> snd (h (user st) (cstr (section_buf st)) n v)
    | _ \<Rightarrow> False)" for k
    by (cases k) (simp_all add: call_handler_def set_error_def split: prod.split)
  have bad: "line_bad h l st \<longleftrightarrow> error (ini_apply h (ini_classify (lineno st = 0) (cstr (prev_name st) \<noteq> []) (cstr l))
      (st\<lparr>error := 0, lineno := lineno st + 1\<rparr>)) \<noteq> 0"
    by (simp add: line_bad_def ini_line_def Let_def)
  define e where "e = find_char_or_comment s (Some CHR ''='')"
  define i where "i = (if e < length s \<and> s ! e = CHR ''='' then e else find_char_or_comment s (Some CHR '':''))"
  note sep = separator_found [OF e_def i_def]
  have pair_case: "(case if i < length s \<and> (s ! i = CHR ''='' \<or> s ! i = CHR '':'') then ini_pair s i else Malformed of
      Malformed \<Rightarrow> True
    | Continuation v \<Rightarrow> \<not> snd (h (user st) (cstr (section_buf st)) (cstr (prev_name st)) v)
    | Pair n v \<Rightarrow> \<not> snd (h (user st) (cstr (section_buf st)) n v)
    | _ \<Rightarrow> False) \<longleftrightarrow> (separator s \<in> set (uncomment False s) \<longrightarrow>
      \<not> snd (h (user st) (cstr (section_buf st)) (rstrip (takeWhile (\<lambda>x. x \<noteq> separator s) s))
        (rstrip (uncomment False (dropWhile isspace (tl (dropWhile (\<lambda>x. x \<noteq> separator s) s)))))))"
    unfolding sep(1) using sep(2) ini_pair_text [OF separator_not_comment] by simp
  have cl: "find_char_or_comment (tl s) (Some CHR '']'') < length (tl s) \<and>
      tl s ! find_char_or_comment (tl s) (Some CHR '']'') = CHR '']'' \<longleftrightarrow> CHR '']'' \<in> set (uncomment False (tl s))"
    by (rule find_search(1) [OF _ refl]) simp
  have classify: "ini_classify (lineno st = 0) (cstr (prev_name st) \<noteq> []) (cstr l) =
      (if s \<noteq> [] \<and> (hd s = CHR '';'' \<or> hd s = CHR ''#'') then Blank
       else if cstr (prev_name st) \<noteq> [] \<and> s \<noteq> [] \<and> (bom \<or> isspace (hd body)) then Continuation s
       else if s \<noteq> [] \<and> hd s = CHR ''['' then
         (let k = find_char_or_comment (tl s) (Some (CHR '']'')) in
          if CHR '']'' \<in> set (uncomment False (tl s)) then Header (take k (tl s)) else Malformed)
       else if s \<noteq> [] then
         (if i < length s \<and> (s ! i = CHR ''='' \<or> s ! i = CHR '':'') then ini_pair s i else Malformed)
       else Blank)"
    unfolding ini_classify_def Let_def bom_def [symmetric] body_def [symmetric] s_def [symmetric]
      e_def [symmetric] i_def [symmetric] cl
    using moved by (rule if_moved)
  consider (blank) "s = [] \<or> hd s \<in> {CHR '';'', CHR ''#''}"
    | (cont) "\<not> (s = [] \<or> hd s \<in> {CHR '';'', CHR ''#''})" "cstr (prev_name st) \<noteq> [] \<and> (bom \<or> isspace (hd body))"
    | (header) "\<not> (s = [] \<or> hd s \<in> {CHR '';'', CHR ''#''})" "\<not> (cstr (prev_name st) \<noteq> [] \<and> (bom \<or> isspace (hd body)))" "hd s = CHR ''[''"
    | (pair) "\<not> (s = [] \<or> hd s \<in> {CHR '';'', CHR ''#''})" "\<not> (cstr (prev_name st) \<noteq> [] \<and> (bom \<or> isspace (hd body)))" "hd s \<noteq> CHR ''[''"
    by blast
  then show ?thesis
  proof cases
    case blank
    then have "ini_classify (lineno st = 0) (cstr (prev_name st) \<noteq> []) (cstr l) = Blank" unfolding classify by auto
    then show ?thesis using blank
      unfolding bad err line_fails_def Let_def bom_def [symmetric] body_def [symmetric] s by simp
  next
    case cont
    then have "ini_classify (lineno st = 0) (cstr (prev_name st) \<noteq> []) (cstr l) = Continuation s" unfolding classify by simp
    then show ?thesis using cont
      unfolding bad err line_fails_def Let_def bom_def [symmetric] body_def [symmetric] s by simp
  next
    case header
    then have "ini_classify (lineno st = 0) (cstr (prev_name st) \<noteq> []) (cstr l) =
        (if CHR '']'' \<in> set (uncomment False (tl s))
         then Header (take (find_char_or_comment (tl s) (Some (CHR '']''))) (tl s)) else Malformed)"
      unfolding classify by (auto simp: Let_def)
    then show ?thesis using header
      unfolding bad err line_fails_def Let_def bom_def [symmetric] body_def [symmetric] s by (auto split: if_splits)
  next
    case pair
    then have "ini_classify (lineno st = 0) (cstr (prev_name st) \<noteq> []) (cstr l) =
        (if i < length s \<and> (s ! i = CHR ''='' \<or> s ! i = CHR '':'') then ini_pair s i else Malformed)"
      unfolding classify by auto
    then show ?thesis using sep(1) pair_case
      unfolding bad err line_fails_def Let_def bom_def [symmetric] body_def [symmetric] s
        if_not_P [OF pair(1)] if_not_P [OF pair(2)] if_not_P [OF pair(3)] by simp
  qed
qed

lemma state_at_Suc:
  "k < length (ini_lines input) \<Longrightarrow>
   state_at h input u (Suc k) = ini_line h (ini_lines input ! k) (state_at h input u k)"
  by (simp add: state_at_def take_Suc_conv_app_nth)

lemma lineno_state_at: "k \<le> length (ini_lines input) \<Longrightarrow> lineno (state_at h input u k) = k"
  by (induction k) (auto simp: state_at_Suc, simp add: state_at_def ini_init_def)

lemma error_state_at:
  "k \<le> length (ini_lines input) \<Longrightarrow>
   (error (state_at h input u k) = 0 \<longleftrightarrow> (\<forall>j < k. \<not> fails_at h input u j)) \<and>
   (\<forall>i. error (state_at h input u k) = Suc i \<longrightarrow>
      i < k \<and> fails_at h input u i \<and> (\<forall>j < i. \<not> fails_at h input u j))"
proof (induction k)
  case 0
  show ?case by (simp add: state_at_def ini_init_def)
next
  case (Suc k)
  let ?st = "state_at h input u k"
  have "error (state_at h input u (Suc k)) =
      (if error ?st = 0 \<and> fails_at h input u k then Suc k else error ?st)"
    using Suc.prems ini_line_error [of h "ini_lines input ! k" "error ?st" ?st]
    by (simp add: state_at_Suc fails_at_def line_bad_text lineno_state_at Let_def)
  with Suc show ?case by (auto simp: less_Suc_eq)
qed

lemma ini_parse_file_state:
  "ini_parse_file h input u =
    (error (state_at h input u (length (ini_lines input))), user (state_at h input u (length (ini_lines input))))"
  by (simp add: ini_parse_file_def Let_def state_at_def ini_loop_fold)

section \<open>What the handler is called with\<close>

text \<open>Every string the reader cuts out of a line is a part of it.\<close>

definition part :: "string \<Rightarrow> string \<Rightarrow> bool" where
  "part x s \<longleftrightarrow> set x \<subseteq> set s \<and> length x \<le> length s"

lemma part_refl [simp]: "part s s"
  by (simp add: part_def)

lemma part_trans: "part x y \<Longrightarrow> part y z \<Longrightarrow> part x z"
  by (auto simp: part_def)

lemma part_take: "part (take k s) s"
  by (simp add: part_def set_take_subset)

lemma part_drop: "part (drop k s) s"
  by (simp add: part_def set_drop_subset)

lemma part_tl: "part (tl s) s"
  by (cases s) (auto simp: part_def)

lemma part_lskip: "part (lskip s) s"
  by (induction s) (auto simp: part_def)

lemma part_rstrip: "part (rstrip s) s"
  using rstrip_decomp [of s] unfolding part_def by (metis length_append le_add1 set_append sup_ge1)

lemma part_cstr: "part (cstr s) s"
  unfolding part_def cstr_def by (auto simp: length_takeWhile_le dest: set_takeWhileD)

lemmas part_intros = part_refl part_trans [OF part_take] part_trans [OF part_drop]
  part_trans [OF part_tl] part_trans [OF part_lskip] part_trans [OF part_rstrip]

fun kind_part :: "line_kind \<Rightarrow> string \<Rightarrow> bool" where
  "kind_part (Continuation v) l \<longleftrightarrow> part v l"
| "kind_part (Header s) l \<longleftrightarrow> part s l"
| "kind_part (Pair n v) l \<longleftrightarrow> part n l \<and> part v l"
| "kind_part k l \<longleftrightarrow> True"

lemma ini_pair_part: "part s l \<Longrightarrow> kind_part (ini_pair s i) l"
  unfolding ini_pair_def Let_def kind_part.simps by (intro conjI part_intros)

lemma ini_classify_part: "kind_part (ini_classify first has_prev l) l"
proof -
  define line where "line = (if first \<and> has_bom l then drop 3 l else l)"
  define start where "start = lskip (rstrip line)"
  have "part line l" unfolding line_def by (simp add: part_drop)
  then have start: "part start l"
    unfolding start_def by (rule part_trans [OF part_lskip, OF part_trans [OF part_rstrip]])
  then have "part (take i (tl start)) l" for i by (intro part_intros)
  with start show ?thesis
    unfolding ini_classify_def Let_def line_def [symmetric] start_def [symmetric]
    by (simp add: ini_pair_part)
qed

definition ini_text :: "string \<Rightarrow> bool" where
  "ini_text s \<longleftrightarrow> NUL \<notin> set s \<and> length s < INI_MAX_LINE"

lemma ini_text_part: "part x s \<Longrightarrow> ini_text s \<Longrightarrow> ini_text x"
  by (auto simp: ini_text_def part_def)

lemma length_cstr_less: "NUL \<in> set b \<Longrightarrow> length (cstr b) < length b"
  by (induction b) (auto simp: cstr_def)

lemma fgets_line_length: "length (fst (fgets_line k s)) \<le> k"
  by (induction k s rule: fgets_line.induct) (auto split: prod.splits)

lemma ini_lines_length: "l \<in> set (ini_lines input) \<Longrightarrow> length l < INI_MAX_LINE"
proof (induction input rule: ini_lines.induct)
  case (1 input)
  show ?case
  proof (cases "input = []")
    case False
    then obtain l' rest where f: "fgets INI_MAX_LINE input = Some (l', rest)"
      by (auto simp: fgets_def intro: prod.exhaust)
    then have "length l' \<le> INI_MAX_LINE - 1" using fgets_line_length [of "INI_MAX_LINE - 1" input]
      by (simp add: fgets_def split: if_splits)
    then have "length l' < INI_MAX_LINE" by (simp add: INI_MAX_LINE_def)
    with f "1.prems" "1.IH" [OF f refl] show ?thesis by (auto simp: ini_lines.simps [of input])
  qed (use "1.prems" in simp)
qed

text \<open>A client of the reader states what its handler keeps; every file then keeps it. The reader
  promises that the strings it passes have an end and fit its line buffer, and that the
  section fits its own.\<close>

locale ini_client =
  fixes handler :: "'u ini_handler" and inv :: "'u \<Rightarrow> bool"
  assumes handler_inv: "inv u \<Longrightarrow> ini_text sec \<Longrightarrow> length sec < MAX_SECTION \<Longrightarrow>
    ini_text n \<Longrightarrow> ini_text v \<Longrightarrow> inv (fst (handler u sec n v))"
begin

definition st_inv :: "'u ini_state \<Rightarrow> bool" where
  "st_inv st \<longleftrightarrow> length (section_buf st) = MAX_SECTION \<and> NUL \<in> set (section_buf st) \<and>
     length (prev_name st) = MAX_NAME \<and> inv (user st)"

lemma call_handler_inv:
  assumes "st_inv st" "ini_text n" "ini_text v"
  shows "st_inv (call_handler handler n v st)"
proof -
  have "length (cstr (section_buf st)) < MAX_SECTION"
    using assms(1) length_cstr_less [of "section_buf st"] by (simp add: st_inv_def)
  moreover from this have "ini_text (cstr (section_buf st))"
    by (simp add: ini_text_def MAX_SECTION_def INI_MAX_LINE_def)
  ultimately have "inv (fst (handler (user st) (cstr (section_buf st)) n v))"
    using assms by (intro handler_inv) (simp_all add: st_inv_def)
  with assms(1) show ?thesis
    by (simp add: st_inv_def call_handler_def Let_def case_prod_beta)
qed

lemma NUL_in_strncpy0: "NUL \<in> set (strncpy0 s MAX_SECTION)"
  unfolding strncpy0_def MAX_SECTION_def by (rule set_update_memI) simp

lemma ini_apply_inv:
  assumes "st_inv st" "kind_part k l" "ini_text l"
  shows "st_inv (ini_apply handler k st)"
proof (cases k)
  case (Continuation v)
  have "ini_text (cstr (prev_name st))"
    using assms(1) length_cstr_le [of "prev_name st"]
    by (simp add: ini_text_def st_inv_def MAX_NAME_def INI_MAX_LINE_def)
  moreover have "ini_text v" using Continuation assms by (auto intro: ini_text_part)
  ultimately show ?thesis using Continuation assms(1) by (simp add: call_handler_inv)
next
  case (Pair n v)
  have "st_inv (st\<lparr>prev_name := strncpy0 n MAX_NAME\<rparr>)" using assms(1) by (simp add: st_inv_def)
  moreover have "ini_text n" "ini_text v" using Pair assms by (auto intro: ini_text_part)
  ultimately show ?thesis using Pair by (simp add: call_handler_inv)
qed (use assms(1) in \<open>simp_all add: st_inv_def set_error_def NUL_in_strncpy0\<close>)

lemma ini_line_inv: "st_inv st \<Longrightarrow> length l < INI_MAX_LINE \<Longrightarrow> st_inv (ini_line handler l st)"
  unfolding ini_line_def Let_def
  using length_cstr_le [of l]
  by (intro ini_apply_inv [OF _ ini_classify_part]) (simp_all add: st_inv_def ini_text_def)

lemma ini_fold_inv:
  "st_inv st \<Longrightarrow> \<forall>l \<in> set ls. length l < INI_MAX_LINE \<Longrightarrow> st_inv (fold (ini_line handler) ls st)"
  by (induction ls arbitrary: st) (simp_all add: ini_line_inv)

lemma ini_parse_file_inv:
  assumes "inv u"
  shows "inv (snd (ini_parse_file handler input u))"
proof -
  have "st_inv (ini_init u)" using assms by (simp add: st_inv_def ini_init_def MAX_SECTION_def MAX_NAME_def)
  then have "st_inv (fold (ini_line handler) (ini_lines input) (ini_init u))"
    by (rule ini_fold_inv) (simp add: ini_lines_length)
  then show ?thesis by (simp add: ini_parse_file_def Let_def ini_loop_fold st_inv_def)
qed

lemma ini_parse_inv: "inv u \<Longrightarrow> inv (snd (ini_parse handler input u))"
  using ini_parse_file_inv [of u] by (cases input) (simp_all add: ini_parse_def case_prod_beta)

end

section \<open>Configuration files as lists of items\<close>

datatype ini_item = Section string | Entry string string

fun print_item :: "ini_item \<Rightarrow> string" where
  "print_item (Section s) = CHR ''['' # s @ [CHR '']'', CHR 0x0A]"
| "print_item (Entry n v) = n @ CHR '' '' # CHR ''='' # CHR '' '' # v @ [CHR 0x0A]"

definition print_ini :: "ini_item list \<Rightarrow> string" where
  "print_ini is = concat (map print_item is)"

text \<open>Items whose text has no byte that the format gives a meaning to.\<close>

fun clean_item :: "ini_item \<Rightarrow> bool" where
  "clean_item (Section s) \<longleftrightarrow> length s < MAX_SECTION \<and>
     (\<forall>c \<in> set s. c \<notin> {CHR '']'', CHR '';'', CHR 0x0A, NUL})"
| "clean_item (Entry n v) \<longleftrightarrow> length n + length v < 196 \<and> n \<noteq> [] \<and>
     \<not> isspace (hd n) \<and> \<not> isspace (last n) \<and> hd n \<notin> {CHR ''['', CHR ''#'', CHR 0xEF} \<and>
     (\<forall>c \<in> set n. c \<notin> {CHR ''='', CHR '';'', CHR 0x0A, NUL}) \<and>
     (v = [] \<or> \<not> isspace (hd v) \<and> \<not> isspace (last v)) \<and>
     (\<forall>c \<in> set v. c \<notin> {CHR '';'', CHR 0x0A, NUL})"

text \<open>What such a file means: the handler sees every entry with the section in force, and the
  error is the line of the first entry it refuses.\<close>

fun ini_sem :: "'u ini_handler \<Rightarrow> ini_item list \<Rightarrow> string \<Rightarrow> nat \<Rightarrow> nat \<Rightarrow> 'u \<Rightarrow> nat \<times> 'u" where
  "ini_sem h [] sec line err u = (err, u)"
| "ini_sem h (Section s # is) sec line err u = ini_sem h is s (line + 1) err u"
| "ini_sem h (Entry n v # is) sec line err u =
     (let (u', ok) = h u sec n v
      in ini_sem h is sec (line + 1) (if \<not> ok \<and> err = 0 then line + 1 else err) u')"

lemma isspace_simps [simp]:
  "isspace CHR '' ''" "isspace CHR 0x0A" "\<not> isspace CHR ''=''" "\<not> isspace CHR ''[''" "\<not> isspace CHR '']''"
  by (simp_all add: isspace_def)

lemma ini_lines_item:
  "clean_item it \<Longrightarrow> ini_lines (print_item it @ rest) = print_item it # ini_lines rest"
proof (cases it)
  case (Section s)
  moreover assume "clean_item it"
  ultimately show ?thesis
    using ini_lines_newline [of "CHR ''['' # s @ [CHR '']'']" rest] by (auto simp: MAX_SECTION_def)
next
  case (Entry n v)
  moreover assume "clean_item it"
  ultimately show ?thesis
    using ini_lines_newline [of "n @ CHR '' '' # CHR ''='' # CHR '' '' # v" rest] by auto
qed

lemma NUL_notin_print_item: "clean_item it \<Longrightarrow> NUL \<notin> set (print_item it)"
  by (cases it) (simp_all, blast+)

lemma cstr_print_item: "clean_item it \<Longrightarrow> cstr (print_item it) = print_item it"
  by (rule cstr_id) (rule NUL_notin_print_item)

lemma no_bom_hd: "hd l \<noteq> CHR 0xEF \<Longrightarrow> \<not> has_bom l"
  by (cases l) (simp_all add: has_bom_def split: list.splits)

lemma classify_section:
  assumes "clean_item (Section s)"
  shows "ini_classify first has_prev (print_item (Section s)) = Header s"
proof -
  have "rstrip (CHR ''['' # s @ [CHR '']'', CHR 0x0A]) = CHR ''['' # s @ [CHR '']'']"
    using rstrip_append_space [of "[CHR 0x0A]" "CHR ''['' # s @ [CHR '']'']"]
      rstrip_id [of "CHR ''['' # s @ [CHR '']'']"] by simp
  moreover have "find_char_or_comment (s @ [CHR '']'']) (Some CHR '']'') = length s"
    using assms by (intro find_first) auto
  moreover have "\<not> has_bom (CHR ''['' # s @ [CHR '']'', CHR 0x0A])"
    by (rule no_bom_hd) simp
  ultimately show ?thesis by (simp add: ini_classify_def)
qed

lemma rstrip_entry:
  assumes "v = [] \<or> \<not> isspace (last v)"
  shows "rstrip (n @ CHR '' '' # CHR ''='' # CHR '' '' # v @ [CHR 0x0A]) =
    n @ CHR '' '' # CHR ''='' # (if v = [] then [] else CHR '' '' # v)"
proof (cases "v = []")
  case True
  then show ?thesis
    using rstrip_append_space [of "[CHR '' '', CHR 0x0A]" "n @ [CHR '' '', CHR ''='']"]
      rstrip_id [of "n @ [CHR '' '', CHR ''='']"] by simp
next
  case False
  then show ?thesis
    using rstrip_append_space [of "[CHR 0x0A]" "n @ CHR '' '' # CHR ''='' # CHR '' '' # v"]
      rstrip_id [of "n @ CHR '' '' # CHR ''='' # CHR '' '' # v"] assms by simp
qed

lemma classify_entry:
  assumes cl: "clean_item (Entry n v)"
  shows "ini_classify first has_prev (print_item (Entry n v)) = Pair n v"
proof -
  define tail where "tail = (if v = [] then [] else CHR '' '' # v)"
  define start where "start = n @ CHR '' '' # CHR ''='' # tail"
  have n: "n \<noteq> []" "hd n \<noteq> CHR '';''" "hd n \<noteq> CHR ''#''" "hd n \<noteq> CHR ''[''" using cl by auto
  have str: "rstrip (print_item (Entry n v)) = start"
    unfolding print_item.simps start_def tail_def by (rule rstrip_entry) (use cl in \<open>simp, blast\<close>)
  have bom: "\<not> has_bom (print_item (Entry n v))"
    using cl by (intro no_bom_hd) simp
  have skip: "lskip start = start" using cl by (intro lskip_id) (simp add: start_def)
  have e: "find_char_or_comment start (Some CHR ''='') = length n + 1"
    using find_first [of "n @ [CHR '' '']" "CHR ''=''" tail] cl by (auto simp: start_def)
  have at: "start ! (length n + 1) = CHR ''=''" "length n + 1 < length start"
    by (simp_all add: nth_append start_def)
  have hd: "start \<noteq> []" "hd start = hd n" using n by (auto simp: start_def)
  have last: "\<not> isspace (last n)" using cl by simp
  have v: "v = [] \<or> \<not> isspace (hd v)" "v = [] \<or> \<not> isspace (last v)"
    using cl unfolding clean_item.simps by blast+
  have "rstrip (n @ [CHR '' '']) = n"
    using last rstrip_append_space [of "[CHR '' '']" n] by (simp add: rstrip_id)
  moreover have "lskip tail = v" using v(1) by (auto simp: lskip_id tail_def)
  moreover have "find_char_or_comment v None = length v" using cl by (intro find_none) auto
  moreover have "rstrip v = v" using v(2) by (rule rstrip_id)
  ultimately have "ini_pair start (length n + 1) = Pair n v"
    by (simp add: ini_pair_def Let_def start_def)
  then show ?thesis
    unfolding ini_classify_def Let_def using n str bom skip e at hd by simp
qed

lemma ini_line_section:
  assumes "clean_item (Section s)"
  shows "ini_line h (print_item (Section s)) st = st\<lparr>lineno := lineno st + 1,
    section_buf := strncpy0 s MAX_SECTION, prev_name := (prev_name st)[0 := NUL]\<rparr>"
  using assms by (simp only: ini_line_def Let_def cstr_print_item classify_section) simp

lemma ini_line_entry:
  assumes "clean_item (Entry n v)"
  shows "ini_line h (print_item (Entry n v)) st =
    call_handler h n v (st\<lparr>lineno := lineno st + 1, prev_name := strncpy0 n MAX_NAME\<rparr>)"
  using assms by (simp only: ini_line_def Let_def cstr_print_item classify_entry) simp

lemma ini_loop_items:
  "list_all clean_item is \<Longrightarrow> cstr (section_buf st) = sec \<Longrightarrow>
   (error (ini_loop h (print_ini is) st), user (ini_loop h (print_ini is) st)) =
     ini_sem h is sec (lineno st) (error st) (user st)"
proof (induction "is" arbitrary: st sec)
  case Nil
  then show ?case by (simp add: print_ini_def ini_loop_fold)
next
  case (Cons it "is")
  have step: "ini_loop h (print_ini (it # is)) st = ini_loop h (print_ini is) (ini_line h (print_item it) st)"
    using Cons.prems by (simp add: ini_loop_fold print_ini_def ini_lines_item)
  have cl: "clean_item it" "list_all clean_item is" using Cons.prems by simp_all
  show ?case
  proof (cases it)
    case (Section s)
    then have "cstr (strncpy0 s MAX_SECTION) = s"
      using Cons.prems by (subst cstr_strncpy0) (auto simp: MAX_SECTION_def)
    with cl Section show ?thesis
      unfolding step by (subst Cons.IH [where sec = s]) (simp_all only: ini_line_section, simp_all)
  next
    case (Entry n v)
    with cl Cons.prems(2) show ?thesis
      unfolding step
      by (subst Cons.IH [where sec = sec]) (simp_all only: ini_line_entry, simp_all add: call_handler_def split: prod.split)
  qed
qed

lemma ini_parse_print_items:
  "list_all clean_item is \<Longrightarrow> ini_parse_file h (print_ini is) u = ini_sem h is [] 0 0 u"
  using ini_loop_items [of "is" "ini_init u" "[]" h]
  by (simp add: ini_parse_file_def Let_def) (simp add: ini_init_def)

lemma rstrip_comment: "rstrip (CHR '';'' # c) = CHR '';'' # rstrip c"
proof (cases "\<forall>x \<in> set c. isspace x")
  case True
  then show ?thesis
    using rstrip_append_space [of c "[CHR '';'']"] rstrip_append_space [of c "[]"]
    by (simp add: rstrip_id isspace_def)
next
  case False
  then show ?thesis unfolding rstrip_def by (simp add: dropWhile_append) 
qed

lemma ini_classify_comment: "ini_classify False has_prev (CHR '';'' # c) = Blank"
  by (simp add: ini_classify_def rstrip_comment isspace_def)

section \<open>Properties\<close>

text \<open>C26. The number the reader returns is 0 exactly when no line fails, and otherwise the
  number, from 1, of the first line that fails: a header without \<open>]\<close>, a line without a
  separator, or a pair or continuation the handler refuses; the lines after it are read all
  the same. The lines are those of the file when each fits the line buffer with its newline; a
  longer one counts as several.\<close>

theorem ini_parse_file_first_error:
  "let (e, u') = ini_parse_file h input u; n = length (ini_lines input) in
     (e = 0 \<longleftrightarrow> (\<forall>k < n. \<not> fails_at h input u k)) \<and>
     (e \<noteq> 0 \<longrightarrow> e \<le> n \<and> fails_at h input u (e - 1) \<and> (\<forall>j < e - 1. \<not> fails_at h input u j)) \<and>
     u' = user (state_at h input u n) \<and>
     ((\<forall>l \<in> set (text_lines input). length l < INI_MAX_LINE) \<longrightarrow> ini_lines input = text_lines input)"
  using error_state_at [of "length (ini_lines input)" input h u]
  by (cases "error (state_at h input u (length (ini_lines input)))")
     (auto simp: ini_parse_file_state Let_def ini_lines_text)

theorem ini_parse_file_first_error_witness:
  "\<exists>u'. ini_parse_file (\<lambda>u s n v. (u, True)) (''[a]'' @ [CHR 0x0A] @ ''b ;=c'') () = (2, u')"
proof -
  let ?h = "(\<lambda>u s n v. (u, True)) :: unit ini_handler"
  let ?f = "''[a]'' @ [CHR 0x0A] @ ''b ;=c''"
  have t: "text_lines ?f = [''[a]'' @ [CHR 0x0A], ''b ;=c'']" by simp
  note run = ini_parse_file_first_error [of ?h ?f "()"]
  from run t have ls: "ini_lines ?f = [''[a]'' @ [CHR 0x0A], ''b ;=c'']"
    by (simp add: case_prod_beta Let_def INI_MAX_LINE_def)
  have "fails_at ?h ?f () 1"
    unfolding fails_at_def line_fails_def ls
    by (simp add: has_bom_def strip_def isspace_def separator_def Let_def cstr_def)
  moreover have "\<not> fails_at ?h ?f () 0"
    unfolding fails_at_def line_fails_def ls
    by (simp add: has_bom_def strip_def isspace_def separator_def Let_def cstr_def state_at_def ini_init_def)
  moreover define e where "e = fst (ini_parse_file ?h ?f ())"
  moreover have "(e = 0 \<longleftrightarrow> (\<forall>k < 2. \<not> fails_at ?h ?f () k)) \<and> (e \<noteq> 0 \<longrightarrow> e \<le> 2 \<and> fails_at ?h ?f () (e - 1))"
    using run unfolding ls e_def by (auto simp: case_prod_beta Let_def numeral_2_eq_2)
  ultimately have "e \<noteq> 0" "e \<noteq> 1" "e \<le> 2" by auto
  then have "e = 2" by simp
  then show ?thesis unfolding e_def by (metis prod.collapse)
qed

text \<open>C18. Reading undoes printing: from a file printed from clean items the handler gets
  exactly the entries, in order, each with the section in force, and the result is the line
  of the first entry it refused.\<close>

theorem ini_parse_print_ini:
  "list_all clean_item is \<Longrightarrow> ini_parse_file h (print_ini is) u = ini_sem h is [] 0 0 u"
  by (rule ini_parse_print_items)

theorem ini_parse_print_ini_witness:
  "ini_parse_file (\<lambda>u s n v. (u @ [(s, n, v)], True)) (print_ini [Section ''a'', Entry ''b'' ''c d'']) [] =
     (0, [(''a'', ''b'', ''c d'')])"
  using ini_parse_print_ini [of "[Section ''a'', Entry ''b'' ''c d'']"
      "\<lambda>u s n v. (u @ [(s, n, v)], True)" "[]"]
  by (simp add: MAX_SECTION_def isspace_def)

text \<open>A comment line longer than the line buffer is not skipped as a whole: the reader
  stops after 199 bytes and takes the bytes that follow for a line of their own, with
  whatever entries they hold.\<close>

lemma ini_long_comment_splits:
  assumes "length c = 198" "CHR 0x0A \<notin> set c" "NUL \<notin> set c" "0 < lineno st"
  shows "ini_loop h (CHR '';'' # c @ rest) st = ini_loop h rest (st\<lparr>lineno := lineno st + 1\<rparr>)"
proof -
  let ?l = "CHR '';'' # c"
  have "ini_lines (?l @ rest) = ?l # ini_lines rest"
    using assms by (intro ini_lines_long) auto
  moreover have "ini_line h ?l st = st\<lparr>lineno := lineno st + 1\<rparr>"
    using assms by (simp add: ini_line_def cstr_id ini_classify_comment)
  ultimately show ?thesis by (simp add: ini_loop_fold)
qed

lemma ini_long_comment_splits_witness:
  "ini_loop (\<lambda>u s n v. (u @ [(n, v)], True))
     (CHR '';'' # replicate 198 CHR ''x'' @ ''a=b'') ((ini_init [])\<lparr>lineno := 1\<rparr>) =
   ini_loop (\<lambda>u s n v. (u @ [(n, v)], True)) ''a=b'' ((ini_init [])\<lparr>lineno := 1 + 1\<rparr>)"
  using ini_long_comment_splits [of "replicate 198 CHR ''x''" "(ini_init [])\<lparr>lineno := 1\<rparr>"
      "\<lambda>u s n v. (u @ [(n, v)], True)" "''a=b''"]
  by simp

end
