(* ===== verification/TunnelClient.thy ===== *)
theory TunnelClient
  imports Posix Jsmn Ini
begin

text \<open>
  The tunnel client (\<open>software/ipv6_tunnel/client.c\<close>): it reads its configuration, sets up a TUN
  interface, asks the server for an IPv6 prefix over TCP and then moves packets between the
  two. The global variables are the fields of the state, each array with its size; what the
  uninitialised arrays on the stack of \<open>get_prefix\<close> hold is a field too, and so arbitrary.
  Output to the terminal is not kept.
\<close>

section \<open>The state\<close>

record config_ini =
  remotehost :: "string option"
  remoteport :: u16

record client = "char os" +
  cfg :: config_ini
  json_id :: string
  prefix :: string
  macbuf :: string
  tcp_socket :: int
  tun_file :: int
  stack_buf :: string
  stack_tok :: "jsmntok list"

text \<open>The sizes of the arrays, and the initial values of the globals.\<close>

definition client_ok :: "('x) client_scheme \<Rightarrow> bool" where
  "client_ok s \<longleftrightarrow> length (json_id s) = 27 \<and> length (prefix s) = 48 \<and> length (macbuf s) = 128 \<and>
     length (stack_buf s) = 4096 \<and> length (stack_tok s) = 10"

definition json_id_init :: string where
  "json_id_init = CHR ''{'' # CHR 0x22 # ''Id'' @ [CHR 0x22, CHR '':'', CHR 0x22] @
     ''00:11:22:33:44:55'' @ [CHR 0x22, CHR ''}'', NUL]"

definition client_init :: "char reply list \<Rightarrow> string \<Rightarrow> jsmntok list \<Rightarrow> client" where
  "client_init rs sb st = \<lparr>script = rs, trace = [], cfg = \<lparr>remotehost = None, remoteport = 0\<rparr>,
     json_id = json_id_init, prefix = replicate 48 NUL, macbuf = replicate 128 NUL,
     tcp_socket = -1, tun_file = -1, stack_buf = sb, stack_tok = st\<rparr>"

section \<open>The configuration\<close>

definition digit_val :: "char \<Rightarrow> int" where
  "digit_val c = int (of_char c :: nat) - 48"

definition is_digit :: "char \<Rightarrow> bool" where
  "is_digit c \<longleftrightarrow> 0 \<le> digit_val c \<and> digit_val c \<le> 9"

text \<open>\<open>atoi\<close> (for values in the range of \<open>int\<close>): white space, a sign, digits.\<close>

fun atoi_digits :: "string \<Rightarrow> int \<Rightarrow> int" where
  "atoi_digits [] acc = acc"
| "atoi_digits (c # s) acc = (if is_digit c then atoi_digits s (10 * acc + digit_val c) else acc)"

definition atoi :: "string \<Rightarrow> int" where
  "atoi s = (case lskip s of
      [] \<Rightarrow> 0
    | c # r \<Rightarrow> if c = CHR ''-'' then - atoi_digits r 0
               else if c = CHR ''+'' then atoi_digits r 0 else atoi_digits (c # r) 0)"

definition config_handler :: "config_ini ini_handler" where
  "config_handler c section name value =
     (if section = ''client'' \<and> name = ''remotehost'' then (c\<lparr>remotehost := Some value\<rparr>, True)
      else if section = ''client'' \<and> name = ''remoteport'' then (c\<lparr>remoteport := of_int (atoi value)\<rparr>, True)
      else (c, True))"

section \<open>The connection\<close>

definition connect_loop :: "(unit, 'x client_scheme) prog" where
  "connect_loop = forever (seq (gets tcp_socket) (\<lambda>fd.
     seq (syscall (Connect fd)) (\<lambda>r.
       if failed r then seq (syscall (Sleep 2)) (\<lambda>_. ret None) else ret (Some ()))))"

definition connect_tcp :: "(int, 'x client_scheme) prog" where
  "connect_tcp =
     seq (access (\<lambda>s. remotehost (cfg s))) (\<lambda>host.
     seq (gets tcp_socket) (\<lambda>fd.
     seq (syscall (Close fd)) (\<lambda>_.
     seq (gets (\<lambda>s. take 5 (show_nat (unat (remoteport (cfg s)))))) (\<lambda>port_str.
     seq (syscall (Getaddrinfo host port_str)) (\<lambda>r.
       if failed r then ret (-1)
       else seq (syscall Socket) (\<lambda>r.
         seq (modify (tcp_socket_update (\<lambda>_. if failed r then -1 else rval r))) (\<lambda>_.
           if failed r then ret (-1)
           else seq connect_loop (\<lambda>_. ret 0))))))))"

section \<open>The prefix\<close>

text \<open>\<open>strncmp(buf + off, s, n) == 0\<close>; \<open>None\<close> when it reads outside the buffer.\<close>

fun strncmp_eq :: "string \<Rightarrow> nat \<Rightarrow> string \<Rightarrow> nat \<Rightarrow> bool option" where
  "strncmp_eq buf off s 0 = Some True"
| "strncmp_eq buf off s (Suc n) =
     (case aget buf off of
        None \<Rightarrow> None
      | Some c \<Rightarrow>
          (case s of
             [] \<Rightarrow> Some (c = NUL)
           | x # s' \<Rightarrow> if c \<noteq> x then Some False else strncmp_eq buf (Suc off) s' n))"

text \<open>The macro \<open>TOKEN_STRING\<close>. The length of a token becomes a \<open>size_t\<close> of 32 bits.\<close>

definition tok_len :: "jsmntok \<Rightarrow> nat" where
  "tok_len t = nat ((tok_end t - tok_start t) mod 2 ^ 32)"

definition token_string :: "string \<Rightarrow> jsmntok \<Rightarrow> string \<Rightarrow> bool option" where
  "token_string buf t s =
     (if tok_start t < 0 \<and> 0 < tok_len t then None
      else do { eq \<leftarrow> strncmp_eq buf (nat (tok_start t)) s (tok_len t);
                Some (eq \<and> length s = tok_len t) })"

definition copy_token :: "string \<Rightarrow> jsmntok \<Rightarrow> string \<Rightarrow> string option" where
  "copy_token buf t pre =
     (if tok_start t < 0 \<or> nat (tok_start t) + tok_len t > length buf then None
      else memcpy_at pre 0 (take (tok_len t) (drop (nat (tok_start t)) buf)))"

text \<open>\<open>for (i = 0; i < 9; i++)\<close>: the new contents of the array \<open>prefix\<close>.\<close>

fun find_prefix :: "string \<Rightarrow> jsmntok list \<Rightarrow> nat list \<Rightarrow> string \<Rightarrow> string option" where
  "find_prefix buf ts [] pre = Some pre"
| "find_prefix buf ts (i # is) pre = do {
     t \<leftarrow> aget ts i;
     hit \<leftarrow> token_string buf t ''Prefix'';
     (if hit then do { u \<leftarrow> aget ts (i + 1); copy_token buf u pre }
      else find_prefix buf ts is pre)
   }"

text \<open>The part of \<open>get_prefix\<close> that needs no system: what an answer of the server makes of the
  array \<open>prefix\<close>, and the result.\<close>

definition decode_prefix :: "string \<Rightarrow> string \<Rightarrow> jsmntok list \<Rightarrow> string \<Rightarrow> (int \<times> string) option" where
  "decode_prefix d sbuf stok pre = do {
     let buf = d @ NUL # drop (length d + 1) sbuf;
     (e, p, ts) \<leftarrow> jsmn_parse jsmn_init d stok 10;
     if e \<noteq> JSMN_SUCCESS then Some (-1, pre)
     else do {
       pre' \<leftarrow> find_prefix buf ts [0..<9] pre;
       c \<leftarrow> aget pre' 0;
       if c = NUL then Some (-1, pre')
       else if NUL \<in> set pre' then Some (0, pre') else None
     }
   }"

definition get_prefix :: "(int, 'x client_scheme) prog" where
  "get_prefix =
     seq (access (\<lambda>s. memcpy_at (json_id s) 7 (take 17 (macbuf s)))) (\<lambda>j.
     seq (modify (json_id_update (\<lambda>_. j))) (\<lambda>_.
     seq (gets tcp_socket) (\<lambda>fd.
     seq (syscall (Send fd (cstr j))) (\<lambda>r.
       if failed r then ret (-1)
       else seq (syscall (Recv fd 4095)) (\<lambda>r.
         if failed r then ret (-1)
         else seq (access (\<lambda>s. decode_prefix (payload 4095 r) (stack_buf s) (stack_tok s) (prefix s))) (\<lambda>(v, pre).
           seq (modify (prefix_update (\<lambda>_. pre))) (\<lambda>_. ret v)))))))"

definition reconnect_round :: "(unit option, 'x client_scheme) prog" where
  "reconnect_round =
     seq connect_tcp (\<lambda>v.
       if v < 0 then seq (syscall (Sleep 2)) (\<lambda>_. ret None)
       else seq get_prefix (\<lambda>v.
         if v < 0 then seq (syscall (Sleep 2)) (\<lambda>_. ret None) else ret (Some ())))"

definition reconnect :: "(unit, 'x client_scheme) prog" where
  "reconnect = forever reconnect_round"

section \<open>Moving packets\<close>

text \<open>\<open>FD_SET\<close> and \<open>FD_ISSET\<close> of a descriptor that does not fit the set.\<close>

definition fd_ok :: "int \<Rightarrow> bool" where
  "fd_ok fd \<longleftrightarrow> 0 \<le> fd \<and> fd < 1024"

text \<open>The first argument of \<open>select\<close> is kept in a byte.\<close>

definition select_nfds :: "int \<Rightarrow> int \<Rightarrow> u8" where
  "select_nfds tcp tun =
     (let nfds = (of_int (tcp + 1) :: u8)
      in if tun + 1 > uint nfds then of_int (tun + 1) else nfds)"

definition tcp_ready :: "(unit, 'x client_scheme) prog" where
  "tcp_ready = seq (gets tcp_socket) (\<lambda>tcp.
     seq (syscall (Recv tcp 4096)) (\<lambda>r.
       if failed r then (if err r = Some EAGAIN then ret () else reconnect)
       else if payload 4096 r = [] then reconnect
       else seq (gets tun_file) (\<lambda>tun.
         seq (syscall (Write tun (payload 4096 r))) (\<lambda>_. ret ()))))"

definition tun_ready :: "(unit, 'x client_scheme) prog" where
  "tun_ready = seq (gets tun_file) (\<lambda>tun.
     seq (syscall (Read tun 4906)) (\<lambda>r.
       if failed r then (if err r = Some EAGAIN then ret () else stop (-1))
       else if length (payload 4906 r) > 4096 then fault
       else seq (gets tcp_socket) (\<lambda>tcp.
         seq (syscall (Send tcp (payload 4906 r))) (\<lambda>r.
           if failed r then reconnect else ret ()))))"

definition shuttle :: "(unit option, 'x client_scheme) prog" where
  "shuttle =
     seq (gets tcp_socket) (\<lambda>tcp. seq (gets tun_file) (\<lambda>tun.
       if \<not> (fd_ok tcp \<and> fd_ok tun) then fault
       else seq (syscall (Select (uint (select_nfds tcp tun)) [tcp, tun])) (\<lambda>r.
         if failed r \<or> rval r = 0 then ret None
         else let is_set = (\<lambda>fd. select_bit (unat (select_nfds tcp tun)) (nat ` ready r) (nat fd)) in
           seq (if is_set tcp then tcp_ready else ret ()) (\<lambda>_.
           seq (if is_set tun then tun_ready else ret ()) (\<lambda>_. ret None)))))"

section \<open>The main function\<close>

definition ifname :: string where "ifname = ''ipv6-umich''"

text \<open>\<open>snprintf\<close> into \<open>cmdbuf\<close>: the text and its terminator, over what was there.\<close>

definition cmd_print :: "string \<Rightarrow> string \<Rightarrow> string" where
  "cmd_print s buf = (let t = take 4095 s @ [NUL] in t @ drop (length t) buf)"

text \<open>The loop that turns the \<open>/64\<close> of the prefix into the host number 1.\<close>

definition slash_to_host :: "string \<Rightarrow> string" where
  "slash_to_host buf = (case find (\<lambda>i. buf ! i = CHR ''/'') [0..<4094] of
      None \<Rightarrow> buf
    | Some i \<Rightarrow> buf[i := CHR ''1'', i + 1 := CHR '' '', i + 2 := CHR '' ''])"

definition read_config :: "string option \<Rightarrow> (unit, 'x client_scheme) prog" where
  "read_config ini = seq (gets cfg) (\<lambda>c.
     let (r, c') = ini_parse config_handler ini c in
     if r < 0 then stop (-1)
     else seq (modify (cfg_update (\<lambda>_. c'))) (\<lambda>_.
       if remotehost c' = None \<or> remoteport c' = 0 then stop (-1) else ret ()))"

definition open_tun :: "string \<Rightarrow> (string, 'x client_scheme) prog" where
  "open_tun cmdbuf =
     seq (syscall (Open ''/dev/net/tun'')) (\<lambda>r.
     seq (modify (tun_file_update (\<lambda>_. if failed r then -1 else rval r))) (\<lambda>_.
       if failed r then stop (-1)
       else seq (gets tun_file) (\<lambda>tun.
         seq (syscall (Ioctl tun ifname)) (\<lambda>q.
           if failed q then seq (syscall (Close tun)) (\<lambda>_. stop (-1))
           else seq (make_nonblocking tun) (\<lambda>_.
             let c1 = cmd_print (''ifconfig '' @ ifname @ '' up'') cmdbuf;
                 c2 = cmd_print (''ip -6 route add default via fe80::1 dev '' @ ifname) c1 in
             seq (ssystem (cstr c1)) (\<lambda>_. seq (ssystem (cstr c2)) (\<lambda>_. ret c2)))))))"

definition read_mac :: "(unit, 'x client_scheme) prog" where
  "read_mac =
     seq (syscall (Open ''/sys/class/net/eth0/address'')) (\<lambda>f.
       if failed f then stop (-1)
       else seq (syscall (Read (rval f) 128)) (\<lambda>r.
         if failed r then stop (-1)
         else seq (access (\<lambda>s. memcpy_at (macbuf s) 0 (payload 128 r))) (\<lambda>m.
           seq (modify (macbuf_update (\<lambda>_. m))) (\<lambda>_.
             seq (syscall (Close (rval f))) (\<lambda>_. ret ())))))"

definition add_address :: "string \<Rightarrow> (int, 'x client_scheme) prog" where
  "add_address cmdbuf = seq (gets (\<lambda>s. cstr (prefix s))) (\<lambda>p.
     ssystem (cstr (slash_to_host (cmd_print (''ifconfig '' @ ifname @ '' inet6 add '' @ p) cmdbuf))))"

text \<open>\<open>main\<close>, with the configuration file (\<open>None\<close> when it cannot be opened) and what the
  uninitialised command buffer holds.\<close>

definition main :: "string option \<Rightarrow> string \<Rightarrow> (unit, 'x client_scheme) prog" where
  "main ini cmdbuf =
     seq (read_config ini) (\<lambda>_.
     seq (open_tun cmdbuf) (\<lambda>cmdbuf'.
     seq read_mac (\<lambda>_.
     seq reconnect (\<lambda>_.
     seq (add_address cmdbuf') (\<lambda>_.
     forever shuttle)))))"

section \<open>Numbers as text\<close>

lemma digit_char [simp]: "k < 10 \<Longrightarrow> digit_val (char_of (k + 48 :: nat)) = int k"
  by (simp add: digit_val_def of_char_of)

lemma is_digit_char [simp]: "k < 10 \<Longrightarrow> is_digit (char_of (k + 48 :: nat))"
  by (simp add: is_digit_def)

lemma show_nat_digits: "\<forall>c \<in> set (show_nat n). is_digit c"
proof (induction n rule: show_nat.induct)
  case (1 n)
  then show ?case by (simp add: show_nat.simps [of n])
qed

lemma show_nat_neq [simp]: "show_nat n \<noteq> []"
  by (simp add: show_nat.simps [of n])

lemma length_show_nat: "0 < k \<Longrightarrow> n < 10 ^ k \<Longrightarrow> length (show_nat n) \<le> k"
proof (induction n arbitrary: k rule: show_nat.induct)
  case (1 n)
  show ?case
  proof (cases "n < 10")
    case True
    with "1.prems" show ?thesis by (simp add: show_nat.simps [of n])
  next
    case False
    with "1.prems" obtain j where k: "k = Suc j" by (cases k) auto
    with "1.prems"(2) False have "0 < j" by (cases j) auto
    note k = k this
    with "1.prems" have "n div 10 < 10 ^ j" by (simp add: less_mult_imp_div_less)
    with 1 False k show ?thesis by (simp add: show_nat.simps [of n])
  qed
qed

lemma atoi_digits_append:
  "\<forall>c \<in> set a. is_digit c \<Longrightarrow> atoi_digits (a @ b) acc = atoi_digits b (atoi_digits a acc)"
  by (induction a arbitrary: acc) auto

lemma atoi_digits_show: "atoi_digits (show_nat n) 0 = int n"
proof (induction n rule: show_nat.induct)
  case (1 n)
  show ?case
  proof (cases "n < 10")
    case False
    with 1 have "atoi_digits (show_nat (n div 10)) 0 = int (n div 10)" by simp
    with False show ?thesis
      by (simp add: show_nat.simps [of n] atoi_digits_append show_nat_digits del: of_nat_div of_nat_mod)
         (simp add: zdiv_int zmod_int)
  qed (simp add: show_nat.simps [of n])
qed

lemma digit_not_special:
  "is_digit c \<Longrightarrow> \<not> isspace c \<and> c \<notin> {CHR ''-'', CHR ''+'', CHR '';'', CHR 0x0A, NUL, CHR ''%'', CHR ''/''}"
  by (auto simp: is_digit_def digit_val_def isspace_def)

lemma atoi_show: "atoi (show_nat n) = int n"
proof -
  obtain c s where s: "show_nat n = c # s" by (cases "show_nat n") auto
  then have "is_digit c" using show_nat_digits [of n] by simp
  with s show ?thesis using digit_not_special [of c] atoi_digits_show [of n] by (simp add: atoi_def)
qed

section \<open>The configuration that is read\<close>

text \<open>The host name is kept as a string that fits the line buffer of the reader.\<close>

definition config_ok :: "config_ini \<Rightarrow> bool" where
  "config_ok c \<longleftrightarrow> (\<forall>h. remotehost c = Some h \<longrightarrow> ini_text h)"

interpretation cfg_reader: ini_client config_handler config_ok
  by unfold_locales (auto simp: config_handler_def config_ok_def)

lemma read_config_cases:
  "read_config ini s = (let (r, c) = ini_parse config_handler ini (cfg s) in
     if r < 0 then Exit (-1) s
     else if remotehost c = None \<or> remoteport c = 0 then Exit (-1) (s\<lparr>cfg := c\<rparr>)
     else Ret () (s\<lparr>cfg := c\<rparr>))"
  by (simp add: read_config_def case_prod_beta Let_def stop_def ret_def)

lemma clean_port: "n < 2 ^ 31 \<Longrightarrow> clean_item (Entry ''remoteport'' (show_nat n))"
proof -
  assume "n < 2 ^ 31"
  then have "length (show_nat n) \<le> 10" by (intro length_show_nat) simp_all
  moreover have "\<forall>c \<in> set (show_nat n). is_digit c" by (rule show_nat_digits)
  moreover from this have "is_digit (hd (show_nat n))" "is_digit (last (show_nat n))" by simp_all
  ultimately show ?thesis using digit_not_special by (auto simp: isspace_def)
qed

section \<open>The answer of the server\<close>

definition recv_buf :: "string \<Rightarrow> string \<Rightarrow> string" where
  "recv_buf d sbuf = d @ NUL # drop (length d + 1) sbuf"

lemma length_recv_buf: "length d < length sbuf \<Longrightarrow> length (recv_buf d sbuf) = length sbuf"
  by (simp add: recv_buf_def)

lemma strncmp_total: "off + n \<le> length buf \<Longrightarrow> \<exists>b. strncmp_eq buf off s n = Some b"
  by (induction buf off s n rule: strncmp_eq.induct) (auto simp: aget_def split: list.split)

lemma strncmp_same:
  "off + length s \<le> length buf \<Longrightarrow>
   strncmp_eq buf off s (length s) = Some (take (length s) (drop off buf) = s)"
proof (induction s arbitrary: off)
  case (Cons x s)
  then have "drop off buf = buf ! off # drop (Suc off) buf" by (intro Cons_nth_drop_Suc [symmetric]) simp
  with Cons show ?case by (simp add: aget_def)
qed simp

lemma tok_len_range:
  assumes "tok_range len t" and "len < 2 ^ 31"
  shows "tok_len t = nat (tok_end t) - nat (tok_start t)" "nat (tok_start t) + tok_len t \<le> len"
proof -
  have "(tok_end t - tok_start t) mod 2 ^ 32 = tok_end t - tok_start t"
    using assms by (intro mod_pos_pos_trivial) (auto simp: tok_range_def)
  then show "tok_len t = nat (tok_end t) - nat (tok_start t)" "nat (tok_start t) + tok_len t \<le> len"
    using assms by (auto simp: tok_len_def tok_range_def nat_diff_distrib)
qed

lemma token_string_total:
  assumes "tok_range (length d) t" and "length d < 4096"
  shows "\<exists>b. token_string (recv_buf d sb) t s = Some b"
proof -
  have "nat (tok_start t) + tok_len t \<le> length (recv_buf d sb)"
    using tok_len_range(2) [OF assms(1)] assms(2) by (simp add: recv_buf_def)
  from strncmp_total [OF this, of s] show ?thesis
    using assms(1) by (auto simp: token_string_def tok_range_def)
qed

lemma copy_token_range:
  assumes "tok_range (length d) t" "length d < 4096" "tok_len t \<le> length pre"
  shows "copy_token (recv_buf d sb) t pre =
    Some (take (tok_len t) (drop (nat (tok_start t)) d) @ drop (tok_len t) pre)"
proof -
  have r: "nat (tok_start t) + tok_len t \<le> length d" using tok_len_range(2) assms by simp
  then have "take (tok_len t) (drop (nat (tok_start t)) (recv_buf d sb)) =
      take (tok_len t) (drop (nat (tok_start t)) d)" by (simp add: recv_buf_def)
  then show ?thesis
    using r assms by (simp add: copy_token_def tok_range_def recv_buf_def memcpy_at_def)
qed

text \<open>The loop of the client stops at the first token that reads \<open>Prefix\<close>.\<close>

definition is_key :: "string \<Rightarrow> jsmntok \<Rightarrow> bool" where
  "is_key buf t \<longleftrightarrow> token_string buf t ''Prefix'' = Some True"

lemma find_prefix_hit:
  assumes "i < 9" "i + 1 < length ts" "is_key buf (ts ! i)"
    "\<And>j. j < i \<Longrightarrow> token_string buf (ts ! j) ''Prefix'' = Some False"
  shows "find_prefix buf ts [0..<9] pre = copy_token buf (ts ! (i + 1)) pre"
proof -
  have "k \<le> i \<Longrightarrow> find_prefix buf ts [k..<9] pre = copy_token buf (ts ! (i + 1)) pre" for k
  proof (induction "i - k" arbitrary: k)
    case 0
    then have "k = i" by simp
    with assms show ?case by (simp add: upt_conv_Cons aget_def is_key_def)
  next
    case (Suc x)
    then have "find_prefix buf ts [Suc k..<9] pre = copy_token buf (ts ! (i + 1)) pre" by simp
    moreover have "k < i" "k < 9" using Suc assms(1) by simp_all
    ultimately show ?case using assms(2,4) by (simp add: upt_conv_Cons aget_def)
  qed
  then show ?thesis by simp
qed

lemma find_prefix_none:
  assumes "9 \<le> length ts" "\<And>j. j < 9 \<Longrightarrow> token_string buf (ts ! j) ''Prefix'' = Some False"
  shows "find_prefix buf ts [0..<9] pre = Some pre"
proof -
  have "list_all (\<lambda>j. j < 9) is \<Longrightarrow> find_prefix buf ts is pre = Some pre" for "is"
    by (induction "is") (use assms in \<open>auto simp: aget_def\<close>)
  then show ?thesis by (simp add: list_all_iff)
qed

lemma decode_prefix_parsed:
  assumes "jsmn_parse jsmn_init d stok 10 = Some (JSMN_SUCCESS, p, ts)"
    "find_prefix (recv_buf d sbuf) ts [0..<9] pre = Some pre'" "pre' \<noteq> []" "NUL \<in> set pre'"
  shows "decode_prefix d sbuf stok pre = Some (if hd pre' = NUL then -1 else 0, pre')"
  using assms by (simp add: decode_prefix_def recv_buf_def Let_def aget_def hd_conv_nth)

text \<open>No access leaves its buffer when the answer has a \<open>Prefix\<close> with a value that leaves room
  for the terminator.\<close>

lemma decode_prefix_in_bounds:
  assumes parsed: "jsmn_parse jsmn_init d stok 10 = Some (JSMN_SUCCESS, p, ts)"
    and sz: "length d < 4096" "length stok = 10" "length pre = 48" "pre ! 47 = NUL"
    and key: "i < 9" "i + 1 < toknext p" "is_key (recv_buf d sbuf) (ts ! i)"
    and first: "\<forall>j < i. \<not> is_key (recv_buf d sbuf) (ts ! j)"
    and fits: "tok_len (ts ! (i + 1)) < 48"
  shows "\<exists>v pre'. decode_prefix d sbuf stok pre = Some (v, pre') \<and> length pre' = 48 \<and> pre' ! 47 = NUL \<and>
    pre' = take (tok_len (ts ! (i + 1))) (drop (nat (tok_start (ts ! (i + 1)))) d) @ drop (tok_len (ts ! (i + 1))) pre"
proof -
  obtain e p' ts' where r: "jsmn_parse jsmn_init d stok 10 = Some (e, p', ts')"
      "length ts' = 10" "toknext p' \<le> 10"
      "e = JSMN_SUCCESS \<Longrightarrow> \<forall>i < toknext p'. tok_range (length d) (ts' ! i)"
    using jsmn_parse_ranges [of d stok] sz(2) by metis
  then have rng: "j < toknext p \<Longrightarrow> tok_range (length d) (ts ! j)" and len: "length ts = 10" "toknext p \<le> 10" for j
    using parsed by auto
  let ?t = "ts ! (i + 1)"
  let ?pre = "take (tok_len ?t) (drop (nat (tok_start ?t)) d) @ drop (tok_len ?t) pre"
  have no: "token_string (recv_buf d sbuf) (ts ! j) ''Prefix'' = Some False" if "j < i" for j
    using first token_string_total [OF rng sz(1), of j sbuf "''Prefix''"] that key(2)
    by (auto simp: is_key_def)
  have t: "tok_range (length d) ?t" using rng key(2) by simp
  have "nat (tok_start ?t) + tok_len ?t \<le> length d" using tok_len_range(2) [OF t] sz(1) by simp
  then have l: "length ?pre = 48" "?pre ! 47 = NUL"
    using fits sz(3,4) by (simp_all add: nth_append)
  then have ne: "?pre \<noteq> []" "NUL \<in> set ?pre"
    by (metis list.size(3) zero_neq_numeral) (metis l nth_mem less_add_one numeral_plus_one semiring_norm(5,8))
  have "find_prefix (recv_buf d sbuf) ts [0..<9] pre = Some ?pre"
    using find_prefix_hit [of i ts "recv_buf d sbuf" pre] key len no
      copy_token_range [OF t sz(1), of pre sbuf] sz(3) fits by simp
  from decode_prefix_parsed [OF parsed this ne] l show ?thesis by blast
qed

text \<open>The protocol answers: an object whose first member is the prefix. \<open>prefix_answer\<close> is what
  the server sends.\<close>

definition prefix_answer :: "string \<Rightarrow> (string \<times> string) list \<Rightarrow> string" where
  "prefix_answer v rest = print_obj ((''Prefix'', v) # rest)"

definition answer_ok :: "string \<Rightarrow> (string \<times> string) list \<Rightarrow> bool" where
  "answer_ok v rest \<longleftrightarrow> plain v \<and> list_all (\<lambda>(k, v). plain k \<and> plain v) rest \<and> length rest \<le> 3 \<and>
     length (prefix_answer v rest) < 4096"

lemma plain_Prefix: "plain ''Prefix''"
  by (simp add: plain_def)

lemma answer_parsed:
  assumes "answer_ok v rest" "length stok = 10"
  shows "\<exists>p ts. jsmn_parse jsmn_init (prefix_answer v rest) stok 10 = Some (JSMN_SUCCESS, p, ts) \<and>
    2 < toknext p \<and> length ts = 10 \<and> tok_start (ts ! 0) = 0 \<and>
    ts ! 1 = str_tok 2 ''Prefix'' \<and> ts ! 2 = str_tok 11 v"
proof -
  let ?ms = "(''Prefix'', v) # rest"
  have "list_all (\<lambda>(k, v). plain k \<and> plain v) ?ms" "1 + 2 * length ?ms \<le> length stok"
    using assms by (simp_all add: answer_ok_def plain_Prefix)
  from jsmn_parse_obj [OF this] obtain p where
    p: "jsmn_parse jsmn_init (prefix_answer v rest) stok 10 =
      Some (JSMN_SUCCESS, p, obj_toks ?ms @ drop (1 + 2 * length ?ms) stok)" "toknext p = 1 + 2 * length ?ms"
    using assms(2) by (auto simp: prefix_answer_def)
  have "2 * length ?ms + 1 \<le> 10" using assms by (simp add: answer_ok_def)
  with p assms(2) show ?thesis by (simp add: obj_toks_def) (simp only: numeral_2_eq_2)
qed

lemma answer_layout:
  "prefix_answer v rest = [CHR ''{'', CHR 0x22] @ ''Prefix'' @ [CHR 0x22, CHR '':'', CHR 0x22] @ v @ CHR 0x22 # print_tail rest"
  by (simp add: prefix_answer_def)

lemma tok_len_str [simp]: "length s < 2 ^ 31 \<Longrightarrow> tok_len (str_tok off s) = length s"
  by (simp add: tok_len_def str_tok_def)

lemma answer_key:
  "is_key (recv_buf (prefix_answer v rest) sb) (str_tok 2 ''Prefix'')"
proof -
  define buf where "buf = recv_buf (prefix_answer v rest) sb"
  have l: "2 + length ''Prefix'' \<le> length buf" "take (length ''Prefix'') (drop 2 buf) = ''Prefix''"
    by (simp_all add: buf_def recv_buf_def answer_layout)
  have "strncmp_eq buf 2 ''Prefix'' (length ''Prefix'') = Some True"
    using strncmp_same [OF l(1)] l(2) by simp
  moreover have "tok_len (str_tok 2 ''Prefix'') = length ''Prefix''" by (rule tok_len_str) simp
  moreover have "nat (tok_start (str_tok 2 ''Prefix'')) = 2" "\<not> tok_start (str_tok 2 ''Prefix'') < 0"
    by (simp_all add: str_tok_def)
  ultimately show ?thesis
    unfolding is_key_def token_string_def buf_def [symmetric] by (simp only: if_False simp_thms bind.bind_lunit)
qed

lemma answer_object_not_key:
  assumes "tok_start t = 0"
  shows "\<not> is_key (recv_buf (prefix_answer v rest) sb) t"
proof (cases "tok_len t")
  case 0
  then show ?thesis using assms by (simp add: is_key_def token_string_def)
next
  case (Suc n)
  then show ?thesis
    using assms by (simp add: is_key_def token_string_def recv_buf_def answer_layout aget_def)
qed

lemma answer_value_at:
  "take (length v) (drop 11 (prefix_answer v rest)) = v"
proof -
  have "prefix_answer v rest = (CHR ''{'' # CHR 0x22 # ''Prefix'' @ [CHR 0x22, CHR '':'', CHR 0x22]) @ (v @ CHR 0x22 # print_tail rest)"
    (is "_ = ?a @ ?b") by (simp add: answer_layout)
  moreover have "length ?a = 11" by simp
  ultimately have "drop 11 (prefix_answer v rest) = ?b" by (metis append_eq_conv_conj)
  then show ?thesis by simp
qed

lemma decode_answer:
  assumes ok: "answer_ok v rest" and sz: "length stok = 10" "length pre = 48" "pre ! 47 = NUL"
    and v: "v \<noteq> []" "length v < 48"
  shows "decode_prefix (prefix_answer v rest) sbuf stok pre = Some (0, v @ drop (length v) pre)"
proof -
  obtain p ts where p: "jsmn_parse jsmn_init (prefix_answer v rest) stok 10 = Some (JSMN_SUCCESS, p, ts)"
      "2 < toknext p" "length ts = 10" "tok_start (ts ! 0) = 0" "ts ! 1 = str_tok 2 ''Prefix''"
      "ts ! 2 = str_tok 11 v"
    using answer_parsed [OF ok sz(1)] by blast
  have "length (prefix_answer v rest) < 4096" using ok by (simp add: answer_ok_def)
  moreover have "is_key (recv_buf (prefix_answer v rest) sbuf) (ts ! 1)"
    using p answer_key by simp
  moreover have "\<forall>j < 1. \<not> is_key (recv_buf (prefix_answer v rest) sbuf) (ts ! j)"
    using p(4) answer_object_not_key by simp
  ultimately obtain r where
    r: "decode_prefix (prefix_answer v rest) sbuf stok pre = Some (r, v @ drop (length v) pre)"
    using decode_prefix_in_bounds [OF p(1) _ sz, of 1 sbuf] p(2,6) v answer_value_at [of v rest]
    by (auto simp: str_tok_def [of 11] tok_len_def numeral_2_eq_2)
  have "NUL \<notin> set v" using ok by (simp add: answer_ok_def plain_def)
  moreover have "v ! 0 \<in> set v" using v(1) by simp
  ultimately have "v ! 0 \<noteq> NUL" by metis
  with r v p(1) show ?thesis
    by (auto simp: decode_prefix_def Let_def nth_append aget_def split: Option.bind_splits if_splits)
qed

section \<open>What the client does with packets\<close>

text \<open>A monitor of the trace. After a packet came from the server, the next call writes it to the
  TUN device; after one came from the device, the next call sends it to the server. Nothing
  else is written, and nothing else is sent but the hello with the MAC address. The server is
  the socket created last.\<close>

datatype relay = Idle | ToTun string | ToTcp string | Bad

fun relay_step :: "int \<Rightarrow> string \<Rightarrow> relay \<times> int \<Rightarrow> char call \<times> char reply \<Rightarrow> relay \<times> int" where
  "relay_step tun hello (Bad, tcp) e = (Bad, tcp)"
| "relay_step tun hello (ToTun p, tcp) (c, r) = (if c = Write tun p then Idle else Bad, tcp)"
| "relay_step tun hello (ToTcp p, tcp) (c, r) = (if c = Send tcp p then Idle else Bad, tcp)"
| "relay_step tun hello (Idle, tcp) (c, r) =
     (case c of
        Recv fd n \<Rightarrow>
          (if fd \<noteq> tcp then Bad
           else if n = 4096 \<and> \<not> failed r \<and> payload n r \<noteq> [] then ToTun (payload n r) else Idle, tcp)
      | Read fd n \<Rightarrow> (if fd \<noteq> tun then Bad else if failed r then Idle else ToTcp (payload n r), tcp)
      | Send fd d \<Rightarrow> (if fd = tcp \<and> d = hello then Idle else Bad, tcp)
      | Write fd d \<Rightarrow> (Bad, tcp)
      | Socket \<Rightarrow> (Idle, if failed r then -1 else rval r)
      | _ \<Rightarrow> (Idle, tcp))"

definition relay_run :: "int \<Rightarrow> string \<Rightarrow> relay \<times> int \<Rightarrow> (char call \<times> char reply) list \<Rightarrow> relay \<times> int" where
  "relay_run tun hello q tr = foldl (relay_step tun hello) q tr"

lemma relay_run_Nil [simp]: "relay_run tun hello q [] = q"
  by (simp add: relay_run_def)

lemma relay_run_snoc [simp]:
  "relay_run tun hello q (tr @ [e]) = relay_step tun hello (relay_run tun hello q tr) e"
  by (simp add: relay_run_def)

text \<open>The hello: the object with the first 17 bytes of the MAC address file.\<close>

definition hello_buf :: "'x client_scheme \<Rightarrow> string" where
  "hello_buf s = take 7 (json_id s) @ take 17 (macbuf s) @ drop 24 (json_id s)"

text \<open>\<open>at q tcp s\<close>: the client was in state \<open>Idle\<close> with socket \<open>tcp0\<close> when the trace was \<open>tr0\<close>, and
  the monitor is now in \<open>q\<close> with \<open>tcp\<close>.\<close>

definition relay_at ::
  "int \<Rightarrow> string \<Rightarrow> (char call \<times> char reply) list \<Rightarrow> int \<Rightarrow> relay \<Rightarrow> int \<Rightarrow> client \<Rightarrow> bool" where
  "relay_at tun hb tr0 tcp0 q tcp s \<longleftrightarrow> client_ok s \<and> tun_file s = tun \<and> hello_buf s = hb \<and>
     (\<exists>t. trace s = tr0 @ t \<and> relay_run tun (cstr hb) (Idle, tcp0) t = (q, tcp))"

definition relayed ::
  "int \<Rightarrow> string \<Rightarrow> (char call \<times> char reply) list \<Rightarrow> int \<Rightarrow> client \<Rightarrow> bool" where
  "relayed tun hb tr0 tcp0 s \<longleftrightarrow>
     (\<exists>t. trace s = tr0 @ t \<and> fst (relay_run tun (cstr hb) (Idle, tcp0) t) \<noteq> Bad)"

lemma relay_at_relayed: "relay_at tun hb tr0 tcp0 q tcp s \<Longrightarrow> q \<noteq> Bad \<Longrightarrow> relayed tun hb tr0 tcp0 s"
  by (auto simp: relay_at_def relayed_def)

lemma relay_at_step:
  assumes "relay_at tun hb tr0 tcp0 q tcp s" "relay_step tun (cstr hb) (q, tcp) (c, r) = (q', tcp')"
  shows "relay_at tun hb tr0 tcp0 q' tcp' (s\<lparr>script := rs, trace := trace s @ [(c, r)]\<rparr>)"
proof -
  obtain t where "trace s = tr0 @ t" "relay_run tun (cstr hb) (Idle, tcp0) t = (q, tcp)"
    using assms(1) by (auto simp: relay_at_def)
  with assms(2) have "trace s @ [(c, r)] = tr0 @ (t @ [(c, r)])"
    "relay_run tun (cstr hb) (Idle, tcp0) (t @ [(c, r)]) = (q', tcp')" by simp_all
  with assms(1) show ?thesis unfolding relay_at_def by (auto simp: client_ok_def hello_buf_def)
qed

lemma wp_relay_syscall:
  assumes "relay_at tun hb tr0 tcp0 q tcp s" "q \<noteq> Bad"
    and "\<And>r s'. relay_at tun hb tr0 tcp0 (fst (relay_step tun (cstr hb) (q, tcp) (c, r)))
        (snd (relay_step tun (cstr hb) (q, tcp) (c, r))) s' \<Longrightarrow>
      tcp_socket s' = tcp_socket s \<Longrightarrow> macbuf s' = macbuf s \<Longrightarrow> cfg s' = cfg s \<Longrightarrow> Q r s'"
  shows "wp (syscall c) Q (relayed tun hb tr0 tcp0) s"
proof (cases "script s")
  case Nil
  then show ?thesis using assms relay_at_relayed by (simp add: wp_simps)
next
  case (Cons r rs)
  have "Q r (s\<lparr>script := rs, trace := trace s @ [(c, r)]\<rparr>)"
    by (rule assms(3) [OF relay_at_step [OF assms(1)]]) simp_all
  with Cons show ?thesis by (simp add: wp_simps)
qed

abbreviation (input) idle :: "int \<Rightarrow> string \<Rightarrow> (char call \<times> char reply) list \<Rightarrow> int \<Rightarrow> client \<Rightarrow> bool" where
  "idle tun hb tr0 tcp0 s \<equiv> relay_at tun hb tr0 tcp0 Idle (tcp_socket s) s"

lemma relay_connect_loop:
  assumes "idle tun hb tr0 tcp0 s"
  shows "wp connect_loop (\<lambda>_. idle tun hb tr0 tcp0) (relayed tun hb tr0 tcp0) s"
  unfolding connect_loop_def
proof (rule wp_forever [where I = "idle tun hb tr0 tcp0"])
  show "idle tun hb tr0 tcp0 s" by (rule assms)
next
  fix t assume t: "idle tun hb tr0 tcp0 t"
  show "wp (seq (gets tcp_socket) (\<lambda>fd. seq (syscall (Connect fd)) (\<lambda>r.
       if failed r then seq (syscall (Sleep 2)) (\<lambda>_. ret None) else ret (Some ()))))
      (\<lambda>x s. case x of None \<Rightarrow> idle tun hb tr0 tcp0 s | Some y \<Rightarrow> idle tun hb tr0 tcp0 s)
      (relayed tun hb tr0 tcp0) t"
    unfolding wp_seq wp_gets
    by (rule wp_relay_syscall [OF t]) (auto simp: wp_seq wp_ret intro!: wp_relay_syscall)
qed (auto intro: relay_at_relayed)

lemma relay_connect_tcp:
  assumes "idle tun hb tr0 tcp0 s"
  shows "wp connect_tcp (\<lambda>_. idle tun hb tr0 tcp0) (relayed tun hb tr0 tcp0) s"
proof (cases "remotehost (cfg s)")
  case None
  then show ?thesis using relay_at_relayed [OF assms] by (simp add: connect_tcp_def wp_seq wp_access)
next
  case (Some host)
  have set_sock: "relay_at tun hb tr0 tcp0 Idle fd (u\<lparr>tcp_socket := fd\<rparr>)"
    if "relay_at tun hb tr0 tcp0 Idle fd u" for u fd
    using that by (simp add: relay_at_def client_ok_def hello_buf_def)
  have loop: "wp connect_loop (\<lambda>x. wp (ret 0) (\<lambda>_. idle tun hb tr0 tcp0) (relayed tun hb tr0 tcp0))
      (relayed tun hb tr0 tcp0) (u\<lparr>tcp_socket := fd\<rparr>)" if "relay_at tun hb tr0 tcp0 Idle fd u" for u fd
    by (rule wp_mono [OF relay_connect_loop]) (use set_sock [OF that] in \<open>simp_all add: wp_ret\<close>)
  show ?thesis unfolding connect_tcp_def wp_seq wp_gets wp_access wp_if wp_modify Some option.case
    by (rule wp_relay_syscall [OF assms], simp, rule wp_relay_syscall, simp, simp, simp add: wp_ret,
        intro impI, rule wp_relay_syscall, simp, simp) (auto simp: wp_ret intro!: set_sock loop)
qed

lemma decode_prefix_length: "decode_prefix d sb st pre = Some (v, pre') \<Longrightarrow> length pre' = length pre"
proof -
  have "find_prefix buf ts is pre = Some p \<Longrightarrow> length p = length pre" for buf ts "is" p
    by (induction buf ts "is" pre rule: find_prefix.induct)
       (auto simp: copy_token_def dest: memcpy_at_length split: Option.bind_splits if_splits)
  then show "decode_prefix d sb st pre = Some (v, pre') \<Longrightarrow> length pre' = length pre"
    by (auto simp: decode_prefix_def Let_def split: Option.bind_splits if_splits)
qed

lemma relay_get_prefix:
  assumes "idle tun hb tr0 tcp0 s"
  shows "wp get_prefix (\<lambda>_. idle tun hb tr0 tcp0) (relayed tun hb tr0 tcp0) s"
proof -
  have len: "length (json_id s) = 27" "length (macbuf s) = 128" and hb: "hello_buf s = hb"
    using assms by (auto simp: relay_at_def client_ok_def)
  have j: "memcpy_at (json_id s) 7 (take 17 (macbuf s)) = Some hb"
    using len hb by (simp add: memcpy_at_def hello_buf_def)
  have set_j: "idle tun hb tr0 tcp0 (s\<lparr>json_id := hb\<rparr>)"
    using assms len by (auto simp: relay_at_def client_ok_def hello_buf_def)
  have decoded: "wp (access (\<lambda>s. decode_prefix (payload 4095 r) (stack_buf s) (stack_tok s) (prefix s)))
      (\<lambda>x. wp (case x of (v, pre) \<Rightarrow> seq (modify (prefix_update (\<lambda>_. pre))) (\<lambda>_. ret v))
        (\<lambda>_. idle tun hb tr0 tcp0) (relayed tun hb tr0 tcp0)) (relayed tun hb tr0 tcp0) u"
    if "idle tun hb tr0 tcp0 u" for r u
    using that relay_at_relayed [OF that] decode_prefix_length
    by (auto simp: wp_access wp_seq wp_modify wp_ret relay_at_def client_ok_def hello_buf_def
        split: option.split prod.split)
  show ?thesis unfolding get_prefix_def wp_seq wp_gets wp_access wp_modify wp_if j option.case
    by (rule wp_relay_syscall [OF set_j], simp, simp add: wp_ret, intro impI,
        rule wp_relay_syscall, simp, simp) (auto simp: wp_ret intro!: decoded [unfolded wp_access])
qed

lemma relay_reconnect:
  assumes "idle tun hb tr0 tcp0 s"
  shows "wp reconnect (\<lambda>_. idle tun hb tr0 tcp0) (relayed tun hb tr0 tcp0) s"
  unfolding reconnect_def
proof (rule wp_forever [where I = "idle tun hb tr0 tcp0"])
  fix t assume t: "idle tun hb tr0 tcp0 t"
  have nap: "wp (seq (syscall (Sleep 2)) (\<lambda>_. ret None))
      (\<lambda>x s. case x of None \<Rightarrow> idle tun hb tr0 tcp0 s | Some y \<Rightarrow> idle tun hb tr0 tcp0 s)
      (relayed tun hb tr0 tcp0) u" if "idle tun hb tr0 tcp0 u" for u
    unfolding wp_seq by (rule wp_relay_syscall [OF that]) (simp_all add: wp_ret)
  have get: "wp (seq get_prefix (\<lambda>v. if v < 0 then seq (syscall (Sleep 2)) (\<lambda>_. ret None) else ret (Some ())))
      (\<lambda>x s. case x of None \<Rightarrow> idle tun hb tr0 tcp0 s | Some y \<Rightarrow> idle tun hb tr0 tcp0 s)
      (relayed tun hb tr0 tcp0) u" if "idle tun hb tr0 tcp0 u" for u
    unfolding wp_seq [of get_prefix] by (rule wp_mono [OF relay_get_prefix [OF that]]) (simp_all add: nap wp_ret)
  show "wp reconnect_round
      (\<lambda>x s. case x of None \<Rightarrow> idle tun hb tr0 tcp0 s | Some y \<Rightarrow> idle tun hb tr0 tcp0 s)
      (relayed tun hb tr0 tcp0) t"
    unfolding reconnect_round_def wp_seq [of connect_tcp]
    by (rule wp_mono [OF relay_connect_tcp [OF t]]) (simp_all add: nap get)
qed (auto intro: relay_at_relayed assms)

lemma relay_tcp_ready:
  assumes "idle tun hb tr0 tcp0 s"
  shows "wp tcp_ready (\<lambda>_. idle tun hb tr0 tcp0) (relayed tun hb tr0 tcp0) s"
  unfolding tcp_ready_def wp_seq wp_gets wp_if wp_ret
proof (rule wp_relay_syscall [OF assms], simp, goal_cases)
  case (1 r u)
  then have "tun_file u = tun" by (simp add: relay_at_def)
  with 1 show ?case
    by (auto intro!: relay_reconnect elim!: wp_relay_syscall)
qed

lemma relay_tun_ready:
  assumes "idle tun hb tr0 tcp0 s"
  shows "wp tun_ready (\<lambda>_. idle tun hb tr0 tcp0) (relayed tun hb tr0 tcp0) s"
proof -
  have "tun_file s = tun" using assms by (simp add: relay_at_def)
  then show ?thesis
    unfolding tun_ready_def wp_seq wp_gets wp_if wp_ret wp_stop wp_fault
    by (intro wp_relay_syscall [OF assms])
       (auto intro!: relay_reconnect elim!: wp_relay_syscall elim: relay_at_relayed,
        erule relay_at_relayed, simp)
qed

lemma relay_shuttle:
  assumes "idle tun hb tr0 tcp0 s"
  shows "wp shuttle (\<lambda>x s. case x of None \<Rightarrow> idle tun hb tr0 tcp0 s | Some y \<Rightarrow> Q y s)
    (relayed tun hb tr0 tcp0) s"
proof -
  let ?Q = "\<lambda>x s. case x of None \<Rightarrow> idle tun hb tr0 tcp0 s | Some y \<Rightarrow> Q y s"
  let ?E = "relayed tun hb tr0 tcp0"
  have tun: "wp (seq (if b then tun_ready else ret ()) (\<lambda>_. ret None)) ?Q ?E u"
    if "idle tun hb tr0 tcp0 u" for b u
    unfolding wp_seq wp_ret option.case using relay_tun_ready [OF that] that
    by (cases b) (simp_all add: wp_ret)
  have both: "wp (seq (if a then tcp_ready else ret ())
      (\<lambda>_. seq (if b then tun_ready else ret ()) (\<lambda>_. ret None))) ?Q ?E u"
    if "idle tun hb tr0 tcp0 u" for a b u
  proof (cases a)
    case True
    show ?thesis unfolding if_P [OF True] wp_seq [of tcp_ready]
      by (rule wp_mono [OF relay_tcp_ready [OF that]]) (erule tun)
  next
    case False
    show ?thesis unfolding if_not_P [OF False] wp_seq [of "ret ()"] wp_ret
      by (rule tun [OF that])
  qed
  show ?thesis
  proof (cases "fd_ok (tcp_socket s) \<and> fd_ok (tun_file s)")
    case False
    then show ?thesis using relay_at_relayed [OF assms] by (auto simp: shuttle_def wp_simps)
  next
    case True
    then have fds: "\<not> \<not> (fd_ok (tcp_socket s) \<and> fd_ok (tun_file s))" by simp
    show ?thesis
      unfolding shuttle_def wp_seq [of "gets _"] wp_gets Let_def if_not_P [OF fds]
        wp_seq [of "syscall _"]
    proof (rule wp_relay_syscall [OF assms], simp, goal_cases)
      case (1 r u)
      then have "idle tun hb tr0 tcp0 u" by simp
      then show ?case by (cases "failed r \<or> rval r = 0") (simp_all only: wp_ret if_True if_False simp_thms option.case both)
    qed
  qed
qed

lemma relay_forever:
  assumes "idle tun hb tr0 tcp0 s"
  shows "wp (forever shuttle) (\<lambda>_. relayed tun hb tr0 tcp0) (relayed tun hb tr0 tcp0) s"
  by (rule wp_forever [where I = "idle tun hb tr0 tcp0"])
     (auto intro: relay_at_relayed relay_shuttle assms)

section \<open>Loops of the client\<close>

lemma consumes_connect_body:
  "consumes (seq (gets tcp_socket) (\<lambda>fd. seq (syscall (Connect fd)) (\<lambda>r.
     if failed r then seq (syscall (Sleep 2)) (\<lambda>_. ret None) else ret (Some ()))))"
  by (auto intro!: consumes_gets consumes_seq consumes_syscall nonexpanding_seq nonexpanding_prims)

lemma connect_loop_unfold:
  "connect_loop s =
     (case script s of
        [] \<Rightarrow> Blocked s
      | r # rs \<Rightarrow> (let s1 = s\<lparr>script := rs, trace := trace s @ [(Connect (tcp_socket s), r)]\<rparr> in
          if \<not> failed r then Ret () s1
          else (case rs of [] \<Rightarrow> Blocked s1
            | q # qs \<Rightarrow> connect_loop (s1\<lparr>script := qs, trace := trace s1 @ [(Sleep 2, q)]\<rparr>))))"
  unfolding connect_loop_def
  by (subst forever_unfold [OF consumes_connect_body])
     (simp add: seq_syscall Let_def ret_def [abs_def] split: list.split)

lemma connect_loop_retries_run:
  "script s = concat (replicate k [r, q]) @ ok # rs \<Longrightarrow> failed r \<Longrightarrow> \<not> failed ok \<Longrightarrow>
   connect_loop s = Ret () (s\<lparr>script := rs, trace := trace s @
     concat (replicate k [(Connect (tcp_socket s), r), (Sleep 2, q)]) @ [(Connect (tcp_socket s), ok)]\<rparr>)"
proof (induction k arbitrary: s)
  case 0
  then show ?case by (simp add: connect_loop_unfold [of s])
next
  case (Suc k)
  then show ?case by (subst connect_loop_unfold) (simp add: Let_def)
qed

lemmas progress_intros = consumes_gets consumes_access consumes_seq consumes_syscall
  nonexpanding_seq nonexpanding_prims nonexpanding_gets nonexpanding_modify nonexpanding_forever

lemma nonexpanding_connect_loop: "nonexpanding connect_loop"
  unfolding connect_loop_def
  by (intro nonexpanding_forever consumes_nonexpanding consumes_connect_body)

lemma consumes_connect_tcp: "consumes connect_tcp"
  unfolding connect_tcp_def by (auto intro!: progress_intros nonexpanding_connect_loop)

lemma nonexpanding_get_prefix: "nonexpanding get_prefix"
  unfolding get_prefix_def by (auto intro!: progress_intros)

lemma consumes_reconnect_round: "consumes reconnect_round"
  unfolding reconnect_round_def
  by (auto intro!: progress_intros consumes_seq [OF consumes_connect_tcp] nonexpanding_get_prefix)

lemma nonexpanding_reconnect: "nonexpanding reconnect"
  unfolding reconnect_def by (intro nonexpanding_forever consumes_nonexpanding consumes_reconnect_round)

lemma nonexpanding_ready: "nonexpanding tcp_ready" "nonexpanding tun_ready"
  unfolding tcp_ready_def tun_ready_def by (auto intro!: progress_intros nonexpanding_reconnect)

lemma consumes_shuttle: "consumes shuttle"
proof -
  have "consumes (fault :: (unit option, 'x client_scheme) prog)" by (simp add: consumes_def fault_def)
  then show ?thesis
    unfolding shuttle_def Let_def by (auto intro!: progress_intros nonexpanding_ready)
qed

text \<open>So the two endless loops are what their bodies say, however long the script is.\<close>

lemmas reconnect_unfold = forever_unfold [OF consumes_reconnect_round, folded reconnect_def]
lemmas shuttle_unfold = forever_unfold [OF consumes_shuttle]

section \<open>Properties\<close>

text \<open>C1. Whatever the network and the kernel do, the client is a faithful relay for as long as
  it runs: the call after a packet was received from the server writes exactly that packet to
  the TUN device, the call after one was read from the device sends exactly that one to the
  server, each goes through once and in order, and apart from them only the hello is ever
  sent, always on the socket created last.\<close>

theorem client_relays:
  assumes "client_ok s"
  shows "relayed (tun_file s) (hello_buf s) (trace s) (tcp_socket s) (final (forever shuttle s))"
proof (rule wp_final [OF relay_forever])
  show "relay_at (tun_file s) (hello_buf s) (trace s) (tcp_socket s) Idle (tcp_socket s) s"
    using assms by (simp add: relay_at_def)
qed

definition example_client :: "char reply list \<Rightarrow> client" where
  "example_client rs = (client_init rs (replicate 4096 NUL) (replicate 10 tok0))
     \<lparr>tcp_socket := 3, tun_file := 4, cfg := \<lparr>remotehost = Some ''h'', remoteport = 80\<rparr>\<rparr>"

lemma example_client_ok: "client_ok (example_client rs)"
  by (simp add: example_client_def client_init_def client_ok_def) (simp add: json_id_init_def)

lemma example_client_simps [simp]:
  "tun_file (example_client rs) = 4" "tcp_socket (example_client rs) = 3"
  "script (example_client rs) = rs" "trace (example_client rs) = []"
  "prefix (example_client rs) = replicate 48 NUL"
  "hello_buf (example_client (r # rs)) = hello_buf (example_client [])"
  by (simp_all add: example_client_def client_init_def hello_buf_def)

theorem client_relays_witness:
  "relayed 4 (hello_buf (example_client [])) [] 3
     (final (forever shuttle (example_client
       [\<lparr>err = None, rval = 1, rval2 = 0, data = [], ready = {3}\<rparr>, data_reply ''packet'', ok_reply 6])))"
  using client_relays [OF example_client_ok, of "[\<lparr>err = None, rval = 1, rval2 = 0, data = [], ready = {3}\<rparr>, data_reply ''packet'', ok_reply 6]"]
  by (simp only: example_client_simps)

lemma get_prefix_run:
  assumes "client_ok s" "answer_ok v rest" "v \<noteq> []" "length v < 48" "prefix s ! 47 = NUL"
    and "script s = q # data_reply (prefix_answer v rest) # rs" "\<not> failed q"
  shows "get_prefix s = Ret 0 (s\<lparr>script := rs,
    trace := trace s @ [(Send (tcp_socket s) (cstr (hello_buf s)), q),
      (Recv (tcp_socket s) 4095, data_reply (prefix_answer v rest))],
    json_id := hello_buf s, prefix := v @ drop (length v) (prefix s)\<rparr>)"
proof -
  have "memcpy_at (json_id s) 7 (take 17 (macbuf s)) = Some (hello_buf s)"
    using assms(1) by (simp add: client_ok_def memcpy_at_def hello_buf_def)
  moreover have "length (prefix_answer v rest) \<le> 4095" using assms(2) by (simp add: answer_ok_def)
  moreover have "decode_prefix (prefix_answer v rest) (stack_buf s) (stack_tok s) (prefix s) =
      Some (0, v @ drop (length v) (prefix s))"
    using assms by (intro decode_answer) (simp_all add: client_ok_def)
  ultimately show ?thesis
    using assms(6,7) by (simp add: get_prefix_def seq_syscall payload_def failed_def ret_def)
qed

text \<open>C10. The exchange with the server: the client sends the hello with the MAC address of its
  interface, and from an answer that starts with a prefix shorter than its buffer it takes
  exactly that prefix, over the first bytes of the old one, and nothing else changes.\<close>

theorem get_prefix_answer:
  assumes "client_ok s" "answer_ok v rest" "v \<noteq> []" "length v < 48" "prefix s ! 47 = NUL"
    and "script s = q # data_reply (prefix_answer v rest) # rs" "\<not> failed q"
  shows "get_prefix s = Ret 0 (s\<lparr>script := rs,
    trace := trace s @ [(Send (tcp_socket s) (cstr (hello_buf s)), q),
      (Recv (tcp_socket s) 4095, data_reply (prefix_answer v rest))],
    json_id := hello_buf s, prefix := v @ drop (length v) (prefix s)\<rparr>)"
  using assms by (rule get_prefix_run)

lemma example_answer: "answer_ok ''fd00::/64'' []"
  by (simp add: answer_ok_def prefix_answer_def plain_def)

theorem get_prefix_answer_witness:
  "\<exists>s'. get_prefix (example_client [ok_reply 26, data_reply (prefix_answer ''fd00::/64'' [])]) = Ret 0 s' \<and>
     cstr (prefix s') = ''fd00::/64''"
proof -
  let ?s = "example_client [ok_reply 26, data_reply (prefix_answer ''fd00::/64'' [])]"
  show ?thesis
    using get_prefix_answer [OF example_client_ok example_answer, of _ "ok_reply 26" "[]"]
    by (simp add: failed_def cstr_Cons)
qed

text \<open>C22. Memory safety of the parsing of an answer: whatever the server sends, if it parses and
  its first \<open>Prefix\<close> is among the first nine tokens, has a token after it and that token is
  shorter than the buffer, then no access leaves its array, the buffer keeps its terminator,
  and its new contents are the text of that token over the old contents.\<close>

theorem decode_prefix_safe:
  assumes "jsmn_parse jsmn_init d stok 10 = Some (JSMN_SUCCESS, p, ts)"
    and "length d < 4096" "length stok = 10" "length pre = 48" "pre ! 47 = NUL"
    and "i < 9" "i + 1 < toknext p" "is_key (recv_buf d sbuf) (ts ! i)"
    and "\<forall>j < i. \<not> is_key (recv_buf d sbuf) (ts ! j)"
    and "tok_len (ts ! (i + 1)) < 48"
  shows "\<exists>v pre'. decode_prefix d sbuf stok pre = Some (v, pre') \<and> length pre' = 48 \<and> pre' ! 47 = NUL \<and>
    pre' = take (tok_len (ts ! (i + 1))) (drop (nat (tok_start (ts ! (i + 1)))) d) @ drop (tok_len (ts ! (i + 1))) pre"
  using assms by (rule decode_prefix_in_bounds)

theorem decode_prefix_safe_witness:
  "\<exists>v. decode_prefix (prefix_answer ''fd00::/64'' []) (replicate 4096 NUL) (replicate 10 tok0) (replicate 48 NUL) =
     Some (v, ''fd00::/64'' @ replicate 39 NUL)"
proof -
  let ?d = "prefix_answer ''fd00::/64'' []" and ?sb = "replicate 4096 NUL"
  obtain p ts where p: "jsmn_parse jsmn_init ?d (replicate 10 tok0) 10 = Some (JSMN_SUCCESS, p, ts)"
      "2 < toknext p" "tok_start (ts ! 0) = 0" "ts ! 1 = str_tok 2 ''Prefix''" "ts ! 2 = str_tok 11 ''fd00::/64''"
    using answer_parsed [OF example_answer] by (metis length_replicate)
  have "\<forall>j < 1. \<not> is_key (recv_buf ?d ?sb) (ts ! j)" using p(3) answer_object_not_key by simp
  moreover have "is_key (recv_buf ?d ?sb) (ts ! 1)" using p(4) answer_key by simp
  ultimately show ?thesis
    using decode_prefix_safe [OF p(1), of "replicate 48 NUL" 1 ?sb] p(2,5) answer_value_at [of "''fd00::/64''" "[]"]
    by (auto simp: answer_layout str_tok_def tok_len_def numeral_2_eq_2)
qed

text \<open>C29. After a reconnect an old prefix counts as a new one: an answer that parses but has no
  \<open>Prefix\<close> in its first nine tokens leaves the buffer as it was, and the client takes it for
  success whenever the buffer holds a prefix from before.\<close>

theorem decode_prefix_stale:
  assumes "jsmn_parse jsmn_init d stok 10 = Some (JSMN_SUCCESS, p, ts)" "9 \<le> length ts"
    and "\<forall>j < 9. token_string (recv_buf d sbuf) (ts ! j) ''Prefix'' = Some False"
    and "pre \<noteq> []" "NUL \<in> set pre"
  shows "decode_prefix d sbuf stok pre = Some (if hd pre = NUL then -1 else 0, pre)"
  using assms by (intro decode_prefix_parsed find_prefix_none) auto

theorem decode_prefix_stale_witness:
  "decode_prefix (print_obj []) (replicate 4096 NUL) (replicate 10 tok0) (''fd00::/64'' @ replicate 39 NUL) =
     Some (0, ''fd00::/64'' @ replicate 39 NUL)"
proof -
  let ?st = "replicate 10 tok0" and ?buf = "recv_buf (print_obj []) (replicate 4096 NUL)"
  obtain p where p: "jsmn_parse jsmn_init (print_obj []) ?st 10 = Some (JSMN_SUCCESS, p, obj_toks [] @ drop 1 ?st)"
    using jsmn_parse_obj [of "[]" ?st] by auto
  have "token_string ?buf tok0 ''Prefix'' = Some False"
    by (simp add: token_string_def tok_len_def tok0_def)
  moreover have "token_string ?buf (hd (obj_toks [])) ''Prefix'' = Some False"
    by (simp add: token_string_def tok_len_def obj_toks_def recv_buf_def aget_def numeral_2_eq_2)
  moreover have "(obj_toks [] @ drop 1 ?st) ! j = (if j = 0 then hd (obj_toks []) else tok0)" if "j < 9" for j
    using that by (simp add: obj_toks_def nth_Cons')
  ultimately have "\<forall>j < 9. token_string ?buf ((obj_toks [] @ drop 1 ?st) ! j) ''Prefix'' = Some False" by simp
  with decode_prefix_stale [OF p] show ?thesis by (simp add: obj_toks_def)
qed

lemma read_config_run:
  assumes "clean_item (Entry ''remotehost'' h)" "n < 2 ^ 31"
  shows "read_config (Some (print_ini
      [Section ''client'', Entry ''remotehost'' h, Entry ''remoteport'' (show_nat n)])) s =
    (let s' = s\<lparr>cfg := \<lparr>remotehost = Some h, remoteport = of_nat n\<rparr>\<rparr> in
     if n mod 65536 = 0 then Exit (-1) s' else Ret () s')"
proof -
  have "list_all clean_item [Section ''client'', Entry ''remotehost'' h, Entry ''remoteport'' (show_nat n)]"
    using assms clean_port [of n] by (simp del: clean_item.simps(2)) (simp add: MAX_SECTION_def)
  from ini_parse_print_items [OF this, of config_handler "cfg s"]
  have "ini_parse config_handler (Some (print_ini
      [Section ''client'', Entry ''remotehost'' h, Entry ''remoteport'' (show_nat n)])) (cfg s) =
      (0, \<lparr>remotehost = Some h, remoteport = of_nat n\<rparr>)"
    by (simp add: ini_parse_def config_handler_def atoi_show)
  moreover have "(of_nat n :: u16) = 0 \<longleftrightarrow> n mod 65536 = 0"
    by (simp add: word_of_nat_eq_0_iff mod_eq_0_iff_dvd)
  ultimately show ?thesis by (simp add: read_config_cases Let_def)
qed

text \<open>C28. The client reads back the configuration it was given: from a file with a host name and
  a port number it takes the host name and the number modulo 65536, and it goes on exactly
  when that port is not 0. A port of 65536 is refused as if it were missing.\<close>

theorem read_config_print:
  assumes "clean_item (Entry ''remotehost'' h)" "n < 2 ^ 31"
  shows "read_config (Some (print_ini
      [Section ''client'', Entry ''remotehost'' h, Entry ''remoteport'' (show_nat n)])) s =
    (let s' = s\<lparr>cfg := \<lparr>remotehost = Some h, remoteport = of_nat n\<rparr>\<rparr> in
     if n mod 65536 = 0 then Exit (-1) s' else Ret () s')"
  using assms by (rule read_config_run)

theorem read_config_print_witness:
  "read_config (Some (print_ini
      [Section ''client'', Entry ''remotehost'' ''a.b'', Entry ''remoteport'' (show_nat 65536)])) (example_client []) =
    Exit (-1) ((example_client [])\<lparr>cfg := \<lparr>remotehost = Some ''a.b'', remoteport = 0\<rparr>\<rparr>)"
  using read_config_print [of "''a.b''" 65536 "example_client []"]
  by (simp add: isspace_def)

text \<open>The read from the TUN device asks for 4906 bytes although its buffer has 4096: a packet
  of more than 4096 bytes is written past the end of the buffer.\<close>

lemma tun_read_overflow:
  assumes "script s = r # rs" "\<not> failed r" "4096 < length (data r)"
  shows "tun_ready s = Fault (s\<lparr>script := rs, trace := trace s @ [(Read (tun_file s) 4906, r)]\<rparr>)"
  using assms by (simp add: tun_ready_def seq_syscall payload_def fault_def)

lemma tun_read_overflow_witness:
  "\<exists>s'. tun_ready (example_client [data_reply (replicate 4097 CHR ''x'')]) = Fault s'"
  using tun_read_overflow [of "example_client [data_reply (replicate 4097 CHR ''x'')]" "data_reply (replicate 4097 CHR ''x'')" "[]"]
  by (simp add: failed_def)

text \<open>A server that is down is waited for: the client tries again after two seconds as often
  as it takes, on the same socket, and goes on with the first attempt that succeeds.\<close>

lemma connect_loop_retries:
  assumes "script s = concat (replicate k [r, q]) @ ok # rs" "failed r" "\<not> failed ok"
  shows "connect_loop s = Ret () (s\<lparr>script := rs, trace := trace s @
     concat (replicate k [(Connect (tcp_socket s), r), (Sleep 2, q)]) @ [(Connect (tcp_socket s), ok)]\<rparr>)"
  using assms by (rule connect_loop_retries_run)

lemma connect_loop_retries_witness:
  "\<exists>s'. connect_loop (example_client [err_reply 111, ok_reply 0, ok_reply 0]) = Ret () s' \<and> script s' = []"
  using connect_loop_retries [of "example_client [err_reply 111, ok_reply 0, ok_reply 0]" 1 "err_reply 111" "ok_reply 0" "ok_reply 0" "[]"]
  by (simp add: failed_def)

lemma find_upt_first:
  "i < n \<Longrightarrow> P i \<Longrightarrow> \<forall>j < i. \<not> P j \<Longrightarrow> find P [0..<n] = Some i"
  by (auto simp: find_Some_iff)

lemma slash_to_host_first:
  assumes "CHR ''/'' \<notin> set x" "length x < 4094"
  shows "slash_to_host (x @ CHR ''/'' # c # d # y) = x @ ''1  '' @ y"
proof -
  let ?b = "x @ CHR ''/'' # c # d # y"
  have "find (\<lambda>i. ?b ! i = CHR ''/'') [0..<4094] = Some (length x)"
    using assms by (intro find_upt_first) (auto simp: nth_append dest: nth_mem)
  then show ?thesis by (simp add: slash_to_host_def list_update_append)
qed

text \<open>The address of the interface: from a prefix \<open>a/64\<close> the client configures host number 1
  of the network, \<open>a1\<close>, whatever the command buffer held before.\<close>

lemma add_address_host:
  assumes "cstr (prefix s) = a @ ''/64''" "CHR ''/'' \<notin> set a" "CHR ''%'' \<notin> set a"
    and "length (prefix s) = 48" "script s = r # rs"
  shows "add_address cmdbuf s = Ret (rval r) (s\<lparr>script := rs, trace := trace s @
     [(System (''ifconfig ipv6-umich inet6 add '' @ a @ ''1  ''), r)]\<rparr>)"
proof -
  define x where "x = ''ifconfig ipv6-umich inet6 add '' @ a"
  have "NUL \<notin> set (a @ ''/64'')" unfolding assms(1) [symmetric] by simp
  then have x: "CHR ''/'' \<notin> set x" "CHR ''%'' \<notin> set x" "NUL \<notin> set x"
    using assms(2,3) by (auto simp: x_def)
  have "length (a @ ''/64'') \<le> 48" unfolding assms(1) [symmetric] using length_cstr_le [of "prefix s"] assms(4) by simp
  then have len: "length x < 100" by (simp add: x_def)
  have "\<exists>y. cmd_print (x @ ''/64'') cmdbuf = x @ CHR ''/'' # CHR ''6'' # CHR ''4'' # NUL # y"
    using len by (simp add: cmd_print_def Let_def)
  then obtain y where y: "cmd_print (x @ ''/64'') cmdbuf = x @ CHR ''/'' # CHR ''6'' # CHR ''4'' # NUL # y" ..
  have "slash_to_host (cmd_print (x @ ''/64'') cmdbuf) = (x @ ''1  '') @ NUL # y"
    using slash_to_host_first [of x] x(1) len unfolding y by simp
  then have "cstr (slash_to_host (cmd_print (x @ ''/64'') cmdbuf)) = x @ ''1  ''"
    using x(3) cstr_append_NUL [of "x @ ''1  ''" y] by simp
  moreover have "format_noargs (x @ ''1  '') = Some (x @ ''1  '')"
    using x(2) by (intro format_noargs_plain) simp
  moreover have "''ifconfig '' @ ifname @ '' inet6 add '' @ cstr (prefix s) = x @ ''/64''"
    unfolding assms(1) by (simp add: x_def ifname_def)
  ultimately show ?thesis
    using len assms(5) by (simp add: add_address_def ssystem_def seq_syscall ret_def x_def)
qed

lemma add_address_host_witness:
  "\<exists>s'. add_address (replicate 4096 NUL) ((example_client [ok_reply 0])\<lparr>prefix := ''fd00::/64'' @ replicate 39 NUL\<rparr>) =
     Ret 0 s' \<and> trace s' = [(System ''ifconfig ipv6-umich inet6 add fd00::1  '', ok_reply 0)]"
  using add_address_host [of "(example_client [ok_reply 0])\<lparr>prefix := ''fd00::/64'' @ replicate 39 NUL\<rparr>"
      "''fd00::''" "ok_reply 0" "[]" "replicate 4096 NUL"]
  by (simp add: cstr_Cons)

end
