(* ===== verification/Message.thy ===== *)
theory Message
  imports Prelude
begin

text \<open>
  The packet buffers of the radio stack (\<open>message_t\<close> with the header and metadata of
  \<open>CC2520LinuxRadio.h\<close>) and the commands on them: the \<open>PacketMetadata\<close> and \<open>Packet\<close> interfaces
  of \<open>CC2520LinuxRadioP.nc\<close>, the forwarders \<open>RadioPacketMetadataP.nc\<close>, \<open>ReadLqiP.nc\<close> and
  \<open>CC2520RpiAmPacketMetadataP.nc\<close>, and \<open>RadioPacket\<close> of \<open>CC2520RpiAmPacketP.nc\<close>. A pointer is a
  number, the memory a function from pointers to buffers. \<open>air\<close> holds the bytes from the start
  of the buffer: the length byte, the frame control field (two bytes, low byte first), the
  sequence number, and the rest of the packet.
\<close>

section \<open>Buffers\<close>

record message =
  air :: "u8 list"
  max_retries :: u16
  retry_delay :: u16
  timestamp_micro :: u64
  rssi :: u8
  lqi :: u8
  ack :: u8

type_synonym ptr = nat
type_synonym heap = "ptr \<Rightarrow> message"

definition msg_upd :: "ptr \<Rightarrow> (message \<Rightarrow> message) \<Rightarrow> heap \<Rightarrow> heap" where
  "msg_upd p f h = h(p := f (h p))"

lemma msg_upd_same [simp]: "msg_upd p f h p = f (h p)"
  by (simp add: msg_upd_def)

lemma msg_upd_other [simp]: "q \<noteq> p \<Longrightarrow> msg_upd p f h q = h q"
  by (simp add: msg_upd_def)

section \<open>The header\<close>

text \<open>The bytes of the header the code touches exist in every buffer.\<close>

definition message_ok :: "message \<Rightarrow> bool" where
  "message_ok m \<longleftrightarrow> 4 \<le> length (air m)"

definition hdr_length :: "message \<Rightarrow> u8" where
  "hdr_length m = air m ! 0"

definition set_hdr_length :: "u8 \<Rightarrow> message \<Rightarrow> message" where
  "set_hdr_length n m = m\<lparr>air := (air m)[0 := n]\<rparr>"

definition fcf :: "message \<Rightarrow> u16" where
  "fcf m = ucast (air m ! 1) + 256 * ucast (air m ! 2)"

definition set_fcf :: "u16 \<Rightarrow> message \<Rightarrow> message" where
  "set_fcf v m = m\<lparr>air := (air m)[1 := ucast v, 2 := ucast (drop_bit 8 v)]\<rparr>"

definition dsn :: "message \<Rightarrow> u8" where
  "dsn m = air m ! 3"

definition set_dsn :: "u8 \<Rightarrow> message \<Rightarrow> message" where
  "set_dsn n m = m\<lparr>air := (air m)[3 := n]\<rparr>"

text \<open>The acknowledgement request is bit 5 of the frame control field of IEEE 802.15.4.\<close>

definition IEEE154_FCF_ACK_REQ :: nat where "IEEE154_FCF_ACK_REQ = 5"

definition ack_requested :: "message \<Rightarrow> bool" where
  "ack_requested m \<longleftrightarrow> bit (fcf m) IEEE154_FCF_ACK_REQ"

section \<open>PacketMetadata\<close>

definition getLqi :: "heap \<Rightarrow> ptr \<Rightarrow> u8" where "getLqi h p = lqi (h p)"
definition getRssi :: "heap \<Rightarrow> ptr \<Rightarrow> u8" where "getRssi h p = rssi (h p)"
definition getTimestamp :: "heap \<Rightarrow> ptr \<Rightarrow> u64" where "getTimestamp h p = timestamp_micro (h p)"
definition setLqi :: "ptr \<Rightarrow> u8 \<Rightarrow> heap \<Rightarrow> heap" where "setLqi p v = msg_upd p (lqi_update (\<lambda>_. v))"
definition setRssi :: "ptr \<Rightarrow> u8 \<Rightarrow> heap \<Rightarrow> heap" where "setRssi p v = msg_upd p (rssi_update (\<lambda>_. v))"
definition setTimestamp :: "ptr \<Rightarrow> u64 \<Rightarrow> heap \<Rightarrow> heap" where
  "setTimestamp p t = msg_upd p (timestamp_micro_update (\<lambda>_. t))"
definition setRetries :: "ptr \<Rightarrow> u16 \<Rightarrow> heap \<Rightarrow> heap" where
  "setRetries p n = msg_upd p (max_retries_update (\<lambda>_. n))"
definition setRetryDelay :: "ptr \<Rightarrow> u16 \<Rightarrow> heap \<Rightarrow> heap" where
  "setRetryDelay p d = msg_upd p (retry_delay_update (\<lambda>_. d))"
definition getRetries :: "heap \<Rightarrow> ptr \<Rightarrow> u16" where "getRetries h p = max_retries (h p)"
definition getRetryDelay :: "heap \<Rightarrow> ptr \<Rightarrow> u16" where "getRetryDelay h p = retry_delay (h p)"

definition requestAck :: "ptr \<Rightarrow> heap \<Rightarrow> error_t \<times> heap" where
  "requestAck p h =
     (SUCCESS, msg_upd p (\<lambda>m. set_fcf (fcf m OR push_bit IEEE154_FCF_ACK_REQ 1) m) h)"

definition noAck :: "ptr \<Rightarrow> heap \<Rightarrow> error_t \<times> heap" where
  "noAck p h =
     (SUCCESS, msg_upd p (\<lambda>m. set_fcf (fcf m AND NOT (push_bit IEEE154_FCF_ACK_REQ 1)) m) h)"

definition wasAcked :: "heap \<Rightarrow> ptr \<Rightarrow> bool" where "wasAcked h p \<longleftrightarrow> ack (h p) \<noteq> 0"
definition setWasAcked :: "ptr \<Rightarrow> bool \<Rightarrow> heap \<Rightarrow> heap" where
  "setWasAcked p b = msg_upd p (ack_update (\<lambda>_. if b then 1 else 0))"

lemmas metadata_defs = getLqi_def getRssi_def getTimestamp_def setLqi_def setRssi_def
  setTimestamp_def setRetries_def setRetryDelay_def getRetries_def getRetryDelay_def
  wasAcked_def setWasAcked_def

text \<open>The forwarders: \<open>PacketLink\<close> and \<open>PacketAcknowledgements\<close> of \<open>RadioPacketMetadataP\<close>, the
  fields of \<open>CC2520RpiAmPacketMetadataP\<close> (always set, clearing them does nothing) and the
  readings of \<open>ReadLqiP\<close>.\<close>

definition wasDelivered :: "heap \<Rightarrow> ptr \<Rightarrow> bool" where "wasDelivered h p = wasAcked h p"
definition readLqi :: "heap \<Rightarrow> ptr \<Rightarrow> u8" where "readLqi h p = getLqi h p"
definition readRssi :: "heap \<Rightarrow> ptr \<Rightarrow> u8" where "readRssi h p = getRssi h p"
definition field_isSet :: "heap \<Rightarrow> ptr \<Rightarrow> bool" where "field_isSet h p = True"
definition field_clear :: "ptr \<Rightarrow> heap \<Rightarrow> heap" where "field_clear p h = h"

section \<open>Packet and RadioPacket\<close>

definition zero_message :: "message \<Rightarrow> message" where
  "zero_message m = \<lparr>air = replicate (length (air m)) 0, max_retries = 0, retry_delay = 0,
     timestamp_micro = 0, rssi = 0, lqi = 0, ack = 0\<rparr>"

definition packet_clear :: "ptr \<Rightarrow> heap \<Rightarrow> heap" where "packet_clear p = msg_upd p zero_message"
definition packet_payloadLength :: "heap \<Rightarrow> ptr \<Rightarrow> u8" where
  "packet_payloadLength h p = hdr_length (h p)"
definition packet_setPayloadLength :: "ptr \<Rightarrow> u8 \<Rightarrow> heap \<Rightarrow> heap" where
  "packet_setPayloadLength p n = msg_upd p (set_hdr_length n)"

text \<open>Below the active message layer the payload is the packet without its two CRC bytes.\<close>

definition radio_headerLength :: u8 where "radio_headerLength = 1"
definition radio_payloadLength :: "heap \<Rightarrow> ptr \<Rightarrow> u8" where
  "radio_payloadLength h p = hdr_length (h p) - 2"
definition radio_setPayloadLength :: "ptr \<Rightarrow> u8 \<Rightarrow> heap \<Rightarrow> heap" where
  "radio_setPayloadLength p n = msg_upd p (set_hdr_length (n + 2))"
definition radio_maxPayloadLength :: u8 where "radio_maxPayloadLength = 128 - 1 - 2"

section \<open>The interface\<close>

text \<open>What the layers above rely on: a field reads back what was written last, through the same
  pointer, and nothing else of any buffer changes that they look at.\<close>

locale packet_metadata =
  fixes get_retries :: "'h \<Rightarrow> 'p \<Rightarrow> u16"
    and set_retries :: "'p \<Rightarrow> u16 \<Rightarrow> 'h \<Rightarrow> 'h"
    and get_delay :: "'h \<Rightarrow> 'p \<Rightarrow> u16"
    and was_acked :: "'h \<Rightarrow> 'p \<Rightarrow> bool"
    and set_acked :: "'p \<Rightarrow> bool \<Rightarrow> 'h \<Rightarrow> 'h"
    and request :: "'p \<Rightarrow> 'h \<Rightarrow> error_t \<times> 'h"
  assumes retries_set: "get_retries (set_retries p n h) q = (if q = p then n else get_retries h q)"
    and delay_retries: "get_delay (set_retries p n h) q = get_delay h q"
    and acked_retries: "was_acked (set_retries p n h) q = was_acked h q"
    and acked_set: "was_acked (set_acked p b h) q = (if q = p then b else was_acked h q)"
    and retries_acked: "get_retries (set_acked p b h) q = get_retries h q"
    and delay_acked: "get_delay (set_acked p b h) q = get_delay h q"
    and retries_request: "get_retries (snd (request p h)) q = get_retries h q"
    and delay_request: "get_delay (snd (request p h)) q = get_delay h q"
    and acked_request: "was_acked (snd (request p h)) q = was_acked h q"
begin

lemmas laws = retries_set delay_retries acked_retries acked_set retries_acked delay_acked
  retries_request delay_request acked_request

text \<open>However often the layer below reports on a packet, its link settings stay and the last
  report counts.\<close>

lemma reports:
  "get_retries (fold (set_acked p) bs h) q = get_retries h q"
  "get_delay (fold (set_acked p) bs h) q = get_delay h q"
  "bs \<noteq> [] \<Longrightarrow> was_acked (fold (set_acked p) bs h) p = last bs"
proof -
  show "get_retries (fold (set_acked p) bs h) q = get_retries h q"
    by (induction bs arbitrary: h) (simp_all add: laws)
  show "get_delay (fold (set_acked p) bs h) q = get_delay h q"
    by (induction bs arbitrary: h) (simp_all add: laws)
  show "bs \<noteq> [] \<Longrightarrow> was_acked (fold (set_acked p) bs h) p = last bs"
    by (induction bs rule: rev_induct) (simp_all add: laws)
qed

end

interpretation pm: packet_metadata getRetries setRetries getRetryDelay wasAcked setWasAcked requestAck
  by unfold_locales (simp_all add: metadata_defs requestAck_def msg_upd_def set_fcf_def)

section \<open>Header fields\<close>

lemma set_hdr_length_get [simp]: "message_ok m \<Longrightarrow> hdr_length (set_hdr_length n m) = n"
  by (cases "air m") (simp_all add: message_ok_def hdr_length_def set_hdr_length_def)

lemma message_ok_updates [simp]:
  "message_ok (set_hdr_length n m) = message_ok m" "message_ok (set_fcf v m) = message_ok m"
  "message_ok (set_dsn n m) = message_ok m"
  by (simp_all add: message_ok_def set_hdr_length_def set_fcf_def set_dsn_def)

lemma bit_fcf:
  "bit (fcf m) n \<longleftrightarrow> (if n < 8 then bit (air m ! 1) n else n < 16 \<and> bit (air m ! 2) (n - 8))"
proof -
  have "fcf m = ucast (air m ! 1) OR push_bit 8 (ucast (air m ! 2))"
  proof -
    have "ucast (air m ! 1) AND push_bit 8 (ucast (air m ! 2)) = (0 :: u16)"
      by (rule bit_word_eqI) (auto simp: bit_simps dest: bit_imp_le_length)
    then have "ucast (air m ! 1) + push_bit 8 (ucast (air m ! 2)) = ucast (air m ! 1) OR (push_bit 8 (ucast (air m ! 2)) :: u16)"
      by (rule disjunctive_add_eq_or)
    then show ?thesis by (simp add: fcf_def push_bit_eq_mult mult.commute)
  qed
  then show ?thesis by (auto simp: bit_simps dest: bit_imp_le_length)
qed

lemma fcf_set_fcf [simp]:
  assumes "message_ok m"
  shows "fcf (set_fcf v m) = v"
proof (rule bit_word_eqI)
  fix n assume "n < LENGTH(16)"
  moreover have "(air m)[1 := x, 2 := y] ! 1 = x" "(air m)[1 := x, 2 := y] ! 2 = y" for x y :: u8
    using assms by (simp_all add: message_ok_def)
  ultimately show "bit (fcf (set_fcf v m)) n = bit v n"
    by (auto simp: bit_fcf set_fcf_def bit_simps)
qed

lemma set_fcf_rest: "i \<noteq> 1 \<Longrightarrow> i \<noteq> 2 \<Longrightarrow> air (set_fcf v m) ! i = air m ! i"
  by (simp add: set_fcf_def)

lemma length_set_fcf [simp]: "length (air (set_fcf v m)) = length (air m)"
  by (simp add: set_fcf_def)

lemma bit_ack_mask: "bit (2 ^ IEEE154_FCF_ACK_REQ :: u16) n \<longleftrightarrow> n = IEEE154_FCF_ACK_REQ"
  unfolding bit_exp_iff by (auto simp: possible_bit_def) (simp add: IEEE154_FCF_ACK_REQ_def)

lemma bit_fcf_length: "bit (fcf m) n \<Longrightarrow> n < 16"
  using bit_imp_le_length [of "fcf m" n] by simp

section \<open>Properties\<close>

text \<open>Asking for an acknowledgement, and not asking, sets and clears exactly bit 5 of the
  frame control field: every other bit of it, every other byte of the packet, its metadata
  and every other buffer stay.\<close>

lemma ack_request_bit:
  assumes "message_ok (h p)" and "h' = snd (if b then requestAck p h else noAck p h)"
  shows "ack_requested (h' p) = b \<and>
    (\<forall>n. n \<noteq> IEEE154_FCF_ACK_REQ \<longrightarrow> bit (fcf (h' p)) n = bit (fcf (h p)) n) \<and>
    (\<forall>i. i \<noteq> 1 \<and> i \<noteq> 2 \<longrightarrow> air (h' p) ! i = air (h p) ! i) \<and>
    length (air (h' p)) = length (air (h p)) \<and>
    h' p = (h p)\<lparr>air := air (h' p)\<rparr> \<and>
    (\<forall>q. q \<noteq> p \<longrightarrow> h' q = h q)"
proof -
  define v where "v = (if b then fcf (h p) OR push_bit IEEE154_FCF_ACK_REQ 1
    else fcf (h p) AND NOT (push_bit IEEE154_FCF_ACK_REQ 1))"
  have h': "h' = msg_upd p (set_fcf v) h"
    using assms(2) by (auto simp: requestAck_def noAck_def v_def msg_upd_def)
  have "bit v n = (if n = IEEE154_FCF_ACK_REQ then b else bit (fcf (h p)) n)" for n
    by (auto simp: v_def bit_or_iff bit_and_iff bit_not_iff bit_ack_mask dest: bit_fcf_length)
  with assms(1) show ?thesis
    by (auto simp: h' ack_requested_def set_fcf_rest) (simp_all add: set_fcf_def)
qed

definition blank :: message where
  "blank = \<lparr>air = replicate 129 0, max_retries = 0, retry_delay = 0, timestamp_micro = 0, rssi = 0, lqi = 0, ack = 0\<rparr>"

lemma blank_ok: "message_ok blank"
  by (simp add: message_ok_def blank_def)

lemma ack_request_bit_witness:
  "ack_requested (snd (requestAck 7 (\<lambda>_. blank)) 7) \<and> \<not> ack_requested (snd (noAck 7 (\<lambda>_. blank)) 7)"
  using ack_request_bit [of "\<lambda>_. blank" 7 "snd (requestAck 7 (\<lambda>_. blank))" True]
    ack_request_bit [of "\<lambda>_. blank" 7 "snd (noAck 7 (\<lambda>_. blank))" False] blank_ok by simp

end
