(* ===== verification/Link.thy ===== *)
theory Link
  imports Message
begin

text \<open>
  The link layer of the radio stack (\<open>CC2520LinuxLinkP.nc\<close>): it sends a packet again until it
  is acknowledged or its number of tries is used up. The component's variables come first in
  the state; then the memory, what is under way outside the component (a posted task, a
  running timer, a packet the layer below has), and the events so far. The operations are the
  task, the event handlers and the commands; \<open>link_step\<close> lets them happen in any order the
  system allows.
\<close>

section \<open>The component\<close>

definition STATE_READY :: u8 where "STATE_READY = 0"
definition STATE_SENDING :: u8 where "STATE_SENDING = 1"
definition STATE_SENDDONE :: u8 where "STATE_SENDDONE = 2"
definition STATE_SIGNAL :: u8 where "STATE_SIGNAL = 4"

lemmas state_defs = STATE_READY_def STATE_SENDING_def STATE_SENDDONE_def STATE_SIGNAL_def

datatype link_event =
    Accepted ptr u16
  | SubSent ptr
  | SubCancelled ptr
  | Done ptr error_t bool

record link =
  state :: u8
  currentMsg :: ptr
  totalRetries :: u16

record link_sys = link +
  mem :: heap
  posted :: bool
  timer :: "u16 option"
  sub :: "ptr list"
  events :: "link_event list"

definition link_init :: "heap \<Rightarrow> link_sys" where
  "link_init h = \<lparr>state = STATE_READY, currentMsg = 0, totalRetries = 0, mem = h,
     posted = False, timer = None, sub = [], events = []\<rparr>"

section \<open>The task\<close>

text \<open>\<open>SubSend.send\<close> gives its result; when it accepts the packet a \<open>sendDone\<close> will follow.\<close>

definition sub_send :: "error_t \<Rightarrow> link_sys \<Rightarrow> link_sys" where
  "sub_send r s =
     (let s = s\<lparr>events := events s @ [SubSent (currentMsg s)]\<rparr> in
      if r \<noteq> SUCCESS then s\<lparr>posted := True\<rparr> else s\<lparr>sub := sub s @ [currentMsg s]\<rparr>)"

text \<open>The first part of the task; the flag tells that it returned to wait for the timer.\<close>

definition after_sendDone :: "link_sys \<Rightarrow> link_sys \<times> bool" where
  "after_sendDone s =
     (let retries = getRetries (mem s) (currentMsg s) in
      if state s \<noteq> STATE_SENDDONE then (s, False)
      else if retries = 0 \<or> wasAcked (mem s) (currentMsg s) then (s\<lparr>state := STATE_SIGNAL + SUCCESS\<rparr>, False)
      else
        (let s = s\<lparr>totalRetries := totalRetries s + 1\<rparr> in
         if totalRetries s < retries then
           (let s = s\<lparr>state := STATE_SENDING\<rparr>; delay = getRetryDelay (mem s) (currentMsg s) in
            if 0 < delay then (s\<lparr>timer := Some delay\<rparr>, True) else (s, False))
         else (s\<lparr>state := STATE_SIGNAL + FAIL\<rparr>, False)))"

definition signal_done :: "u16 \<Rightarrow> link_sys \<Rightarrow> link_sys" where
  "signal_done retries s =
     (let err = state s - STATE_SIGNAL;
          s = (if 0 < retries then s\<lparr>mem := setRetries (currentMsg s) (totalRetries s) (mem s)\<rparr> else s)
      in s\<lparr>state := STATE_READY,
           events := events s @ [Done (currentMsg s) err (wasAcked (mem s) (currentMsg s))]\<rparr>)"

definition send_task :: "error_t \<Rightarrow> link_sys \<Rightarrow> link_sys" where
  "send_task r s0 =
     (let retries = getRetries (mem s0) (currentMsg s0);
          (s, returned) = after_sendDone s0
      in if returned then s
         else if state s = STATE_SENDING then sub_send r (s\<lparr>state := STATE_SENDDONE\<rparr>)
         else if STATE_SIGNAL \<le> state s then signal_done retries s
         else s)"

section \<open>Events and commands\<close>

definition sub_sendDone :: "ptr \<Rightarrow> error_t \<Rightarrow> link_sys \<Rightarrow> link_sys" where
  "sub_sendDone m err s =
     (if err \<noteq> SUCCESS then s\<lparr>state := STATE_SIGNAL + err\<rparr> else s)\<lparr>posted := True\<rparr>"

definition timer_fired :: "link_sys \<Rightarrow> link_sys" where
  "timer_fired s = s\<lparr>posted := True\<rparr>"

definition link_send :: "ptr \<Rightarrow> link_sys \<Rightarrow> error_t \<times> link_sys" where
  "link_send m s =
     (if state s \<noteq> STATE_READY then (EBUSY, s)
      else
        (let s = (if 0 < getRetries (mem s) m then s\<lparr>mem := snd (requestAck m (mem s))\<rparr> else s)
         in (SUCCESS, s\<lparr>currentMsg := m, totalRetries := 0, state := STATE_SENDING, posted := True,
              events := events s @ [Accepted m (getRetries (mem s) m)]\<rparr>)))"

definition link_cancel :: "ptr \<Rightarrow> link_sys \<Rightarrow> error_t \<times> link_sys" where
  "link_cancel m s =
     (if currentMsg s \<noteq> m \<or> state s = STATE_READY then (FAIL, s)
      else
        (let s = (if state s = STATE_SENDDONE then s\<lparr>events := events s @ [SubCancelled m]\<rparr>
                  else s\<lparr>posted := True\<rparr>)
         in (SUCCESS, s\<lparr>timer := None, state := STATE_SIGNAL + ECANCEL\<rparr>)))"

section \<open>The steps of the system\<close>

text \<open>A posted task runs once; the layer below answers the packets it accepted in
  their order, each once, after it
  noted whether the packet was acknowledged (\<open>Some b\<close>) or without (\<open>None\<close>), always with
  \<open>SUCCESS\<close> as \<open>CC2520LinuxSendP\<close> does, and its \<open>cancel\<close> has no effect; the timer fires once.
  The application may write any buffer it has not handed over. \<open>again\<close> tells whether it
  cancels a packet a second time.\<close>

definition report :: "ptr \<Rightarrow> bool option \<Rightarrow> heap \<Rightarrow> heap" where
  "report m b h = (case b of None \<Rightarrow> h | Some a \<Rightarrow> setWasAcked m a h)"

inductive link_step :: "bool \<Rightarrow> link_sys \<Rightarrow> link_sys \<Rightarrow> bool" for again where
  task: "posted s \<Longrightarrow> link_step again s (send_task r (s\<lparr>posted := False\<rparr>))"
| sub: "sub s = m # ms \<Longrightarrow>
    link_step again s (sub_sendDone m SUCCESS (s\<lparr>sub := ms, mem := report m b (mem s)\<rparr>))"
| timer: "timer s = Some d \<Longrightarrow> link_step again s (timer_fired (s\<lparr>timer := None\<rparr>))"
| send: "link_step again s (snd (link_send m s))"
| cancel: "again \<or> state s < STATE_SIGNAL \<Longrightarrow> link_step again s (snd (link_cancel m s))"
| app: "state s = STATE_READY \<or> h (currentMsg s) = mem s (currentMsg s) \<Longrightarrow>
    link_step again s (s\<lparr>mem := h\<rparr>)"

inductive_cases link_stepE: "link_step again s t"

inductive link_reach :: "bool \<Rightarrow> link_sys \<Rightarrow> bool" for again where
  init: "link_reach again (link_init h)"
| step: "link_reach again s \<Longrightarrow> link_step again s t \<Longrightarrow> link_reach again t"

section \<open>What can be observed\<close>

text \<open>What goes over the interfaces of the layer: a packet taken from the application, with its
  tries and the acknowledgement flag its buffer has at that time; a packet passed down and
  the answer to it (\<open>Some b\<close> when the layer below noted an acknowledgement or its absence);
  a cancel the layer accepted, and one it passed down; and a report to the application.\<close>

datatype obs =
    Took ptr u16 bool
  | Passed ptr
  | Answered ptr "bool option"
  | CancelAsked ptr
  | CancelPassed ptr
  | Reported ptr error_t bool

fun observe :: "heap \<Rightarrow> link_event \<Rightarrow> obs" where
  "observe h (Accepted m n) = Took m n (wasAcked h m)"
| "observe h (SubSent m) = Passed m"
| "observe h (SubCancelled m) = CancelPassed m"
| "observe h (Done m err a) = Reported m err a"

definition new_obs :: "link_sys \<Rightarrow> link_sys \<Rightarrow> obs list" where
  "new_obs s t = map (observe (mem t)) (drop (length (events s)) (events t))"

text \<open>The states the system reaches without a second cancel, each with all that was observed on
  the way: the steps are those of \<open>link_step\<close>.\<close>

inductive link_hist :: "link_sys \<Rightarrow> obs list \<Rightarrow> bool" where
  init: "link_hist (link_init h) []"
| task: "link_hist s es \<Longrightarrow> posted s \<Longrightarrow> t = send_task r (s\<lparr>posted := False\<rparr>) \<Longrightarrow> link_hist t (es @ new_obs s t)"
| sub: "link_hist s es \<Longrightarrow> sub s = m # ms \<Longrightarrow>
    link_hist (sub_sendDone m SUCCESS (s\<lparr>sub := ms, mem := report m b (mem s)\<rparr>)) (es @ [Answered m b])"
| timer: "link_hist s es \<Longrightarrow> timer s = Some d \<Longrightarrow> link_hist (timer_fired (s\<lparr>timer := None\<rparr>)) es"
| send: "link_hist s es \<Longrightarrow> t = snd (link_send m s) \<Longrightarrow> link_hist t (es @ new_obs s t)"
| cancel: "link_hist s es \<Longrightarrow> state s < STATE_SIGNAL \<Longrightarrow> link_cancel m s = (r, t) \<Longrightarrow>
    link_hist t (es @ (if r = SUCCESS then [CancelAsked m] else []) @ new_obs s t)"
| app: "link_hist s es \<Longrightarrow> state s = STATE_READY \<or> h (currentMsg s) = mem s (currentMsg s) \<Longrightarrow>
    link_hist (s\<lparr>mem := h\<rparr>) es"

lemma link_hist_reach: "link_hist s es \<Longrightarrow> link_reach False s"
proof (induction rule: link_hist.induct)
  case (cancel s es m r t)
  then have "t = snd (link_cancel m s)" by simp
  moreover have "link_step False s (snd (link_cancel m s))" using cancel by (intro link_step.cancel) simp
  ultimately show ?case using cancel by (auto intro: link_reach.step)
qed (auto intro: link_reach.intros link_step.intros)

lemma link_reach_hist: "link_reach False s \<Longrightarrow> \<exists>es. link_hist s es"
proof (induction rule: link_reach.induct)
  case (step s t)
  then obtain es where es: "link_hist s es" by blast
  from step(2) show ?case
  proof (cases rule: link_step.cases)
    case (cancel m)
    then show ?thesis using link_hist.cancel [OF es, of m "fst (link_cancel m s)" t] by auto
  qed (use es in \<open>blast intro: link_hist.intros\<close>)+
qed (blast intro: link_hist.init)

section \<open>What the layer promises\<close>

text \<open>The promise as a monitor of what is observed. \<open>Handling m n k c f\<close>: packet \<open>m\<close> with \<open>n\<close> tries is
  open, was passed down \<open>k\<close> times, was cancelled (\<open>c\<close>), and \<open>f\<close> is its acknowledgement: what its
  buffer said at the start, then what the layer below noted last. It is passed down when it
  was not yet, and again only while it is not acknowledged and has tries left, never after a
  cancel; it is reported as cancelled exactly when it was cancelled, and otherwise, after it was
  passed down, as sent exactly when it is acknowledged or asked for no acknowledgement, and as
  failed when all its tries were used without one.\<close>

datatype lmon = Quiet | Handling ptr u16 nat bool bool | Broken

fun lmon_step :: "lmon \<Rightarrow> obs \<Rightarrow> lmon" where
  "lmon_step Quiet (Took m n f) = Handling m n 0 False f"
| "lmon_step (Handling m n k c f) (Passed p) =
     (if p = m \<and> \<not> c \<and> (k = 0 \<or> \<not> f \<and> k < unat n) then Handling m n (Suc k) c f else Broken)"
| "lmon_step (Handling m n k c f) (Answered p b) =
     (if p = m \<and> 0 < k then Handling m n k c (case b of None \<Rightarrow> f | Some a \<Rightarrow> a) else Broken)"
| "lmon_step (Handling m n k c f) (CancelAsked p) = (if p = m \<and> \<not> c then Handling m n k True f else Broken)"
| "lmon_step (Handling m n k c f) (CancelPassed p) = (if p = m \<and> c \<and> 0 < k then Handling m n k c f else Broken)"
| "lmon_step (Handling m n k c f) (Reported p err a) =
     (if p = m \<and> a = f \<and>
       (if c then err = ECANCEL
        else 0 < k \<and> (if n = 0 \<or> f then err = SUCCESS else err = FAIL \<and> k = unat n))
      then Quiet else Broken)"
| "lmon_step _ _ = Broken"

definition lmon_run :: "obs list \<Rightarrow> lmon" where
  "lmon_run es = foldl lmon_step Quiet es"

lemma lmon_run_Nil [simp]: "lmon_run [] = Quiet"
  by (simp add: lmon_run_def)

lemma lmon_run_append [simp]: "lmon_run (es @ ds) = foldl lmon_step (lmon_run es) ds"
  by (simp add: lmon_run_def)

section \<open>The invariant\<close>

text \<open>What is under way in each state: exactly one thing while a packet is handled.\<close>

definition under_way :: "link_sys \<Rightarrow> bool" where
  "under_way s \<longleftrightarrow>
     (if state s = STATE_READY then \<not> posted s \<and> timer s = None \<and> sub s = []
      else posted s \<and> timer s = None \<and> sub s = [] \<or>
        \<not> posted s \<and> timer s \<noteq> None \<and> sub s = [] \<and> state s = STATE_SENDING \<or>
        \<not> posted s \<and> timer s = None \<and> sub s = [currentMsg s] \<and>
          (state s = STATE_SENDDONE \<or> state s = STATE_SIGNAL + ECANCEL))"

text \<open>The tries so far, and what the monitor knows.\<close>

definition tries :: "link_sys \<Rightarrow> nat \<Rightarrow> bool" where
  "tries s k \<longleftrightarrow>
     (let n = max 1 (unat (getRetries (mem s) (currentMsg s))) in
      if state s = STATE_SENDING
      then k = unat (totalRetries s) \<and> k < n \<and> (k = 0 \<or> \<not> wasAcked (mem s) (currentMsg s))
      else if state s = STATE_SENDDONE then k = Suc (unat (totalRetries s)) \<and> k \<le> n
      else state s = STATE_SIGNAL + ECANCEL \<and> (sub s = [] \<or> 0 < k))"

definition opened :: "link_sys \<Rightarrow> obs list \<Rightarrow> nat \<Rightarrow> bool" where
  "opened s es k \<longleftrightarrow> lmon_run es = Handling (currentMsg s) (getRetries (mem s) (currentMsg s)) k
     (state s = STATE_SIGNAL + ECANCEL) (wasAcked (mem s) (currentMsg s))"

definition link_inv :: "link_sys \<Rightarrow> obs list \<Rightarrow> bool" where
  "link_inv s es \<longleftrightarrow> under_way s \<and>
     (if state s = STATE_READY then lmon_run es = Quiet else \<exists>k. opened s es k \<and> tries s k)"

lemma link_inv_init: "link_inv (link_init h) []"
  by (simp add: link_inv_def link_init_def under_way_def)

lemma unat_inc: "unat (t :: u16) < unat (r :: u16) \<Longrightarrow> unat (t + 1) = Suc (unat t)"
proof -
  assume lt: "unat t < unat r"
  have "unat r < 2 ^ LENGTH(16)" by (rule unsigned_less)
  with lt show ?thesis by (simp add: unat_word_ariths)
qed

lemmas busy_simps = link_inv_def under_way_def opened_def tries_def state_defs Let_def

lemma states:
  "link_inv s es \<Longrightarrow> state s \<in> {STATE_READY, STATE_SENDING, STATE_SENDDONE, STATE_SIGNAL + ECANCEL}"
  by (auto simp: link_inv_def tries_def Let_def split: if_splits)

text \<open>Passing the packet down, and reporting to the application.\<close>

lemma sub_send_inv:
  assumes "\<not> posted s" "timer s = None" "sub s = []" "events s = ds"
    and "lmon_run es = Handling (currentMsg s) (getRetries (mem s) (currentMsg s)) k False (wasAcked (mem s) (currentMsg s))"
    and "k = unat (totalRetries s)" "k < max 1 (unat (getRetries (mem s) (currentMsg s)))"
    and "k = 0 \<or> \<not> wasAcked (mem s) (currentMsg s)"
    and "t = sub_send r (s\<lparr>state := STATE_SENDDONE\<rparr>)"
  shows "link_inv t (es @ map (observe (mem t)) (drop (length ds) (events t)))"
  using assms by (auto simp: sub_send_def busy_simps less_max_iff_disj)

lemma signal_done_inv:
  assumes "\<not> posted s" "timer s = None" "sub s = []" "events s = ds"
    and "lmon_run es = Handling (currentMsg s) n k c (wasAcked (mem s) (currentMsg s))"
    and "e = state s - STATE_SIGNAL"
    and "if c then e = ECANCEL
      else 0 < k \<and> (if n = 0 \<or> wasAcked (mem s) (currentMsg s) then e = SUCCESS else e = FAIL \<and> k = unat n)"
    and "t = signal_done n s"
  shows "link_inv t (es @ map (observe (mem t)) (drop (length ds) (events t)))"
proof -
  have "events t = events s @ [Done (currentMsg s) e (wasAcked (mem s) (currentMsg s))]"
    using assms(6,8) by (simp add: signal_done_def Let_def pm.acked_retries)
  then have "lmon_run (es @ map (observe (mem t)) (drop (length ds) (events t))) = Quiet"
    using assms(4,5,7) by simp
  moreover have "state t = STATE_READY" "\<not> posted t" "timer t = None" "sub t = []"
    using assms by (simp_all add: signal_done_def Let_def)
  ultimately show ?thesis by (simp add: link_inv_def under_way_def)
qed

lemma send_task_inv:
  assumes inv: "link_inv s es" and "posted s" and t: "t = send_task r (s\<lparr>posted := False\<rparr>)"
  shows "link_inv t (es @ new_obs s t)"
proof -
  let ?s = "s\<lparr>posted := False\<rparr>" and ?n = "getRetries (mem s) (currentMsg s)"
    and ?f = "wasAcked (mem s) (currentMsg s)"
  have st: "state s \<noteq> STATE_READY" "timer s = None" "sub s = []"
    using assms by (auto simp: link_inv_def under_way_def split: if_splits)
  then obtain k where mon: "lmon_run es = Handling (currentMsg s) ?n k (state s = STATE_SIGNAL + ECANCEL) ?f"
    and k: "tries s k"
    using inv by (auto simp: link_inv_def opened_def)
  consider (sending) "state s = STATE_SENDING" | (senddone) "state s = STATE_SENDDONE"
    | (cancelled) "state s = STATE_SIGNAL + ECANCEL"
    using states [OF inv] st by auto
  then show ?thesis
  proof cases
    case sending
    then have "t = sub_send r (?s\<lparr>state := STATE_SENDDONE\<rparr>)"
      by (simp add: t send_task_def after_sendDone_def state_defs)
    then show ?thesis
      using st mon k sending unfolding new_obs_def
      by (intro sub_send_inv [where k = k and s = ?s]) (auto simp: tries_def state_defs Let_def)
  next
    case cancelled
    then have "t = signal_done ?n ?s"
      by (simp add: t send_task_def after_sendDone_def state_defs)
    then show ?thesis
      using st mon cancelled unfolding new_obs_def
      by (intro signal_done_inv [where e = ECANCEL and s = ?s and c = True and k = k]) simp_all
  next
    case senddone
    then have kt: "k = Suc (unat (totalRetries s))" "k \<le> max 1 (unat ?n)"
      using k by (simp_all add: tries_def state_defs Let_def)
    have mon: "lmon_run es = Handling (currentMsg s) ?n k False ?f"
      using mon senddone by (simp add: state_defs)
    consider (ok) "?n = 0 \<or> ?f" | (again) "?n \<noteq> 0" "\<not> ?f" "totalRetries s + 1 < ?n"
      | (failed) "?n \<noteq> 0" "\<not> ?f" "\<not> totalRetries s + 1 < ?n" by blast
    then show ?thesis
    proof cases
      case ok
      then have "t = signal_done ?n (?s\<lparr>state := STATE_SIGNAL + SUCCESS\<rparr>)"
        using senddone by (simp add: t send_task_def after_sendDone_def state_defs Let_def)
      then show ?thesis
        using st mon ok kt unfolding new_obs_def
        by (intro signal_done_inv [where e = SUCCESS and c = False and k = k
            and s = "?s\<lparr>state := STATE_SIGNAL + SUCCESS\<rparr>"]) auto
    next
      case again
      then have n: "0 < unat ?n" by (simp add: unat_gt_0)
      with kt have inc: "unat (totalRetries s + 1) = Suc (unat (totalRetries s))" by (intro unat_inc [where r = ?n]) auto
      let ?t = "?s\<lparr>totalRetries := totalRetries s + 1\<rparr>"
      show ?thesis
      proof (cases "0 < getRetryDelay (mem s) (currentMsg s)")
        case True
        then have "t = ?t\<lparr>state := STATE_SENDING, timer := Some (getRetryDelay (mem s) (currentMsg s))\<rparr>"
          using senddone again by (simp add: t send_task_def after_sendDone_def Let_def)
        then show ?thesis
          using st mon kt inc again(2,3) by (simp add: busy_simps new_obs_def word_less_nat_alt)
      next
        case False
        then have "t = sub_send r (?t\<lparr>state := STATE_SENDDONE\<rparr>)"
          using senddone again by (simp add: t send_task_def after_sendDone_def Let_def)
        then show ?thesis
          using st mon kt inc again(2,3) unfolding new_obs_def
          by (intro sub_send_inv [where k = k and s = ?t]) (simp_all add: word_less_nat_alt)
      qed
    next
      case failed
      then have n: "0 < unat ?n" by (simp add: unat_gt_0)
      with kt have inc: "unat (totalRetries s + 1) = Suc (unat (totalRetries s))" by (intro unat_inc [where r = ?n]) auto
      let ?t = "?s\<lparr>totalRetries := totalRetries s + 1, state := STATE_SIGNAL + FAIL\<rparr>"
      have "t = signal_done ?n ?t"
        using senddone failed by (simp add: t send_task_def after_sendDone_def state_defs Let_def)
      then show ?thesis
        using st mon kt inc failed n unfolding new_obs_def
        by (intro signal_done_inv [where e = FAIL and c = False and k = k and s = ?t])
           (auto simp: word_less_nat_alt word_gt_0)
    qed
  qed
qed

lemma sub_sendDone_inv:
  assumes inv: "link_inv s es" and sub: "sub s = m # ms"
  shows "link_inv (sub_sendDone m SUCCESS (s\<lparr>sub := ms, mem := report m b (mem s)\<rparr>)) (es @ [Answered m b])"
proof -
  have r: "getRetries (report m b (mem s)) (currentMsg s) = getRetries (mem s) (currentMsg s)"
    by (simp add: report_def pm.retries_acked split: option.split)
  have w: "wasAcked (report m b (mem s)) m = (case b of None \<Rightarrow> wasAcked (mem s) m | Some a \<Rightarrow> a)"
    by (simp add: report_def pm.acked_set split: option.split)
  have "m = currentMsg s" "ms = []" "state s = STATE_SENDDONE \<or> state s = STATE_SIGNAL + ECANCEL"
    "\<not> posted s" "timer s = None" "state s \<noteq> STATE_READY"
    using assms by (auto simp: link_inv_def under_way_def split: if_splits)
  moreover from this obtain k where "opened s es k" "tries s k" using inv by (auto simp: link_inv_def)
  ultimately show ?thesis
    using r w sub by (auto simp: busy_simps sub_sendDone_def)
qed

lemma timer_fired_inv: "link_inv s es \<Longrightarrow> timer s = Some d \<Longrightarrow> link_inv (timer_fired (s\<lparr>timer := None\<rparr>)) es"
  by (auto simp: link_inv_def under_way_def opened_def tries_def timer_fired_def Let_def split: if_splits)

lemma link_send_inv:
  assumes inv: "link_inv s es" and t: "t = snd (link_send m s)"
  shows "link_inv t (es @ new_obs s t)"
proof (cases "state s = STATE_READY")
  case True
  then have "lmon_run es = Quiet" "\<not> posted s" "timer s = None" "sub s = []"
    using inv by (simp_all add: link_inv_def under_way_def)
  with True show ?thesis
    by (simp add: t link_send_def new_obs_def busy_simps pm.laws)
qed (use inv t in \<open>simp add: link_send_def new_obs_def\<close>)

lemma link_cancel_inv:
  assumes inv: "link_inv s es" and "state s < STATE_SIGNAL" and t: "link_cancel m s = (r, t)"
  shows "link_inv t (es @ (if r = SUCCESS then [CancelAsked m] else []) @ new_obs s t)"
proof (cases "currentMsg s = m \<and> state s \<noteq> STATE_READY")
  case True
  then have "state s = STATE_SENDING \<or> state s = STATE_SENDDONE"
    using states [OF inv] assms(2) by (auto simp: state_defs)
  moreover from True obtain k where "opened s es k" "tries s k" using inv by (auto simp: link_inv_def)
  moreover have "under_way s" using inv by (simp add: link_inv_def)
  ultimately show ?thesis
    using True t by (auto simp: link_cancel_def new_obs_def busy_simps split: if_splits)
qed (use inv t in \<open>auto simp: link_cancel_def new_obs_def\<close>)

lemma app_inv:
  "link_inv s es \<Longrightarrow> state s = STATE_READY \<or> h (currentMsg s) = mem s (currentMsg s) \<Longrightarrow> link_inv (s\<lparr>mem := h\<rparr>) es"
  by (auto simp: link_inv_def under_way_def opened_def tries_def getRetries_def wasAcked_def Let_def split: if_splits)

lemma link_hist_inv: "link_hist s es \<Longrightarrow> link_inv s es"
proof (induction rule: link_hist.induct)
  case (cancel s es m r t)
  then show ?case by (intro link_cancel_inv)
qed (auto intro: link_inv_init send_task_inv sub_sendDone_inv timer_fired_inv link_send_inv app_inv)

lemma link_reach_under_way: "link_reach False s \<Longrightarrow> under_way s"
  using link_reach_hist link_hist_inv by (auto simp: link_inv_def)

section \<open>The layer below\<close>

text \<open>What the steps assume of the provider of \<open>BareSend\<close>: when it completes a packet it signals
  \<open>SUCCESS\<close> for it once and writes at most its acknowledgement. A completion of such a
  provider is then a step of the link layer.\<close>

locale bare_sender =
  fixes complete :: "'s \<Rightarrow> 's"
    and memory :: "'s \<Rightarrow> heap"
    and signals :: "'s \<Rightarrow> (ptr \<times> error_t) list"
  assumes complete_signals: "\<exists>m b. signals (complete d) = signals d @ [(m, SUCCESS)] \<and>
    memory (complete d) = report m b (memory d)"
begin

definition completed :: "'s \<Rightarrow> ptr" where
  "completed d = fst (last (signals (complete d)))"

lemma completed_report: "\<exists>b. memory (complete d) = report (completed d) b (memory d)"
  using complete_signals [of d] by (auto simp: completed_def)

lemma completion_step:
  assumes "sub s = completed d # ms" "mem s = memory d"
  shows "link_step again s
    (sub_sendDone (completed d) SUCCESS (s\<lparr>sub := ms, mem := memory (complete d)\<rparr>))"
proof -
  obtain b where "memory (complete d) = report (completed d) b (mem s)"
    using completed_report [of d] assms(2) by auto
  then show ?thesis using link_step.sub [OF assms(1)] by simp
qed

text \<open>So the promise of the link layer holds for the system with this provider.\<close>

lemma completion_keeps_promise:
  assumes "link_hist s es" "sub s = completed d # ms" "mem s = memory d"
  shows "\<exists>b. link_hist (sub_sendDone (completed d) SUCCESS (s\<lparr>sub := ms, mem := memory (complete d)\<rparr>))
    (es @ [Answered (completed d) b]) \<and> lmon_run (es @ [Answered (completed d) b]) \<noteq> Broken"
proof -
  obtain b where b: "memory (complete d) = report (completed d) b (mem s)"
    using completed_report [of d] assms(3) by auto
  have "link_hist (sub_sendDone (completed d) SUCCESS (s\<lparr>sub := ms, mem := memory (complete d)\<rparr>))
      (es @ [Answered (completed d) b])"
    using link_hist.sub [OF assms(1,2)] by (simp add: b)
  moreover from link_hist_inv [OF this] have "lmon_run (es @ [Answered (completed d) b]) \<noteq> Broken"
    by (auto simp: link_inv_def opened_def split: if_splits)
  ultimately show ?thesis by blast
qed

end

section \<open>A packet from start to end\<close>

text \<open>One try: the task, the timer if it was started, then the answer of the layer below with
  \<open>b\<close> for its acknowledgement. Nothing happens once the packet was reported.\<close>

definition link_round :: "bool \<Rightarrow> link_sys \<Rightarrow> link_sys" where
  "link_round b s =
     (if \<not> posted s then s
      else
        (let s = send_task SUCCESS (s\<lparr>posted := False\<rparr>);
             s = (if timer s = None then s
                  else send_task SUCCESS ((timer_fired (s\<lparr>timer := None\<rparr>))\<lparr>posted := False\<rparr>))
         in case sub s of [] \<Rightarrow> s
            | m # ms \<Rightarrow> sub_sendDone m SUCCESS (s\<lparr>sub := ms, mem := setWasAcked m b (mem s)\<rparr>)))"

definition link_run :: "bool list \<Rightarrow> link_sys \<Rightarrow> link_sys" where
  "link_run bs s = foldl (\<lambda>s b. link_round b s) s bs"

lemma link_run_Cons: "link_run (b # bs) s = link_run bs (link_round b s)"
  by (simp add: link_run_def)

lemma link_run_idle: "\<not> posted s \<Longrightarrow> link_run bs s = s"
  by (induction bs) (simp_all add: link_run_def link_round_def)

text \<open>The state after a try that was answered with \<open>b\<close>: \<open>j\<close> tries so far.\<close>

definition answered :: "ptr \<Rightarrow> u16 \<Rightarrow> nat \<Rightarrow> bool \<Rightarrow> link_event list \<Rightarrow> link_sys \<Rightarrow> bool" where
  "answered m n j b es s \<longleftrightarrow> state s = STATE_SENDDONE \<and> posted s \<and> timer s = None \<and> sub s = [] \<and>
     currentMsg s = m \<and> getRetries (mem s) m = n \<and> wasAcked (mem s) m = b \<and>
     j = Suc (unat (totalRetries s)) \<and> j \<le> max 1 (unat n) \<and> events s = es"

definition finished :: "ptr \<Rightarrow> error_t \<Rightarrow> bool \<Rightarrow> link_event list \<Rightarrow> link_sys \<Rightarrow> bool" where
  "finished m err b es s \<longleftrightarrow> state s = STATE_READY \<and> \<not> posted s \<and> timer s = None \<and> sub s = [] \<and>
     events s = es @ [Done m err b]"

lemma round_first:
  assumes "under_way s" "state s = STATE_READY" "n = getRetries (mem s) m"
  shows "answered m n 1 b (events s @ [Accepted m n, SubSent m]) (link_round b (snd (link_send m s)))"
  using assms
  by (auto simp: under_way_def answered_def link_round_def link_send_def send_task_def
      after_sendDone_def sub_send_def sub_sendDone_def state_defs Let_def pm.laws)

lemma round_done:
  assumes "answered m n j a es s" "n = 0 \<or> a"
  shows "finished m SUCCESS a es (link_round b s)"
  using assms
  by (auto simp: answered_def finished_def link_round_def send_task_def after_sendDone_def
      signal_done_def state_defs Let_def pm.laws)

lemma round_failed:
  assumes "answered m n j False es s" "n \<noteq> 0" "j = unat n"
  shows "finished m FAIL False es (link_round b s)"
proof -
  have "\<not> totalRetries s + 1 < n"
    using assms unat_inc [of "totalRetries s" n] by (simp add: answered_def word_less_nat_alt)
  with assms show ?thesis
    by (auto simp: answered_def finished_def link_round_def send_task_def after_sendDone_def
        signal_done_def state_defs Let_def pm.laws)
qed

lemma round_again:
  assumes "answered m n j False es s" "n \<noteq> 0" "j < unat n"
  shows "answered m n (Suc j) b (es @ [SubSent m]) (link_round b s)"
proof -
  have inc: "unat (totalRetries s + 1) = Suc (unat (totalRetries s))"
    using assms by (intro unat_inc [where r = n]) (simp add: answered_def)
  then have "totalRetries s + 1 < n" using assms by (simp add: answered_def word_less_nat_alt)
  with assms inc show ?thesis
    by (cases "0 < getRetryDelay (mem s) m")
       (auto simp: answered_def link_round_def send_task_def after_sendDone_def sub_send_def
         sub_sendDone_def timer_fired_def state_defs Let_def pm.laws)
qed

lemma run_answered:
  "answered m n j a es s \<Longrightarrow> bs \<noteq> [] \<Longrightarrow> max 1 (unat n) \<le> j + length bs - 1 \<Longrightarrow>
   \<exists>k b. finished m (if n = 0 \<or> b then SUCCESS else FAIL) b (es @ replicate k (SubSent m)) (link_run bs s) \<and>
     (if n = 0 \<or> a then k = 0 \<and> b = a
      else b = (True \<in> set (take (unat n - j) bs)) \<and>
        k = (if b then Suc (length (takeWhile Not bs)) else unat n - j))"
proof (induction bs arbitrary: j a es s)
  case (Cons b bs)
  consider (ok) "n = 0 \<or> a" | (failed) "n \<noteq> 0" "\<not> a" "j = unat n" | (again) "n \<noteq> 0" "\<not> a" "j < unat n"
  proof -
    have "j \<le> max 1 (unat n)" using Cons.prems(1) by (simp add: answered_def)
    moreover have "n = 0 \<or> 0 < unat n" by (auto simp: unat_gt_0)
    ultimately have "n = 0 \<or> j \<le> unat n" by auto
    with that show thesis by linarith
  qed
  then show ?case
  proof cases
    case ok
    from round_done [OF Cons.prems(1) ok, of b] have f: "finished m SUCCESS a es (link_round b s)" .
    then have "link_run (b # bs) s = link_round b s"
      unfolding link_run_Cons by (intro link_run_idle) (simp add: finished_def)
    with f ok show ?thesis by (intro exI [of _ 0] exI [of _ a]) simp
  next
    case failed
    with Cons.prems(1) have f: "finished m FAIL False es (link_round b s)" by (intro round_failed) simp_all
    then have "link_run (b # bs) s = link_round b s"
      unfolding link_run_Cons by (intro link_run_idle) (simp add: finished_def)
    with f failed show ?thesis by (intro exI [of _ 0] exI [of _ False]) simp
  next
    case again
    with Cons.prems(1) have r: "answered m n (Suc j) b (es @ [SubSent m]) (link_round b s)"
      by (intro round_again) simp_all
    have "bs \<noteq> []" using Cons.prems(3) again by (cases bs) auto
    from Cons.IH [OF r this] Cons.prems(3) obtain k b' where
      ih: "finished m (if n = 0 \<or> b' then SUCCESS else FAIL) b' ((es @ [SubSent m]) @ replicate k (SubSent m)) (link_run bs (link_round b s))"
        "if n = 0 \<or> b then k = 0 \<and> b' = b
         else b' = (True \<in> set (take (unat n - Suc j) bs)) \<and>
           k = (if b' then Suc (length (takeWhile Not bs)) else unat n - Suc j)" by auto
    have u: "unat n - j = Suc (unat n - Suc j)" using again by simp
    show ?thesis
      unfolding link_run_Cons
      by (rule exI [of _ "Suc k"], rule exI [of _ b'])
         (use ih again u in \<open>auto simp: replicate_Suc split: if_splits\<close>)
  qed
qed simp

lemma link_reach_task: "link_reach again s \<Longrightarrow> posted s \<Longrightarrow> link_reach again (send_task r (s\<lparr>posted := False\<rparr>))"
  by (rule link_reach.step, assumption, rule link_step.task)

lemma link_reach_send: "link_reach again s \<Longrightarrow> link_reach again (snd (link_send m s))"
  by (rule link_reach.step, assumption, rule link_step.send)

lemma link_reach_cancel: "link_reach True s \<Longrightarrow> link_reach True (snd (link_cancel m s))"
  by (rule link_reach.step, assumption, rule link_step.cancel) simp

section \<open>Properties\<close>

lemma link_inv_promise:
  assumes "link_inv s es"
  shows "lmon_run es \<noteq> Broken \<and> (fst (link_send m s) = SUCCESS \<longleftrightarrow> lmon_run es = Quiet) \<and>
    (fst (link_cancel m s) = SUCCESS \<longleftrightarrow> (\<exists>n k c f. lmon_run es = Handling m n k c f))"
  using assms by (auto simp: link_inv_def opened_def link_send_def link_cancel_def Let_def split: if_splits)

text \<open>C3. In every order of tasks, timers, answers, sends and cancels the link layer keeps its
  promise, as long as no packet is cancelled twice: a packet accepted with \<open>n\<close> tries is passed
  down once, and again only while it is not acknowledged, is not cancelled and has tries left;
  it is reported exactly once before the next is accepted: as cancelled exactly when it was
  cancelled, as sent exactly when it was not and the acknowledgement flag stands or none was
  asked for, as failed only when all its tries were used without one; and the flag in the
  report is the one the layer below noted last, or the one the buffer came with when it noted
  none. The layer accepts a new packet exactly when none is open, and a cancel exactly for
  the open one.\<close>

theorem link_promise:
  assumes "link_hist s es"
  shows "link_reach False s \<and> lmon_run es \<noteq> Broken \<and>
    (fst (link_send m s) = SUCCESS \<longleftrightarrow> lmon_run es = Quiet) \<and>
    (fst (link_cancel m s) = SUCCESS \<longleftrightarrow> (\<exists>n k c f. lmon_run es = Handling m n k c f))"
  using link_hist_reach [OF assms] link_inv_promise [OF link_hist_inv [OF assms]] by blast

theorem link_promise_witness:
  "let s = link_init (\<lambda>_. blank); t = snd (link_send 1 s); u = snd (link_cancel 1 t)
   in lmon_run [Took 1 0 False, CancelAsked 1] = Handling 1 0 0 True False \<and>
     fst (link_send 2 u) = EBUSY \<and> fst (link_cancel 1 u) = SUCCESS"
proof -
  let ?s = "link_init (\<lambda>_. blank)"
  let ?t = "snd (link_send 1 ?s)"
  have "link_hist ?t [Took 1 0 False]"
    using link_hist.send [OF link_hist.init [of "\<lambda>_. blank"], of ?t 1]
    by (simp add: new_obs_def link_send_def link_init_def state_defs metadata_defs blank_def)
  from link_hist.cancel [OF this, of 1 SUCCESS "snd (link_cancel 1 ?t)"]
  have "link_hist (snd (link_cancel 1 ?t)) [Took 1 0 False, CancelAsked 1]"
    by (simp add: new_obs_def link_cancel_def link_send_def link_init_def state_defs)
  from link_promise [OF this, of 1] show ?thesis
    by (simp add: Let_def lmon_run_def link_send_def link_cancel_def link_init_def state_defs)
qed

text \<open>C25. An open packet never gets stuck and never has two things going on for it: exactly one
  of the task, the timer and the layer below is under way for it, and nothing is when the
  layer is ready.\<close>

theorem link_under_way:
  assumes "link_reach False s"
  shows "(if state s = STATE_READY then \<not> posted s \<and> timer s = None \<and> sub s = []
     else posted s \<and> timer s = None \<and> sub s = [] \<or>
       \<not> posted s \<and> timer s \<noteq> None \<and> sub s = [] \<or>
       \<not> posted s \<and> timer s = None \<and> sub s = [currentMsg s])"
  using link_reach_under_way [OF assms] by (auto simp: under_way_def split: if_splits)

theorem link_under_way_witness:
  "posted (snd (link_send 1 (link_init (\<lambda>_. blank)))) \<and> sub (snd (link_send 1 (link_init (\<lambda>_. blank)))) = []"
  using link_under_way [OF link_reach.step [OF link_reach.init [of False "\<lambda>_. blank"] link_step.send [of False _ 1]]]
  by (simp add: link_send_def link_init_def state_defs Let_def)

lemma link_delivers_run:
  assumes "link_reach False s" "state s = STATE_READY" "n = getRetries (mem s) m"
    and "max 1 (unat n) < length bs"
    and "acked = (if n = 0 then hd bs else True \<in> set (take (unat n) bs))"
    and "k = (if n = 0 then 1 else if acked then Suc (length (takeWhile Not bs)) else unat n)"
  shows "let s' = link_run bs (snd (link_send m s)) in state s' = STATE_READY \<and>
    events s' = events s @ Accepted m n # replicate k (SubSent m) @
      [Done m (if n = 0 \<or> acked then SUCCESS else FAIL) acked]"
proof -
  obtain b bs' where bs: "bs = b # bs'" using assms(4) by (cases bs) auto
  let ?es = "events s @ [Accepted m n, SubSent m]"
  let ?s1 = "link_round b (snd (link_send m s))"
  have "bs' \<noteq> []" "max 1 (unat n) \<le> 1 + length bs' - 1" using assms(4) by (auto simp: bs Suc_le_eq)
  with run_answered [OF round_first [OF link_reach_under_way [OF assms(1)] assms(2,3), of b]]
  obtain k' b' where fin: "finished m (if n = 0 \<or> b' then SUCCESS else FAIL) b' (?es @ replicate k' (SubSent m)) (link_run bs' ?s1)"
    and k': "if n = 0 \<or> b then k' = 0 \<and> b' = b
      else b' = (True \<in> set (take (unat n - 1) bs')) \<and> k' = (if b' then Suc (length (takeWhile Not bs')) else unat n - 1)"
    by blast
  have "b' = acked \<and> Suc k' = k"
  proof (cases "n = 0")
    case False
    then have "unat n = Suc (unat n - 1)" by (simp add: unat_gt_0)
    then have "take (unat n) bs = b # take (unat n - 1) bs'" unfolding bs by (metis take_Suc_Cons)
    with False k' assms(5,6) show ?thesis by (auto simp: bs unat_gt_0 split: if_splits)
  qed (use k' assms(5,6) bs in simp)
  with fin show ?thesis
    by (auto simp: finished_def link_run_Cons bs Let_def)
qed

text \<open>C14. What happens to a packet, for every number of tries, every delay and every sequence of
  answers: it is sent until the first answer that acknowledges it, at most as often as it
  has tries (once when it has none), and then reported as sent exactly when it was
  acknowledged or has no tries; the layer is ready again.\<close>

theorem link_delivers:
  assumes "link_reach False s" "state s = STATE_READY" "n = getRetries (mem s) m"
    and "max 1 (unat n) < length bs"
    and "acked = (if n = 0 then hd bs else True \<in> set (take (unat n) bs))"
    and "k = (if n = 0 then 1 else if acked then Suc (length (takeWhile Not bs)) else unat n)"
  shows "let s' = link_run bs (snd (link_send m s)) in state s' = STATE_READY \<and>
    events s' = events s @ Accepted m n # replicate k (SubSent m) @
      [Done m (if n = 0 \<or> acked then SUCCESS else FAIL) acked]"
  using assms by (rule link_delivers_run)

theorem link_delivers_witness:
  "let h = (\<lambda>_. blank\<lparr>max_retries := 3\<rparr>); s' = link_run [False, True, False, False] (snd (link_send 1 (link_init h)))
   in events s' = [Accepted 1 3, SubSent 1, SubSent 1, Done 1 SUCCESS True]"
proof -
  let ?h = "\<lambda>_. blank\<lparr>max_retries := 3\<rparr>"
  have "state (link_init ?h) = STATE_READY" "3 = getRetries (mem (link_init ?h)) 1" "events (link_init ?h) = []"
    by (simp_all add: link_init_def getRetries_def)
  with link_delivers [OF link_reach.init [of False ?h], of 3 1 "[False, True, False, False]" True "Suc 1"]
  show ?thesis by (simp add: Let_def)
qed

text \<open>C30. Cancelling a packet twice breaks the layer: the second cancel reports it although the
  radio still has it, and when its answer comes the packet accepted next is reported as sent
  while the radio still has that one. No packet with an open answer is ever reported
  otherwise.\<close>

theorem link_double_cancel:
  "\<exists>s. link_reach True s \<and> state s = STATE_READY \<and> sub s = [2] \<and>
     events s = [Accepted 1 0, SubSent 1, SubCancelled 1, Done 1 ECANCEL False,
       Accepted 2 0, SubSent 2, Done 2 SUCCESS False]"
proof -
  define s1 where "s1 = snd (link_send 1 (link_init (\<lambda>_. blank)))"
  define s2 where "s2 = send_task SUCCESS (s1\<lparr>posted := False\<rparr>)"
  define s3 where "s3 = snd (link_cancel 1 (snd (link_cancel 1 s2)))"
  define s4 where "s4 = send_task SUCCESS (s3\<lparr>posted := False\<rparr>)"
  define s5 where "s5 = snd (link_send 2 s4)"
  define s6 where "s6 = send_task SUCCESS (s5\<lparr>posted := False\<rparr>)"
  define s7 where "s7 = sub_sendDone 1 SUCCESS (s6\<lparr>sub := [2], mem := report 1 None (mem s6)\<rparr>)"
  define s8 where "s8 = send_task SUCCESS (s7\<lparr>posted := False\<rparr>)"
  note defs = link_send_def link_cancel_def send_task_def after_sendDone_def sub_send_def
    signal_done_def sub_sendDone_def state_defs Let_def metadata_defs report_def
  have s1: "s1 = \<lparr>state = 1, currentMsg = 1, totalRetries = 0, mem = (\<lambda>_. blank), posted = True,
      timer = None, sub = [], events = [Accepted 1 0]\<rparr>"
    by (simp add: s1_def link_init_def defs blank_def)
  have s2: "s2 = s1\<lparr>state := 2, posted := False, sub := [1], events := [Accepted 1 0, SubSent 1]\<rparr>"
    by (simp add: s2_def s1 defs)
  have s3: "s3 = s2\<lparr>state := 7, posted := True, events := [Accepted 1 0, SubSent 1, SubCancelled 1]\<rparr>"
    by (simp add: s3_def s2 s1 defs)
  have s4: "s4 = s3\<lparr>state := 0, posted := False, events := [Accepted 1 0, SubSent 1, SubCancelled 1, Done 1 ECANCEL False]\<rparr>"
    by (simp add: s4_def s3 s2 s1 defs blank_def)
  have s5: "s5 = s4\<lparr>state := 1, currentMsg := 2, posted := True, events := events s4 @ [Accepted 2 0]\<rparr>"
    by (simp add: s5_def s4 s3 s2 s1 defs blank_def)
  have s6: "s6 = s5\<lparr>state := 2, posted := False, sub := [1, 2], events := events s5 @ [SubSent 2]\<rparr>"
    by (simp add: s6_def s5 s4 s3 s2 s1 defs)
  have s7: "s7 = s6\<lparr>sub := [2], posted := True\<rparr>"
    by (simp add: s7_def s6 s5 s4 s3 s2 s1 defs)
  have s8: "s8 = s7\<lparr>state := 0, posted := False, events := events s7 @ [Done 2 SUCCESS False]\<rparr>"
    by (simp add: s8_def s7 s6 s5 s4 s3 s2 s1 defs blank_def)
  have "link_reach True s1" unfolding s1_def by (rule link_reach_send [OF link_reach.init])
  then have "link_reach True s2" unfolding s2_def by (rule link_reach_task) (simp add: s1)
  then have "link_reach True s3" unfolding s3_def by (rule link_reach_cancel [OF link_reach_cancel])
  then have "link_reach True s4" unfolding s4_def by (rule link_reach_task) (simp add: s3)
  then have "link_reach True s5" unfolding s5_def by (rule link_reach_send)
  then have "link_reach True s6" unfolding s6_def by (rule link_reach_task) (simp add: s5)
  then have "link_reach True s7" unfolding s7_def
    by (rule link_reach.step) (rule link_step.sub, simp add: s6)
  then have "link_reach True s8" unfolding s8_def by (rule link_reach_task) (simp add: s7)
  moreover have "state s8 = STATE_READY \<and> sub s8 = [2] \<and>
     events s8 = [Accepted 1 0, SubSent 1, SubCancelled 1, Done 1 ECANCEL False, Accepted 2 0, SubSent 2, Done 2 SUCCESS False]"
    by (simp add: s8 s7 s6 s5 s4 s3 s2 s1 state_defs)
  ultimately show ?thesis by blast
qed

end
