(* ===== verification/SendDev.thy ===== *)
theory SendDev
  imports Posix Link
begin

text \<open>
  The sender of the radio device (\<open>CC2520LinuxSendP.nc\<close>). A child process takes packets from a
  pipe, writes them to the driver and puts the result on a second pipe, so that the main
  process never blocks in the driver. The two structures that go through the pipes are the
  bytes of a 32-bit ARM, low byte first: a pointer and a length, padded to 8 bytes; a pointer,
  a result and a length, padded to 12. The reader takes the padding for what it is.
\<close>

section \<open>Structures on the pipes\<close>

definition le_bytes :: "u32 \<Rightarrow> u8 list" where
  "le_bytes w = [ucast w, ucast (drop_bit 8 w), ucast (drop_bit 16 w), ucast (drop_bit 24 w)]"

definition le_word :: "u8 list \<Rightarrow> u32" where
  "le_word bs = ucast (bs ! 0) OR push_bit 8 (ucast (bs ! 1)) OR push_bit 16 (ucast (bs ! 2)) OR
     push_bit 24 (ucast (bs ! 3))"

definition WHDR_SIZE :: nat where "WHDR_SIZE = 8"
definition RHDR_SIZE :: nat where "RHDR_SIZE = 12"

definition put_whdr :: "ptr \<Rightarrow> u8 \<Rightarrow> u8 list" where
  "put_whdr p len = le_bytes (of_nat p) @ [len, 0, 0, 0]"

definition whdr_ptr :: "u8 list \<Rightarrow> ptr" where "whdr_ptr bs = unat (le_word (take 4 bs))"
definition whdr_len :: "u8 list \<Rightarrow> u8" where "whdr_len bs = bs ! 4"

definition put_rhdr :: "ptr \<Rightarrow> int \<Rightarrow> u8 \<Rightarrow> u8 list" where
  "put_rhdr p r len = le_bytes (of_nat p) @ le_bytes (of_int r) @ [len, 0, 0, 0]"

definition rhdr_ptr :: "u8 list \<Rightarrow> ptr" where "rhdr_ptr bs = unat (le_word (take 4 bs))"
definition rhdr_ret :: "u8 list \<Rightarrow> int" where "rhdr_ret bs = sint (le_word (take 4 (drop 4 bs)))"
definition rhdr_len :: "u8 list \<Rightarrow> u8" where "rhdr_len bs = bs ! 8"

lemma le_word_bytes [simp]: "le_word (le_bytes w) = w"
proof (rule bit_word_eqI)
  fix n assume n: "n < LENGTH(32)"
  then consider "n < 8" | "8 \<le> n" "n < 16" | "16 \<le> n" "n < 24" | "24 \<le> n" "n < 32" by force
  then show "bit (le_word (le_bytes w)) n = bit w n"
    by cases (use n in \<open>auto simp: le_word_def le_bytes_def bit_simps\<close>)
qed

lemma length_le_bytes [simp]: "length (le_bytes w) = 4"
  by (simp add: le_bytes_def)

section \<open>The main process\<close>

record send_dev = "u8 os" +
  send_hdr :: "u8 list"
  cc2520_read :: int
  cc2520_write :: int
  send_mem :: heap
  done_posted :: bool
  signalled :: "(ptr \<times> error_t) list"

text \<open>A byte count of a call: the \<open>int\<close> becomes a \<open>size_t\<close>.\<close>

definition size_arg :: "int \<Rightarrow> nat" where
  "size_arg n = nat (n mod 2 ^ 32)"

definition bare_send :: "ptr \<Rightarrow> (error_t, 'x send_dev_scheme) prog" where
  "bare_send m =
     seq (access (\<lambda>s. aget (air (send_mem s m)) 0)) (\<lambda>len.
     seq (gets cc2520_write) (\<lambda>fd.
     seq (syscall (Write fd (put_whdr m len))) (\<lambda>_.
     seq (access (\<lambda>s. let n = size_arg (uint len - 2); a = air (send_mem s m) in
        if 1 + n \<le> length a then Some (take n (drop 1 a)) else None)) (\<lambda>body.
     seq (syscall (Write fd body)) (\<lambda>_. ret SUCCESS)))))"

definition bare_cancel :: "ptr \<Rightarrow> (error_t, 'x send_dev_scheme) prog" where
  "bare_cancel m = ret FAIL"

text \<open>The result of a packet arrives.\<close>

definition send_receiveReady :: "(unit, 'x send_dev_scheme) prog" where
  "send_receiveReady = seq (gets cc2520_read) (\<lambda>fd.
     seq (syscall (Read fd RHDR_SIZE)) (\<lambda>r.
       if failed r then (if err r = Some EAGAIN then ret () else stop 1)
       else seq (access (\<lambda>s. memcpy_at (send_hdr s) 0 (payload RHDR_SIZE r))) (\<lambda>h.
         seq (modify (send_hdr_update (\<lambda>_. h))) (\<lambda>_.
           if length (payload RHDR_SIZE r) \<noteq> RHDR_SIZE then ret ()
           else modify (done_posted_update (\<lambda>_. True))))))"

definition CC2520_TX_SUCCESS :: int where "CC2520_TX_SUCCESS = 0"
definition CC2520_TX_BUSY :: int where "CC2520_TX_BUSY = 255"
definition CC2520_TX_LENGTH :: int where "CC2520_TX_LENGTH = 254"
definition CC2520_TX_ACK_TIMEOUT :: int where "CC2520_TX_ACK_TIMEOUT = 253"
definition CC2520_TX_FAILED :: int where "CC2520_TX_FAILED = 252"

lemmas tx_defs = CC2520_TX_SUCCESS_def CC2520_TX_BUSY_def CC2520_TX_LENGTH_def
  CC2520_TX_ACK_TIMEOUT_def CC2520_TX_FAILED_def

text \<open>What a result says about the acknowledgement: nothing, when it is the length error or a
  value the code calls weird.\<close>

definition tx_acked :: "int \<Rightarrow> u8 \<Rightarrow> bool option" where
  "tx_acked r len =
     (if r = CC2520_TX_BUSY \<or> r = CC2520_TX_ACK_TIMEOUT \<or> r = CC2520_TX_FAILED then Some False
      else if r = CC2520_TX_LENGTH then None
      else if r = CC2520_TX_SUCCESS then Some True
      else if r = uint len - 1 then Some True
      else None)"

definition sendDone_task :: "'x send_dev_scheme \<Rightarrow> 'x send_dev_scheme" where
  "sendDone_task s =
     (let m = rhdr_ptr (send_hdr s) in
      s\<lparr>send_mem := (case tx_acked (rhdr_ret (send_hdr s)) (rhdr_len (send_hdr s)) of
            None \<Rightarrow> send_mem s | Some b \<Rightarrow> setWasAcked m b (send_mem s)),
        done_posted := False,
        signalled := signalled s @ [(m, SUCCESS)]\<rparr>)"

section \<open>The child process\<close>

definition PACKET_BUFFER_LEN :: nat where "PACKET_BUFFER_LEN = 256"

record send_child = "u8 os" +
  whdr :: "u8 list"
  pkt_buf :: "u8 list"

definition send_child_ok :: "'x send_child_scheme \<Rightarrow> bool" where
  "send_child_ok s \<longleftrightarrow> length (whdr s) = WHDR_SIZE \<and> length (pkt_buf s) = PACKET_BUFFER_LEN"

text \<open>One round of its loop: \<open>inp\<close> is the pipe it reads, \<open>outp\<close> the one it writes, \<open>dev\<close> the
  driver. An end of file and an error while reading the packet only print a message.\<close>

definition send_child_round :: "int \<Rightarrow> int \<Rightarrow> int \<Rightarrow> (unit option, 'x send_child_scheme) prog" where
  "send_child_round inp outp dev =
     seq (syscall (Read inp WHDR_SIZE)) (\<lambda>r.
       if failed r then
         seq (syscall (Close outp)) (\<lambda>_. seq (syscall (Close inp)) (\<lambda>_. stop 1))
       else
         seq (access (\<lambda>s. memcpy_at (whdr s) 0 (payload WHDR_SIZE r))) (\<lambda>w.
         seq (modify (\<lambda>s. s\<lparr>whdr := w, pkt_buf := (pkt_buf s)[0 := whdr_len w]\<rparr>)) (\<lambda>_.
         let n = size_arg (uint (whdr_len w) - 2) in
         seq (syscall (Read inp n)) (\<lambda>r.
         seq (if failed r \<or> payload n r = []
              then seq (syscall (Close outp)) (\<lambda>_. seq (syscall (Close inp)) (\<lambda>_. ret ()))
              else seq (access (\<lambda>s. memcpy_at (pkt_buf s) 1 (payload n r))) (\<lambda>b.
                modify (pkt_buf_update (\<lambda>_. b)))) (\<lambda>_.
         seq (access (\<lambda>s. let k = size_arg (uint (whdr_len w) - 1) in
            if k \<le> length (pkt_buf s) then Some (take k (pkt_buf s)) else None)) (\<lambda>pkt.
         seq (syscall (Write dev pkt)) (\<lambda>q.
         seq (syscall (Write outp (put_rhdr (whdr_ptr w) (if failed q then -1 else rval q) (whdr_len w)))) (\<lambda>_.
           ret None))))))))"

definition send_child_main :: "int \<Rightarrow> int \<Rightarrow> int \<Rightarrow> (unit, 'x send_child_scheme) prog" where
  "send_child_main inp outp dev = forever (send_child_round inp outp dev)"

section \<open>Starting\<close>

text \<open>The name of the child: the suffix is put over the end of a long name of the parent.\<close>

definition child_name :: "string \<Rightarrow> string \<Rightarrow> string" where
  "child_name suffix name =
     (if length name > 16 - length suffix then take (16 - length suffix) name @ suffix else name @ suffix)"

lemma child_name_fits: "length suffix \<le> 16 \<Longrightarrow> length (child_name suffix name) \<le> 16"
  by (auto simp: child_name_def)

text \<open>\<open>SoftwareInit.init\<close> up to the fork, and what the parent and the child do then. A \<open>fork\<close>
  that fails is not noticed. The result tells the child its descriptors.\<close>

definition send_init_parent :: "int \<Rightarrow> int \<Rightarrow> int \<Rightarrow> int \<Rightarrow> int \<Rightarrow> (error_t, 'x send_dev_scheme) prog" where
  "send_init_parent dev wr ww rr rw =
     seq (syscall (Close rw)) (\<lambda>_. seq (syscall (Close wr)) (\<lambda>_. seq (syscall (Close dev)) (\<lambda>_.
     seq (modify (\<lambda>s. s\<lparr>cc2520_read := rr, cc2520_write := ww\<rparr>)) (\<lambda>_.
     seq (make_nonblocking rr) (\<lambda>_.
     seq (syscall (Register rr)) (\<lambda>_. ret SUCCESS))))))"

definition send_init :: "string \<Rightarrow> (error_t + int \<times> int \<times> int, 'x send_dev_scheme) prog" where
  "send_init path =
     seq (syscall (Open path)) (\<lambda>d. if failed d then stop 1 else
     seq (syscall Pipe) (\<lambda>w. if failed w then stop 1 else
     seq (syscall Pipe) (\<lambda>r. if failed r then stop 1 else
     seq (syscall Fork) (\<lambda>f.
       if \<not> failed f \<and> rval f = 0 then
         seq (syscall (Close (rval r))) (\<lambda>_. seq (syscall (Close (rval2 w))) (\<lambda>_.
           ret (Inr (rval w, rval2 r, rval d))))
       else seq (send_init_parent (rval d) (rval w) (rval2 w) (rval r) (rval2 r)) (\<lambda>e. ret (Inl e))))))"

section \<open>What goes through the pipes\<close>

lemma whdr_roundtrip: "p < 2 ^ 32 \<Longrightarrow> whdr_ptr (put_whdr p len) = p \<and> whdr_len (put_whdr p len) = len"
  by (simp add: whdr_ptr_def whdr_len_def put_whdr_def nth_append unat_of_nat)

lemma rhdr_roundtrip:
  assumes "p < 2 ^ 32" "- (2 ^ 31) \<le> r" "r < 2 ^ 31"
  shows "rhdr_ptr (put_rhdr p r len) = p \<and> rhdr_ret (put_rhdr p r len) = r \<and> rhdr_len (put_rhdr p r len) = len"
proof -
  have "sint (word_of_int r :: u32) = r"
    using assms(2,3) by (simp add: sint_sbintrunc' signed_take_bit_int_eq_self)
  then show ?thesis
    using assms(1) by (simp add: rhdr_ptr_def rhdr_ret_def rhdr_len_def put_rhdr_def nth_append unat_of_nat)
qed

lemma size_arg_nat: "0 \<le> n \<Longrightarrow> n < 2 ^ 32 \<Longrightarrow> size_arg n = nat n"
  by (simp add: size_arg_def)

lemma size_arg_u8:
  assumes "k \<le> unat (l :: u8)"
  shows "size_arg (uint l - int k) = unat l - k"
proof -
  have "unat l < 2 ^ LENGTH(8)" by (rule unsigned_less)
  then have "unat l < 2 ^ 32" by simp
  moreover have "uint l - int k = int (unat l - k)" by (simp only: uint_nat of_nat_diff [OF assms])
  ultimately show ?thesis by (simp only: size_arg_def) (subst mod_pos_pos_trivial, simp_all)
qed

lemmas size_arg_minus = size_arg_u8 [of 1, simplified] size_arg_u8 [of 2, simplified]

text \<open>The packet as the radio sees it: the length byte counts two CRC bytes that the radio adds.\<close>

definition on_air :: "message \<Rightarrow> u8 list" where
  "on_air m = take (unat (hdr_length m) - 1) (air m)"

definition sendable :: "message \<Rightarrow> bool" where
  "sendable m \<longleftrightarrow> 2 \<le> unat (hdr_length m) \<and> unat (hdr_length m) \<le> length (air m)"

lemma bare_send_writes:
  assumes "sendable (send_mem s m)" "script s = r1 # r2 # rs"
  shows "bare_send m s = Ret SUCCESS (s\<lparr>script := rs, trace := trace s @
    [(Write (cc2520_write s) (put_whdr m (hdr_length (send_mem s m))), r1),
     (Write (cc2520_write s) (tl (on_air (send_mem s m))), r2)]\<rparr>)"
proof -
  let ?a = "air (send_mem s m)" and ?l = "hdr_length (send_mem s m)"
  have l: "2 \<le> unat ?l" "unat ?l \<le> length ?a" using assms(1) by (auto simp: sendable_def)
  then have "aget ?a 0 = Some ?l" by (simp add: aget_def hdr_length_def) (auto simp: aget_def)
  moreover have "size_arg (uint ?l - 2) = unat ?l - 2"
    using l by (intro size_arg_minus)
  moreover have "take (unat ?l - 2) (drop 1 ?a) = tl (on_air (send_mem s m))"
    using l by (cases ?a) (auto simp: on_air_def take_Cons' numeral_2_eq_2)
  ultimately show ?thesis
    using l assms(2) by (simp add: bare_send_def seq_syscall ret_def Let_def)
qed

lemma on_air_Cons: "sendable m \<Longrightarrow> on_air m = hdr_length m # tl (on_air m)"
  by (cases "air m") (auto simp: sendable_def on_air_def hdr_length_def take_Cons')

lemma length_on_air: "sendable m \<Longrightarrow> length (on_air m) = unat (hdr_length m) - 1"
  by (auto simp: on_air_def sendable_def)

lemma child_writes:
  assumes ok: "send_child_ok s" and m: "sendable m" "p < 2 ^ 32"
    and scr: "script s = data_reply (put_whdr p (hdr_length m)) # data_reply (tl (on_air m)) # q # r # rs"
    and body: "tl (on_air m) \<noteq> []"
  shows "\<exists>s'. send_child_round inp outp dev s = Ret None s' \<and> send_child_ok s' \<and> script s' = rs \<and>
    trace s' = trace s @
      [(Read inp WHDR_SIZE, data_reply (put_whdr p (hdr_length m))),
       (Read inp (length (tl (on_air m))), data_reply (tl (on_air m))),
       (Write dev (on_air m), q),
       (Write outp (put_rhdr p (if failed q then -1 else rval q) (hdr_length m)), r)]"
proof -
  let ?l = "hdr_length m" and ?w = "put_whdr p (hdr_length m)" and ?b = "tl (on_air m)"
  have l: "2 \<le> unat ?l" using m by (simp add: sendable_def)
  have "unat ?l < 2 ^ LENGTH(8)" by (rule unsigned_less)
  then have l256: "unat ?l < 256" by simp
  have n: "size_arg (uint ?l - 2) = unat ?l - 2" "size_arg (uint ?l - 1) = unat ?l - 1"
    using l by (simp_all add: size_arg_minus)
  have lb: "length ?b = unat ?l - 2" using length_on_air [OF m(1)] by simp
  have pw: "payload WHDR_SIZE (data_reply ?w) = ?w" "length ?w = 8"
    by (simp_all add: payload_def WHDR_SIZE_def put_whdr_def)
  have pb: "payload (unat ?l - 2) (data_reply ?b) = ?b" using lb by (simp add: payload_def)
  have mw: "memcpy_at (whdr s) 0 ?w = Some ?w"
    using ok pw by (simp add: memcpy_at_def send_child_ok_def WHDR_SIZE_def)
  let ?buf = "(pkt_buf s)[0 := ?l]"
  have lbuf: "length ?buf = 256" using ok by (simp add: send_child_ok_def PACKET_BUFFER_LEN_def)
  then have mb: "memcpy_at ?buf 1 ?b = Some (?l # ?b @ drop (1 + length ?b) ?buf)"
  proof -
    obtain x xs where b: "?buf = x # xs" using lbuf by (cases ?buf) auto
    then have "x = ?l" by (cases "pkt_buf s") simp_all
    with b lbuf lb l256 show ?thesis by (simp add: memcpy_at_def)
  qed
  have pkt: "take (unat ?l - 1) (?l # ?b @ drop (1 + length ?b) ?buf) = on_air m"
    using on_air_Cons [OF m(1)] lb l by (subst (2) on_air_Cons [OF m(1)]) (auto simp: take_Cons')
  have len: "length (?l # ?b @ drop (1 + length ?b) ?buf) = 256"
    using lbuf lb l256 by simp
  show ?thesis
    using scr pw pb mw mb pkt len n lb l256 body whdr_roundtrip [OF m(2), of ?l]
    by (simp add: send_child_ok_def WHDR_SIZE_def PACKET_BUFFER_LEN_def send_child_round_def seq_syscall seq_seq ret_def Let_def)
qed

section \<open>Results\<close>

lemma sendDone_signals:
  "signalled (sendDone_task s) = signalled s @ [(rhdr_ptr (send_hdr s), SUCCESS)] \<and>
   send_mem (sendDone_task s) = report (rhdr_ptr (send_hdr s)) (tx_acked (rhdr_ret (send_hdr s)) (rhdr_len (send_hdr s))) (send_mem s)"
  by (simp add: sendDone_task_def Let_def report_def split: option.split)

interpretation radio_sender: bare_sender sendDone_task send_mem signalled
  using sendDone_signals by unfold_locales blast

lemma receiveReady_result:
  assumes "length (send_hdr s) = RHDR_SIZE" "script s = data_reply (put_rhdr m r len) # rs"
  shows "send_receiveReady s = Ret () (s\<lparr>script := rs,
    trace := trace s @ [(Read (cc2520_read s) RHDR_SIZE, data_reply (put_rhdr m r len))],
    send_hdr := put_rhdr m r len, done_posted := True\<rparr>)"
  using assms
  by (simp add: send_receiveReady_def seq_syscall payload_def RHDR_SIZE_def put_rhdr_def memcpy_at_def modify_def)

section \<open>Properties\<close>

text \<open>A packet reaches the driver as it is: what the main process puts on the pipe for a
  buffer makes the child write exactly the bytes of the packet (the length byte and all that
  follows but the two CRC bytes the radio adds) to the driver, once, and put the driver's
  result, with the same buffer and length, on the way back.\<close>

lemma packet_to_driver:
  assumes "sendable (send_mem s m)" "m < 2 ^ 32" "3 \<le> unat (hdr_length (send_mem s m))"
    and "script s = r1 # r2 # rs" "send_child_ok c"
    and "script c = data_reply (put_whdr m (hdr_length (send_mem s m))) # data_reply (tl (on_air (send_mem s m))) # q # r # cs"
  shows "\<exists>s' c' t. bare_send m s = Ret SUCCESS s' \<and>
    map fst (trace s') = map fst (trace s) @
      [Write (cc2520_write s) (put_whdr m (hdr_length (send_mem s m))), Write (cc2520_write s) (tl (on_air (send_mem s m)))] \<and>
    send_child_round inp outp dev c = Ret None c' \<and> trace c' = trace c @ t \<and>
    [e. e \<leftarrow> map fst t, case e of Write _ _ \<Rightarrow> True | _ \<Rightarrow> False] =
      [Write dev (on_air (send_mem s m)),
       Write outp (put_rhdr m (if failed q then -1 else rval q) (hdr_length (send_mem s m)))]"
proof -
  have "length (tl (on_air (send_mem s m))) = unat (hdr_length (send_mem s m)) - 2"
    using length_on_air [OF assms(1)] by simp
  then have "tl (on_air (send_mem s m)) \<noteq> []" using assms(3) by (metis diff_is_0_eq list.size(3) not_less_eq_eq numeral_2_eq_2 numeral_3_eq_3)
  from child_writes [OF assms(5,1,2,6) this, of inp outp dev] bare_send_writes [OF assms(1,4)]
  show ?thesis by auto
qed

definition example_dev :: "u8 reply list \<Rightarrow> send_dev" where
  "example_dev rs = \<lparr>script = rs, trace = [], send_hdr = replicate 12 0, cc2520_read = 5, cc2520_write = 6,
     send_mem = (\<lambda>_. blank\<lparr>air := [5, 1, 2, 3, 9, 9], ack := 1\<rparr>), done_posted = False, signalled = []\<rparr>"

definition example_child :: "u8 reply list \<Rightarrow> send_child" where
  "example_child rs = \<lparr>script = rs, trace = [], whdr = replicate 8 0, pkt_buf = replicate 256 0\<rparr>"

lemma packet_to_driver_witness:
  "\<exists>c' t. send_child_round 7 8 9 (example_child [data_reply (put_whdr 64 5), data_reply [1, 2, 3], ok_reply 0, ok_reply 12]) = Ret None c' \<and>
     trace c' = t \<and> Write 9 [5, 1, 2, 3] \<in> set (map fst t)"
proof -
  let ?m = "send_mem (example_dev [ok_reply 8, ok_reply 3]) 64"
  have m: "hdr_length ?m = 5" "on_air ?m = [5, 1, 2, 3]" "sendable ?m"
    by (simp_all add: example_dev_def blank_def hdr_length_def on_air_def sendable_def)
  let ?c = "example_child [data_reply (put_whdr 64 5), data_reply [1, 2, 3], ok_reply 0, ok_reply 12]"
  have "send_child_ok ?c" "trace ?c = []" "script ?c = [data_reply (put_whdr 64 5), data_reply [1, 2, 3], ok_reply 0, ok_reply 12]"
    by (simp_all add: example_child_def send_child_ok_def WHDR_SIZE_def PACKET_BUFFER_LEN_def)
  with packet_to_driver [OF m(3), of "ok_reply 8" "ok_reply 3" "[]" ?c "ok_reply 0" "ok_reply 12" "[]" 7 8 9] m(1,2)
  obtain c' t where c: "send_child_round 7 8 9 ?c = Ret None c'" "trace c' = t"
    "[e. e \<leftarrow> map fst t, case e of Write _ _ \<Rightarrow> True | _ \<Rightarrow> False] = [Write 9 [5, 1, 2, 3], Write 8 (put_rhdr 64 0 5)]"
    by (auto simp: example_dev_def)
  then have "Write 9 [5, 1, 2, 3] \<in> set [e. e \<leftarrow> map fst t, case e of Write _ _ \<Rightarrow> True | _ \<Rightarrow> False]" by simp
  then have "Write 9 [5, 1, 2, 3] \<in> set (map fst t)" by auto
  with c show ?thesis by blast
qed

text \<open>The result of a packet comes back to the right buffer: when the pipe delivers a result,
  the task signals exactly that buffer, once, with \<open>SUCCESS\<close>, and its acknowledgement is what
  the result says. A result that says nothing (the length error, or any value the driver is
  not expected to return, such as -1 for a failed write) leaves the flag as it was before
  the packet was sent. No other buffer changes.\<close>

lemma result_to_buffer:
  assumes "length (send_hdr s) = RHDR_SIZE" "script s = data_reply (put_rhdr m r len) # rs"
    and "m < 2 ^ 32" "- (2 ^ 31) \<le> r" "r < 2 ^ 31"
  shows "\<exists>s1. send_receiveReady s = Ret () s1 \<and> done_posted s1 \<and>
    (let s2 = sendDone_task s1 in
      signalled s2 = signalled s @ [(m, SUCCESS)] \<and> \<not> done_posted s2 \<and>
      wasAcked (send_mem s2) m = (case tx_acked r len of Some b \<Rightarrow> b | None \<Rightarrow> wasAcked (send_mem s) m) \<and>
      (\<forall>p. p \<noteq> m \<longrightarrow> send_mem s2 p = send_mem s p))"
  using receiveReady_result [OF assms(1,2)] rhdr_roundtrip [OF assms(3-5), of len]
  by (auto simp: sendDone_task_def Let_def wasAcked_def setWasAcked_def split: option.split)

lemma result_to_buffer_witness:
  "\<exists>s1. send_receiveReady (example_dev [data_reply (put_rhdr 64 (-1) 5)]) = Ret () s1 \<and>
     signalled (sendDone_task s1) = [(64, SUCCESS)] \<and> wasAcked (send_mem (sendDone_task s1)) 64"
  using result_to_buffer [of "example_dev [data_reply (put_rhdr 64 (-1) 5)]" 64 "-1" 5 "[]"]
  by (simp add: example_dev_def RHDR_SIZE_def Let_def tx_acked_def tx_defs wasAcked_def) blast

end
