(* ===== verification/RecvDev.thy ===== *)
theory RecvDev
  imports Posix Message
begin

text \<open>
  The receiver of the radio device (\<open>CC2520LinuxReceiveP.nc\<close>): a child process copies what the
  driver delivers into a pipe; the main process reads a packet from it in two reads, the
  length byte and the rest, into the buffer it owns, and a task checks it, fills in its
  metadata and hands the buffer up in exchange for another. The driver appends to each packet
  its signal strength and a byte with the CRC result and the link quality.
\<close>

section \<open>The main process\<close>

record recv_dev = "u8 os" +
  cc2520_pipe :: int
  rx_ptr :: ptr
  rx_mem :: heap
  rx_posted :: bool
  received :: "(ptr \<times> message) list"

text \<open>A write of some bytes into a buffer from an index on, which must stay in the packet part of
  the buffer.\<close>

definition air_store :: "ptr \<Rightarrow> nat \<Rightarrow> u8 list \<Rightarrow> heap \<Rightarrow> heap option" where
  "air_store p off bs h = do {
     a \<leftarrow> memcpy_at (air (h p)) off bs;
     Some (msg_upd p (air_update (\<lambda>_. a)) h)
   }"

definition store_rx :: "nat \<Rightarrow> u8 list \<Rightarrow> (unit, 'x recv_dev_scheme) prog" where
  "store_rx off bs = seq (access (\<lambda>s. air_store (rx_ptr s) off bs (rx_mem s))) (\<lambda>h.
     modify (rx_mem_update (\<lambda>_. h)))"

definition recv_receiveReady :: "(unit, 'x recv_dev_scheme) prog" where
  "recv_receiveReady = seq (gets cc2520_pipe) (\<lambda>fd.
     seq (syscall (Read fd 1)) (\<lambda>r.
       if failed r then (if err r = Some EAGAIN then ret () else stop 1)
       else if payload 1 r = [] then ret ()
       else seq (store_rx 0 (payload 1 r)) (\<lambda>_.
         seq (access (\<lambda>s. aget (air (rx_mem s (rx_ptr s))) 0)) (\<lambda>len.
         seq (syscall (Read fd (unat len))) (\<lambda>q.
           if failed q then stop 1
           else seq (store_rx 1 (payload (unat len) q)) (\<lambda>_.
             if length (payload (unat len) q) \<noteq> unat len then ret ()
             else modify (rx_posted_update (\<lambda>_. True))))))))"

text \<open>The task: \<open>now\<close> is the time in microseconds, \<open>up\<close> the layer above, which takes the buffer
  and returns the one to use next.\<close>

definition receive_task :: "u64 \<Rightarrow> (ptr \<Rightarrow> ptr) \<Rightarrow> 'x recv_dev_scheme \<Rightarrow> 'x recv_dev_scheme option" where
  "receive_task now up s0 = do {
     let s = s0\<lparr>rx_posted := False\<rparr>;
     let p = rx_ptr s;
     let a = air (rx_mem s p);
     len \<leftarrow> aget a 0;
     rs \<leftarrow> (if len = 0 then None else aget a (unat len - 1));
     crc_lqi \<leftarrow> aget a (unat len);
     (if drop_bit 7 crc_lqi = 0 then Some s
      else do {
        let h = setTimestamp p now (setRssi p rs (setLqi p (crc_lqi AND 0x7F) (rx_mem s)));
        Some (s\<lparr>rx_mem := h, received := received s @ [(p, h p)], rx_ptr := up p\<rparr>)
      })
   }"

section \<open>The child process\<close>

text \<open>One round: \<open>dev\<close> is the driver, \<open>outp\<close> the pipe. After an error or an end of file the pipe is
  closed and the loop goes on: the write to the closed descriptor then writes nothing.\<close>

definition recv_child_round :: "int \<Rightarrow> int \<Rightarrow> (unit option, (u8, 'x) os_scheme) prog" where
  "recv_child_round dev outp =
     seq (syscall (Read dev 256)) (\<lambda>r.
       if failed r \<or> payload 256 r = [] then
         seq (syscall (Close outp)) (\<lambda>_. seq (syscall (Write outp [])) (\<lambda>_. ret None))
       else seq (syscall (Write outp (payload 256 r))) (\<lambda>_. ret None))"

definition recv_child_main :: "int \<Rightarrow> int \<Rightarrow> (unit, (u8, 'x) os_scheme) prog" where
  "recv_child_main dev outp = forever (recv_child_round dev outp)"

section \<open>Starting\<close>

text \<open>\<open>rx_msg_buf\<close> is the buffer the component owns at the start.\<close>

definition recv_init :: "string \<Rightarrow> ptr \<Rightarrow> (error_t + int \<times> int, 'x recv_dev_scheme) prog" where
  "recv_init path rx_msg_buf =
     seq (modify (rx_ptr_update (\<lambda>_. rx_msg_buf))) (\<lambda>_.
     seq (syscall (Open path)) (\<lambda>d. if failed d then stop 1 else
     seq (syscall Pipe) (\<lambda>r. if failed r then stop 1 else
     seq (syscall Fork) (\<lambda>f.
       if \<not> failed f \<and> rval f = 0 then
         seq (syscall (Close (rval r))) (\<lambda>_. ret (Inr (rval d, rval2 r)))
       else
         seq (syscall (Close (rval2 r))) (\<lambda>_. seq (syscall (Close (rval d))) (\<lambda>_.
         seq (modify (cc2520_pipe_update (\<lambda>_. rval r))) (\<lambda>_.
         seq (make_nonblocking (rval r)) (\<lambda>_.
         seq (syscall (Register (rval r))) (\<lambda>_. ret (Inl SUCCESS))))))))))"

section \<open>Receiving a packet\<close>

text \<open>What the driver delivers for a packet: the length byte, the packet, the signal strength,
  and the CRC result in the high bit over the link quality.\<close>

definition driver_frame :: "u8 list \<Rightarrow> u8 \<Rightarrow> u8 \<Rightarrow> u8 list" where
  "driver_frame body rs crc_lqi = of_nat (length body + 2) # body @ [rs, crc_lqi]"

lemma driver_frame_bytes:
  assumes "length body + 2 < 256"
  obtains n where "driver_frame body rs c = n # body @ [rs, c]" "unat n = length body + 2"
  using unat_of_nat_u8 [OF assms] that unfolding driver_frame_def by blast

lemma child_copies:
  assumes "script s = data_reply f # r # rs" "f \<noteq> []" "length f \<le> 256"
  shows "recv_child_round dev outp s = Ret None (s\<lparr>script := rs,
    trace := trace s @ [(Read dev 256, data_reply f), (Write outp f, r)]\<rparr>)"
  using assms by (simp add: recv_child_round_def seq_syscall payload_def ret_def)

lemma take_overwrite [simp]: "length bs \<le> length a \<Longrightarrow> take (length bs) (bs @ drop (length bs) a) = bs"
  by simp

lemma receiveReady_frame:
  fixes s :: "'x recv_dev_scheme"
  assumes len: "length body + 3 \<le> length (air (rx_mem s (rx_ptr s)))" "length body + 2 < 256"
    and f: "f = driver_frame body rs c"
    and scr: "script s = data_reply [hd f] # data_reply (tl f) # qs"
  shows "\<exists>s'. recv_receiveReady s = Ret () s' \<and> rx_posted s' \<and> rx_ptr s' = rx_ptr s \<and>
    received s' = received s \<and>
    rx_mem s' = msg_upd (rx_ptr s) (air_update (\<lambda>a. f @ drop (length f) a)) (rx_mem s)"
proof -
  let ?p = "rx_ptr s" let ?a = "air (rx_mem s ?p)"
  obtain n where fr: "f = n # body @ [rs, c]" and n: "unat n = length body + 2"
    unfolding f by (rule driver_frame_bytes [OF len(2)])
  have f': "hd f = n" "tl f = body @ [rs, c]" "length f = length body + 3"
    by (simp_all add: fr)
  obtain x xs where a: "?a = x # xs" using len(1) by (cases ?a) auto
  define h1 where "h1 = msg_upd ?p (air_update (\<lambda>_. n # xs)) (rx_mem s)"
  have s1: "air_store ?p 0 [n] (rx_mem s) = Some h1"
    by (simp add: air_store_def memcpy_at_def a h1_def)
  have a1: "aget (air (h1 ?p)) 0 = Some n" by (simp add: h1_def aget_def)
  have pl: "payload (length body + 2) (data_reply (body @ [rs, c])) = body @ [rs, c]"
    by (simp add: payload_def)
  have xs: "length body + 2 \<le> length xs" using len(1) a by simp
  then have s2: "air_store ?p 1 (body @ [rs, c]) h1 =
      Some (msg_upd ?p (air_update (\<lambda>a. f @ drop (length f) a)) (rx_mem s))"
    by (auto simp: air_store_def memcpy_at_def h1_def msg_upd_def a fr fun_eq_iff)
  show ?thesis
    using scr n f' s1 a1 pl s2
    by (simp add: recv_receiveReady_def seq_syscall seq_seq store_rx_def payload_def modify_def)
qed

lemma receive_task_frame:
  assumes a: "air (rx_mem s (rx_ptr s)) = driver_frame body rs c @ rest" and len: "length body + 2 < 256"
  shows "receive_task now up s = Some
    (if drop_bit 7 c = 0 then s\<lparr>rx_posted := False\<rparr>
     else (let h = setTimestamp (rx_ptr s) now (setRssi (rx_ptr s) rs (setLqi (rx_ptr s) (c AND 0x7F) (rx_mem s)))
       in s\<lparr>rx_posted := False, rx_mem := h, received := received s @ [(rx_ptr s, h (rx_ptr s))], rx_ptr := up (rx_ptr s)\<rparr>))"
proof -
  obtain n where f: "driver_frame body rs c = n # body @ [rs, c]" and n: "unat n = length body + 2"
    by (rule driver_frame_bytes [OF len])
  then have "n \<noteq> 0" by (metis add_is_0 unat_0 zero_neq_numeral)
  then show ?thesis
    using n by (simp add: receive_task_def a f aget_def nth_append Let_def)
qed

text \<open>The descriptor is not blocking, but unlike for the length byte no error of the second read is
  forgiven: the process ends. Only the atomic writes of a pipe keep this from happening.\<close>

lemma receive_rest_error:
  assumes "script s = data_reply [n] # err_reply e # rs" "air (rx_mem s (rx_ptr s)) \<noteq> []"
  shows "\<exists>s'. recv_receiveReady s = Exit 1 s'"
  using assms
  by (cases "air (rx_mem s (rx_ptr s))")
     (simp_all add: recv_receiveReady_def seq_syscall seq_seq store_rx_def payload_def air_store_def
       memcpy_at_def aget_def stop_def)

section \<open>Properties\<close>

text \<open>C16. A packet is received as the driver delivered it: from a frame in the pipe the main process
  fills its buffer with exactly that frame, and the task hands this buffer up, once, with the
  quality, strength and time in its metadata, if the CRC was good; otherwise it is dropped
  and the buffer is kept. The rest of the buffer and all other buffers are untouched.\<close>

theorem receive_frame:
  assumes "length body + 3 \<le> length (air (rx_mem s (rx_ptr s)))" "length body + 2 < 256"
    and "script s = data_reply [hd (driver_frame body rs c)] # data_reply (tl (driver_frame body rs c)) # qs"
  shows "\<exists>s1. recv_receiveReady s = Ret () s1 \<and>
    (let f = driver_frame body rs c; p = rx_ptr s;
         m = (rx_mem s p)\<lparr>air := f @ drop (length f) (air (rx_mem s p))\<rparr>;
         m' = m\<lparr>lqi := c AND 0x7F, rssi := rs, timestamp_micro := now\<rparr> in
     \<exists>s2. receive_task now up s1 = Some s2 \<and>
      (if bit c 7 then received s2 = received s @ [(p, m')] \<and> rx_ptr s2 = up p \<and> rx_mem s2 = (rx_mem s)(p := m')
       else received s2 = received s \<and> rx_ptr s2 = p \<and> rx_mem s2 = (rx_mem s)(p := m)))"
proof -
  let ?f = "driver_frame body rs c"
  obtain s1 where s1: "recv_receiveReady s = Ret () s1" "rx_ptr s1 = rx_ptr s" "received s1 = received s"
    "rx_mem s1 = msg_upd (rx_ptr s) (air_update (\<lambda>a. ?f @ drop (length ?f) a)) (rx_mem s)"
    using receiveReady_frame [OF assms(1,2) refl assms(3)] by blast
  then have a: "air (rx_mem s1 (rx_ptr s1)) = ?f @ drop (length ?f) (air (rx_mem s (rx_ptr s)))" by simp
  from receive_task_frame [OF a assms(2), of now up] s1 show ?thesis
    by (auto simp: top_bit_u8 Let_def metadata_defs msg_upd_def)
qed

definition example_recv :: "u8 reply list \<Rightarrow> recv_dev" where
  "example_recv rs = \<lparr>script = rs, trace = [], cc2520_pipe = 5, rx_ptr = 3, rx_mem = (\<lambda>_. blank),
     rx_posted = False, received = []\<rparr>"

theorem receive_frame_witness:
  "\<exists>s1 s2. recv_receiveReady (example_recv [data_reply [4], data_reply [7, 8, 30, 0x85]]) = Ret () s1 \<and>
     receive_task 1000 (\<lambda>p. p + 1) s1 = Some s2 \<and> rx_ptr s2 = 4 \<and>
     map (\<lambda>(p, m). (p, take 5 (air m), lqi m, rssi m)) (received s2) = [(3, [4, 7, 8, 30, 0x85], 5, 30)]"
proof -
  have f: "driver_frame [7, 8] 30 0x85 = [4, 7, 8, 30, 0x85]" by (simp add: driver_frame_def)
  have "bit (0x85 :: u8) 7" by (simp add: bit_numeral_rec)
  then show ?thesis
    using receive_frame [of "[7, 8]" "example_recv [data_reply [4], data_reply [7, 8, 30, 0x85]]" 30 "0x85" "[]" 1000 "\<lambda>p. p + 1"]
    unfolding f by (auto simp: example_recv_def blank_def Let_def)
qed

end
