(* ===== verification/Radio.thy ===== *)
theory Radio
  imports Message
begin

text \<open>
  The configuration and framing layer of the radio (\<open>CC2520LinuxRadioP.nc\<close>), with the defaults of
  \<open>RadioConfig.h\<close>, the commands of \<open>CC2520LinuxDriver.h\<close> and the sequence number layer of the
  active message stack (\<open>CC2520RpiAmUniqueP.nc\<close>). The calls to the driver are recorded; their
  results are not looked at by the code. The build is the one without \<open>LOW_POWER_LISTENING\<close>,
  which leaves the commands of that interface in place.
\<close>

section \<open>Driver commands\<close>

record lpl_data =
  lpl_window :: u32
  lpl_interval_us :: u32
  lpl_enabled :: bool

record addr_data =
  short_addr :: u16
  extended_addr :: "u8 list"
  pan_id :: u16

datatype radio_ioctl =
    SET_CHANNEL u8
  | SET_ADDRESS addr_data
  | SET_ACK u32
  | SET_TXPOWER u8
  | SET_LPL lpl_data
  | SET_PRINT u8
  | RADIO_INIT
  | RADIO_ON
  | RADIO_OFF

definition CC2520_TXPOWER_0DBM :: u8 where "CC2520_TXPOWER_0DBM = 0x32"
definition CC2520_DEF_RFPOWER :: u8 where "CC2520_DEF_RFPOWER = CC2520_TXPOWER_0DBM"
definition CC2520_DEF_CHANNEL :: u8 where "CC2520_DEF_CHANNEL = 11"
definition LPL_WINDOW :: u32 where "LPL_WINDOW = 320"
definition DEBUG_PRINT_OFF :: u8 where "DEBUG_PRINT_OFF = 0"

section \<open>The state\<close>

record radio =
  opened :: bool
  chan :: u8
  addr :: addr_data
  ack_timeout :: u32
  txpower :: u8
  lpl :: lpl_data
  print_level :: u8
  ext_addr :: "u8 list"
  sequence_number :: u8
  lpl_interval :: u16
  radio_mem :: heap
  ioctls :: "radio_ioctl list"
  start_done :: nat

text \<open>The initial values; \<open>panid\<close> is the configured network.\<close>

definition radio_init :: "u16 \<Rightarrow> heap \<Rightarrow> radio" where
  "radio_init panid h = \<lparr>opened = False, chan = CC2520_DEF_CHANNEL,
     addr = \<lparr>short_addr = 0, extended_addr = replicate 8 0, pan_id = panid\<rparr>, ack_timeout = 5000,
     txpower = CC2520_DEF_RFPOWER, lpl = \<lparr>lpl_window = 0, lpl_interval_us = 0, lpl_enabled = False\<rparr>,
     print_level = DEBUG_PRINT_OFF, ext_addr = replicate 8 0, sequence_number = 0, lpl_interval = 0,
     radio_mem = h, ioctls = [], start_done = 0\<rparr>"

definition ioctl :: "radio_ioctl \<Rightarrow> radio \<Rightarrow> radio" where
  "ioctl c s = s\<lparr>ioctls := ioctls s @ [c]\<rparr>"

section \<open>SplitControl\<close>

text \<open>The loop that asks for the identifier until one is not all zero. The provider's answers
  are a list; with no answer left it has not returned. The sum is not reset between rounds
  and has 16 bits.\<close>

definition sum_bytes :: "u16 \<Rightarrow> u8 list \<Rightarrow> u16" where
  "sum_bytes acc bs = foldl (\<lambda>a b. a + ucast b) acc bs"

fun get_id :: "u8 list list \<Rightarrow> u16 \<Rightarrow> u8 list option" where
  "get_id [] acc = None"
| "get_id (i # is) acc =
     (let acc' = sum_bytes acc (take 8 i) in if acc' = 0 then get_id is acc' else Some i)"

text \<open>\<open>start\<close> ends the process when the driver cannot be opened: \<open>None\<close> here, as when no
  identifier ever comes.\<close>

definition radio_start :: "bool \<Rightarrow> u16 \<Rightarrow> u8 list list \<Rightarrow> radio \<Rightarrow> radio option" where
  "radio_start open_ok node_id ids s =
     (if \<not> open_ok then None
      else do {
        i \<leftarrow> get_id ids 0;
        let s = s\<lparr>opened := True, sequence_number := ucast (push_bit 3 node_id), ext_addr := i,
          addr := (addr s)\<lparr>short_addr := node_id, extended_addr := map (\<lambda>k. i ! (7 - k)) [0..<8]\<rparr>\<rparr>;
        let s = ioctl (SET_CHANNEL (chan s)) s;
        let s = ioctl (SET_ADDRESS (addr s)) s;
        let s = ioctl (SET_ACK (ack_timeout s)) s;
        let s = ioctl (SET_TXPOWER (txpower s)) s;
        let s = ioctl (SET_LPL (lpl s)) s;
        let s = ioctl (SET_PRINT (print_level s)) s;
        let s = ioctl RADIO_ON (ioctl RADIO_INIT s);
        Some (s\<lparr>start_done := start_done s + 1\<rparr>)
      })"

definition radio_stop :: "radio \<Rightarrow> radio" where
  "radio_stop s = ioctl RADIO_OFF s"

section \<open>Send and Receive\<close>

text \<open>What \<open>Send.send\<close> does to the buffer before it passes it down; \<open>len\<close> counts the length byte
  but not the CRC.\<close>

definition radio_send :: "ptr \<Rightarrow> u8 \<Rightarrow> radio \<Rightarrow> radio" where
  "radio_send m len s =
     s\<lparr>radio_mem := msg_upd m (\<lambda>b. set_dsn (sequence_number s) (set_hdr_length (len + 1) b)) (radio_mem s),
       sequence_number := sequence_number s + 1\<rparr>"

definition radio_receive_len :: "heap \<Rightarrow> ptr \<Rightarrow> u8" where
  "radio_receive_len h m = hdr_length (h m) - 1"

text \<open>\<open>CC2520RpiAmUniqueP\<close>: the same for packets of the active message stack.\<close>

definition unique_init :: "u16 \<Rightarrow> u8" where
  "unique_init node_id = ucast (push_bit 4 node_id)"

definition unique_send :: "ptr \<Rightarrow> u8 \<times> heap \<Rightarrow> u8 \<times> heap" where
  "unique_send m = (\<lambda>(seq_no, h). (seq_no + 1, msg_upd m (set_dsn seq_no) h))"

section \<open>Low power listening\<close>

definition setLocalWakeupInterval :: "u16 \<Rightarrow> radio \<Rightarrow> radio" where
  "setLocalWakeupInterval interval s0 =
     (let s =
        (if interval = 0 then
           (let s = s0\<lparr>lpl := (lpl s0)\<lparr>lpl_enabled := False\<rparr>\<rparr>
            in ioctl RADIO_ON (ioctl (SET_LPL (lpl s)) (ioctl RADIO_OFF s)))
         else if interval \<noteq> lpl_interval s0 then
           (let s = s0\<lparr>lpl := \<lparr>lpl_window = LPL_WINDOW, lpl_interval_us = ucast interval, lpl_enabled = True\<rparr>\<rparr>
            in ioctl RADIO_ON (ioctl (SET_LPL (lpl s)) (ioctl RADIO_OFF s)))
         else s0)
      in s\<lparr>lpl_interval := interval\<rparr>)"

definition getLocalWakeupInterval :: "radio \<Rightarrow> u16" where "getLocalWakeupInterval s = lpl_interval s"
definition setRemoteWakeupInterval :: "ptr \<Rightarrow> u16 \<Rightarrow> radio \<Rightarrow> radio" where "setRemoteWakeupInterval m i s = s"
definition getRemoteWakeupInterval :: "ptr \<Rightarrow> radio \<Rightarrow> u16" where "getRemoteWakeupInterval m s = lpl_interval s"

section \<open>Addresses\<close>

definition getExtAddr :: "radio \<Rightarrow> u8 list \<times> radio" where
  "getExtAddr s = (let s' = s\<lparr>ext_addr := extended_addr (addr s)\<rparr> in (ext_addr s', s'))"
definition getShortAddr :: "radio \<Rightarrow> u16" where "getShortAddr s = short_addr (addr s)"
definition setShortAddr :: "u16 \<Rightarrow> radio \<Rightarrow> error_t \<times> radio" where "setShortAddr a s = (SUCCESS, s)"
definition getPanId :: "radio \<Rightarrow> u16" where "getPanId s = pan_id (addr s)"

section \<open>What the driver was told\<close>

text \<open>The settings in force: the last of each kind. \<open>Some\<close> with the radio on or off.\<close>

fun told :: "(radio_ioctl \<Rightarrow> 'a option) \<Rightarrow> radio_ioctl list \<Rightarrow> 'a option" where
  "told f [] = None"
| "told f (c # cs) = (case told f cs of Some x \<Rightarrow> Some x | None \<Rightarrow> f c)"

lemma told_append: "told f (a @ b) = (case told f b of Some x \<Rightarrow> Some x | None \<Rightarrow> told f a)"
  by (induction a) (auto split: option.split)

fun lpl_cmd :: "radio_ioctl \<Rightarrow> lpl_data option" where
  "lpl_cmd (SET_LPL d) = Some d" | "lpl_cmd _ = None"

fun power_cmd :: "radio_ioctl \<Rightarrow> bool option" where
  "power_cmd RADIO_ON = Some True" | "power_cmd RADIO_OFF = Some False" | "power_cmd _ = None"

fun addr_cmd :: "radio_ioctl \<Rightarrow> addr_data option" where
  "addr_cmd (SET_ADDRESS a) = Some a" | "addr_cmd _ = None"

text \<open>The driver listens as the component says: it has its settings, the radio is on, low power
  listening is on exactly when an interval is set, and then with that interval.\<close>

definition lpl_inv :: "radio \<Rightarrow> bool" where
  "lpl_inv s \<longleftrightarrow> told lpl_cmd (ioctls s) = Some (lpl s) \<and> told power_cmd (ioctls s) = Some True \<and>
     lpl_enabled (lpl s) = (lpl_interval s \<noteq> 0) \<and>
     (lpl_interval s \<noteq> 0 \<longrightarrow> lpl_window (lpl s) = LPL_WINDOW \<and> lpl_interval_us (lpl s) = ucast (lpl_interval s))"

lemma ioctls_ioctl [simp]: "ioctls (ioctl c s) = ioctls s @ [c]"
  by (simp add: ioctl_def)

lemma ioctl_fields [simp]:
  "lpl (ioctl c s) = lpl s" "lpl_interval (ioctl c s) = lpl_interval s" "addr (ioctl c s) = addr s"
  "sequence_number (ioctl c s) = sequence_number s" "ext_addr (ioctl c s) = ext_addr s"
  by (simp_all add: ioctl_def)

lemma lpl_inv_set: "lpl_inv s \<Longrightarrow> lpl_inv (setLocalWakeupInterval i s)"
  by (simp add: lpl_inv_def setLocalWakeupInterval_def Let_def told_append)

lemma sum_zero: "length bs \<le> 8 \<Longrightarrow> sum_bytes 0 bs = 0 \<longleftrightarrow> (\<forall>b \<in> set bs. b = 0)"
proof -
  have "unat (sum_bytes a bs) = unat a + sum_list (map unat bs)"
    if "unat a + 255 * length bs < 65536" for a
    using that
  proof (induction bs arbitrary: a)
    case (Cons b bs)
    have b: "unat b < 256" by (rule unat_u8)
    then have "unat (a + ucast b) = unat a + unat b"
      using Cons.prems by (simp add: unat_word_ariths)
    with Cons b show ?case by (simp add: sum_bytes_def)
  qed (simp add: sum_bytes_def)
  from this [of 0] have "length bs \<le> 8 \<Longrightarrow> unat (sum_bytes 0 bs) = sum_list (map unat bs)" by simp
  moreover have "sum_bytes 0 bs = 0 \<longleftrightarrow> unat (sum_bytes 0 bs) = 0" by (simp add: unat_eq_zero)
  ultimately show "length bs \<le> 8 \<Longrightarrow> ?thesis" by (auto simp: sum_list_eq_0_iff unat_eq_zero)
qed

lemma get_id_first:
  "get_id is 0 = find (\<lambda>i. \<exists>b \<in> set (take 8 i). b \<noteq> 0) is"
proof (induction "is")
  case (Cons i "is")
  then show ?case
    using sum_zero [of "take 8 i"] by (cases "sum_bytes 0 (take 8 i) = 0") (auto simp: Let_def)
qed simp

section \<open>Sequence numbers\<close>

text \<open>Several sends in a row, with the sequence number each packet leaves with.\<close>

fun radio_sends :: "(ptr \<times> u8) list \<Rightarrow> radio \<Rightarrow> u8 list \<times> radio" where
  "radio_sends [] s = ([], s)"
| "radio_sends ((m, len) # ps) s =
     (let s1 = radio_send m len s; (ns, s2) = radio_sends ps s1
      in (dsn (radio_mem s1 m) # ns, s2))"

definition buffers_ok :: "radio \<Rightarrow> bool" where
  "buffers_ok s \<longleftrightarrow> (\<forall>p. message_ok (radio_mem s p))"

lemma dsn_set_dsn [simp]: "message_ok m \<Longrightarrow> dsn (set_dsn n m) = n"
  by (simp add: dsn_def set_dsn_def message_ok_def)

lemma hdr_length_set_dsn [simp]: "hdr_length (set_dsn n m) = hdr_length m"
  by (simp add: hdr_length_def set_dsn_def)

lemma buffers_ok_send: "buffers_ok s \<Longrightarrow> buffers_ok (radio_send m len s)"
  by (simp add: buffers_ok_def radio_send_def msg_upd_def)

lemma radio_sends_numbers:
  "buffers_ok s \<Longrightarrow> fst (radio_sends ps s) = map (\<lambda>k. sequence_number s + of_nat k) [0..<length ps] \<and>
   sequence_number (snd (radio_sends ps s)) = sequence_number s + of_nat (length ps)"
proof (induction ps arbitrary: s)
  case (Cons p ps)
  obtain m len where p: "p = (m, len)" by (cases p)
  let ?s1 = "radio_send m len s"
  have s1: "sequence_number ?s1 = sequence_number s + 1" "dsn (radio_mem ?s1 m) = sequence_number s"
    using Cons.prems by (simp_all add: radio_send_def buffers_ok_def)
  have "map (\<lambda>k. sequence_number s + of_nat k) [0..<Suc (length ps)] =
      sequence_number s # map (\<lambda>k. sequence_number s + 1 + of_nat k) [0..<length ps]"
    unfolding upt_conv_Cons [OF zero_less_Suc] map_Suc_upt [symmetric] by (simp add: ac_simps comp_def)
  with Cons.IH [OF buffers_ok_send [OF Cons.prems, of m len]] s1 show ?case
    by (simp add: p Let_def case_prod_beta ac_simps)
qed simp

section \<open>Properties\<close>

lemma radio_start_run:
  assumes "find (\<lambda>i. \<exists>b \<in> set (take 8 i). b \<noteq> 0) ids = Some i" "length i = 8"
  shows "\<exists>s. radio_start True node ids (radio_init panid h) = Some s \<and>
    ioctls s = [SET_CHANNEL 11, SET_ADDRESS \<lparr>short_addr = node, extended_addr = rev i, pan_id = panid\<rparr>,
      SET_ACK 5000, SET_TXPOWER 0x32, SET_LPL \<lparr>lpl_window = 0, lpl_interval_us = 0, lpl_enabled = False\<rparr>,
      SET_PRINT 0, RADIO_INIT, RADIO_ON] \<and>
    lpl_inv s \<and> start_done s = 1 \<and> getShortAddr s = node \<and> fst (getExtAddr s) = rev i"
proof -
  have "get_id ids 0 = Some i" using assms(1) by (simp add: get_id_first)
  moreover have "map (\<lambda>k. i ! (7 - k)) [0..<8] = rev i"
    by (rule nth_equalityI) (auto simp: assms(2) rev_nth)
  ultimately show ?thesis
    by (simp add: radio_start_def radio_init_def Let_def ioctl_def lpl_inv_def getShortAddr_def
        getExtAddr_def CC2520_DEF_CHANNEL_def CC2520_DEF_RFPOWER_def CC2520_TXPOWER_0DBM_def DEBUG_PRINT_OFF_def)
qed

text \<open>C36. Starting the radio: the identifier is the first the provider gives that is not zero; the
  driver gets its channel, its address (the short address is the node number, the extended
  address the identifier with its bytes reversed), the other settings, and only then is the
  radio initialised and switched on, once; low power listening is off, as the component says.\<close>

theorem radio_start_configures:
  assumes "find (\<lambda>i. \<exists>b \<in> set (take 8 i). b \<noteq> 0) ids = Some i" "length i = 8"
  shows "\<exists>s. radio_start True node ids (radio_init panid h) = Some s \<and>
    ioctls s = [SET_CHANNEL 11, SET_ADDRESS \<lparr>short_addr = node, extended_addr = rev i, pan_id = panid\<rparr>,
      SET_ACK 5000, SET_TXPOWER 0x32, SET_LPL \<lparr>lpl_window = 0, lpl_interval_us = 0, lpl_enabled = False\<rparr>,
      SET_PRINT 0, RADIO_INIT, RADIO_ON] \<and>
    lpl_inv s \<and> start_done s = 1 \<and> getShortAddr s = node \<and> fst (getExtAddr s) = rev i"
  using assms by (rule radio_start_run)

theorem radio_start_configures_witness:
  "\<exists>s. radio_start True 7 [replicate 8 0, [1, 2, 3, 4, 5, 6, 7, 8]] (radio_init 22 (\<lambda>_. blank)) = Some s \<and>
     told addr_cmd (ioctls s) = Some \<lparr>short_addr = 7, extended_addr = [8, 7, 6, 5, 4, 3, 2, 1], pan_id = 22\<rparr>"
  using radio_start_configures [of "[replicate 8 0, [1, 2, 3, 4, 5, 6, 7, 8]]" "[1, 2, 3, 4, 5, 6, 7, 8]" 7 22 "\<lambda>_. blank"]
  by auto

text \<open>C37. Low power listening follows the last interval that was set, whatever was set before: the
  driver has it on exactly when that interval is not 0, then with that number as its
  interval, and the radio is on. The number is not scaled on its way to the driver.\<close>

theorem wakeup_interval_in_force:
  assumes "lpl_inv s" "is \<noteq> []"
  shows "let s' = fold setLocalWakeupInterval is s in
    getLocalWakeupInterval s' = last is \<and> told power_cmd (ioctls s') = Some True \<and>
    (\<exists>d. told lpl_cmd (ioctls s') = Some d \<and> lpl_enabled d = (last is \<noteq> 0) \<and>
      (last is \<noteq> 0 \<longrightarrow> lpl_interval_us d = ucast (last is) \<and> lpl_window d = LPL_WINDOW))"
proof -
  have inv: "lpl_inv (fold setLocalWakeupInterval is s)"
    by (rule fold_invariant [where Q = "\<lambda>_. True"]) (use assms(1) in \<open>auto intro: lpl_inv_set\<close>)
  moreover have "lpl_interval (fold setLocalWakeupInterval is s) = last is"
    using assms(2) by (induction "is" rule: rev_induct) (simp_all add: setLocalWakeupInterval_def Let_def)
  ultimately show ?thesis by (simp add: lpl_inv_def getLocalWakeupInterval_def Let_def)
qed

theorem wakeup_interval_in_force_witness:
  "\<exists>s d. told lpl_cmd (ioctls (fold setLocalWakeupInterval [100, 0, 512] s)) = Some d \<and>
     lpl_interval_us d = 512 \<and> lpl_enabled d"
proof -
  obtain s where "lpl_inv s"
    using radio_start_run [of "[[1, 2, 3, 4, 5, 6, 7, 8]]" "[1, 2, 3, 4, 5, 6, 7, 8]" 7 22 "\<lambda>_. blank"] by auto
  from wakeup_interval_in_force [OF this, of "[100, 0, 512]"] show ?thesis by (auto simp: Let_def)
qed

text \<open>Packets leave with consecutive sequence numbers modulo 256, so any 256 packets in a row
  have different ones.\<close>

lemma sequence_numbers_differ:
  assumes "buffers_ok s" "length ps \<le> 256"
  shows "fst (radio_sends ps s) = map (\<lambda>k. sequence_number s + of_nat k) [0..<length ps] \<and>
    distinct (fst (radio_sends ps s))"
proof -
  have "inj_on (\<lambda>k. sequence_number s + of_nat k) (set [0..<length ps])"
  proof (rule inj_onI)
    fix j k assume jk: "j \<in> set [0..<length ps]" "k \<in> set [0..<length ps]"
      and "sequence_number s + of_nat j = sequence_number s + of_nat k"
    then have "(of_nat j :: u8) = of_nat k" by simp
    then have "unat (of_nat j :: u8) = unat (of_nat k :: u8)" by simp
    moreover have "j < 256" "k < 256" using jk assms(2) by auto
    ultimately show "j = k" by (simp only: unat_of_nat_u8)
  qed
  then show ?thesis
    using radio_sends_numbers [OF assms(1), of ps] by (simp add: distinct_map)
qed

lemma sequence_numbers_differ_witness:
  "fst (radio_sends [(1, 10), (2, 10), (1, 20)] ((radio_init 22 (\<lambda>_. blank))\<lparr>sequence_number := 255\<rparr>)) = [255, 0, 1]"
  using sequence_numbers_differ [of "(radio_init 22 (\<lambda>_. blank))\<lparr>sequence_number := 255\<rparr>" "[(1, 10), (2, 10), (1, 20)]"]
  by (simp add: buffers_ok_def radio_init_def blank_ok)

end
