(* ===== verification/Timers.thy ===== *)
theory Timers
  imports Prelude
begin

text \<open>
  Time: the millisecond alarm (\<open>AlarmMilli32P.nc\<close>), the clocks (\<open>LocalTimeMilli32P.nc\<close>,
  \<open>UnixTimeP.nc\<close>) and the busy wait (\<open>BusyWaitMicroP.nc\<close>). The clock of the kernel is a value
  the operations get; a call that fails gives \<open>None\<close>. The kernel's timer is what
  \<open>timer_settime\<close> documents: it refuses a time whose nanoseconds are not below a second and
  keeps what was set before, and the time zero disarms it. Seconds are natural numbers; the
  32-bit counters wrap.
\<close>

section \<open>Times of the kernel\<close>

datatype timespec = TS (tv_sec: nat) (tv_nsec: nat)

text \<open>Times are ordered as pairs.\<close>

instantiation timespec :: linorder
begin

definition less_eq_timespec :: "timespec \<Rightarrow> timespec \<Rightarrow> bool" where
  "less_eq_timespec a b \<longleftrightarrow> tv_sec a < tv_sec b \<or> tv_sec a = tv_sec b \<and> tv_nsec a \<le> tv_nsec b"

definition less_timespec :: "timespec \<Rightarrow> timespec \<Rightarrow> bool" where
  "less_timespec a b \<longleftrightarrow> tv_sec a < tv_sec b \<or> tv_sec a = tv_sec b \<and> tv_nsec a < tv_nsec b"

instance
  by standard (auto simp: less_eq_timespec_def less_timespec_def intro: timespec.expand)

end

definition valid_ts :: "timespec \<Rightarrow> bool" where
  "valid_ts t \<longleftrightarrow> tv_nsec t < 1000000000"

definition ns :: "timespec \<Rightarrow> nat" where
  "ns t = tv_sec t * 1000000000 + tv_nsec t"

lemma less_ns: "valid_ts a \<Longrightarrow> valid_ts b \<Longrightarrow> a < b \<longleftrightarrow> ns a < ns b"
  by (auto simp: less_timespec_def valid_ts_def ns_def)

section \<open>Clocks\<close>

text \<open>The counter of milliseconds both clocks compute.\<close>

definition millis :: "timespec \<Rightarrow> u32" where
  "millis t = of_nat (tv_sec t * 1000 + tv_nsec t div 1000000)"

definition alarm_getNow :: "timespec option \<Rightarrow> u32" where
  "alarm_getNow now = (case now of None \<Rightarrow> 0 | Some t \<Rightarrow> millis t)"

definition local_get :: "timespec option \<Rightarrow> u32" where
  "local_get now = (case now of None \<Rightarrow> 0 | Some t \<Rightarrow> millis t)"

record timeval =
  t_sec :: nat
  t_usec :: nat

definition unix_seconds :: "nat \<Rightarrow> u32" where
  "unix_seconds t = of_nat t"

definition unix_millis :: "timeval option \<Rightarrow> u64" where
  "unix_millis tv = (case tv of None \<Rightarrow> 0 | Some t \<Rightarrow> of_nat (t_sec t) * 1000 + of_nat (t_usec t) div 1000)"

definition unix_micros :: "timeval option \<Rightarrow> u64" where
  "unix_micros tv = (case tv of None \<Rightarrow> 0 | Some t \<Rightarrow> of_nat (t_sec t) * 1000000 + of_nat (t_usec t))"

section \<open>The alarm\<close>

record alarm =
  last_alarm :: u32
  armed :: "timespec option"

definition alarm_init :: "bool \<Rightarrow> alarm \<Rightarrow> error_t \<times> alarm" where
  "alarm_init created a = (if created then SUCCESS else FAIL, a\<lparr>last_alarm := 0\<rparr>)"

definition timer_settime :: "timespec \<Rightarrow> alarm \<Rightarrow> alarm" where
  "timer_settime t a =
     (if \<not> valid_ts t then a
      else a\<lparr>armed := (if tv_sec t = 0 \<and> tv_nsec t = 0 then None else Some t)\<rparr>)"

definition alarm_stop :: "alarm \<Rightarrow> alarm" where
  "alarm_stop a = timer_settime (TS 0 0) a"

text \<open>The time left, as \<open>timer_gettime\<close> gives it: none once the time has come.\<close>

definition alarm_isRunning :: "timespec \<Rightarrow> alarm \<Rightarrow> bool" where
  "alarm_isRunning now a = (case armed a of None \<Rightarrow> False | Some t \<Rightarrow> now < t)"

definition past_expiry :: "timespec \<Rightarrow> timespec" where
  "past_expiry now = TS (tv_sec now) (tv_nsec now + 500000)"

definition future_expiry :: "timespec \<Rightarrow> u32 \<Rightarrow> timespec" where
  "future_expiry now remaining =
     (let remaining_seconds = remaining div 1000;
          remaining_nanoseconds = (remaining - remaining_seconds * 1000) * 1000000;
          sec = tv_sec now + unat remaining_seconds;
          nsec = tv_nsec now + unat remaining_nanoseconds
      in if nsec > 999999999 then TS (sec + 1) (nsec - 999999999) else TS sec nsec)"

definition alarm_startAt :: "timespec option \<Rightarrow> u32 \<Rightarrow> u32 \<Rightarrow> alarm \<Rightarrow> alarm" where
  "alarm_startAt clock t0 dt a =
     (case clock of
        None \<Rightarrow> a
      | Some now \<Rightarrow>
          (let a = a\<lparr>last_alarm := t0 + dt\<rparr>; elapsed = millis now - t0 in
           if elapsed \<ge> dt then timer_settime (past_expiry now) a
           else timer_settime (future_expiry now (dt - elapsed)) a))"

definition alarm_start :: "timespec option \<Rightarrow> timespec option \<Rightarrow> u32 \<Rightarrow> alarm \<Rightarrow> alarm" where
  "alarm_start clock1 clock2 dt a = alarm_startAt clock2 (alarm_getNow clock1) dt a"

definition alarm_getAlarm :: "alarm \<Rightarrow> u32" where
  "alarm_getAlarm a = last_alarm a"

section \<open>The busy wait\<close>

text \<open>The loop over the readings of the clock; the result is the reading it ended with, and
  \<open>None\<close> when it has not ended with these readings.\<close>

definition busy_micros :: "timeval \<Rightarrow> timeval \<Rightarrow> int" where
  "busy_micros pulse now =
     (if t_sec now > t_sec pulse then 1000000 else 0) + (int (t_usec now) - int (t_usec pulse))"

fun busy_loop :: "u16 \<Rightarrow> timeval \<Rightarrow> int \<Rightarrow> timeval \<Rightarrow> timeval list \<Rightarrow> timeval option" where
  "busy_loop dt pulse micros prev [] = (if micros < uint dt then None else Some prev)"
| "busy_loop dt pulse micros prev (now # readings) =
     (if micros < uint dt then busy_loop dt pulse (busy_micros pulse now) now readings else Some prev)"

definition busy_wait :: "u16 \<Rightarrow> timeval \<Rightarrow> timeval list \<Rightarrow> timeval option" where
  "busy_wait dt pulse readings = busy_loop dt pulse 0 pulse readings"

definition micros_between :: "timeval \<Rightarrow> timeval \<Rightarrow> int" where
  "micros_between a b = (int (t_sec b) - int (t_sec a)) * 1000000 + (int (t_usec b) - int (t_usec a))"

lemma busy_micros_le: "t_sec pulse \<le> t_sec now \<Longrightarrow> busy_micros pulse now \<le> micros_between pulse now"
  by (auto simp: busy_micros_def micros_between_def)

lemma busy_loop_not_early:
  "busy_loop dt pulse micros prev readings = Some t \<Longrightarrow> micros \<le> micros_between pulse prev \<Longrightarrow>
   \<forall>r \<in> set readings. t_sec pulse \<le> t_sec r \<Longrightarrow> uint dt \<le> micros_between pulse t"
proof (induction dt pulse micros prev readings rule: busy_loop.induct)
  case (1 dt pulse micros prev)
  then show ?case by (auto split: if_splits)
next
  case (2 dt pulse micros prev now readings)
  then show ?case by (auto split: if_splits simp: busy_micros_le)
qed

section \<open>When an alarm goes off\<close>

lemma remaining_parts:
  "unat ((r :: u32) div 1000) = unat r div 1000"
  "unat ((r - r div 1000 * 1000) * 1000000) = unat r mod 1000 * 1000000"
proof -
  show d: "unat (r div 1000) = unat r div 1000" by (simp add: unat_div)
  have "r - r div 1000 * 1000 = r mod 1000" by (simp add: minus_div_mult_eq_mod)
  moreover have "unat (r mod 1000) = unat r mod 1000" by (simp add: unat_mod)
  ultimately show "unat ((r - r div 1000 * 1000) * 1000000) = unat r mod 1000 * 1000000"
    by (simp add: unat_word_ariths)
qed

lemma future_expiry_ns:
  assumes "valid_ts now"
  shows "valid_ts (future_expiry now r)"
    "ns (future_expiry now r) = ns now + unat r * 1000000 +
      (if tv_nsec now + unat r mod 1000 * 1000000 > 999999999 then 1 else 0)"
proof -
  have m: "unat r mod 1000 * 1000000 \<le> 999000000" using mod_less_divisor [of 1000 "unat r"] by linarith
  have r: "unat r * 1000000 = unat r div 1000 * 1000000000 + unat r mod 1000 * 1000000"
    using div_mult_mod_eq [of "unat r" 1000] by linarith
  show "valid_ts (future_expiry now r)"
    unfolding future_expiry_def Let_def remaining_parts using assms m by (auto simp: valid_ts_def)
  show "ns (future_expiry now r) = ns now + unat r * 1000000 +
      (if tv_nsec now + unat r mod 1000 * 1000000 > 999999999 then 1 else 0)"
    unfolding future_expiry_def Let_def remaining_parts ns_def using r by auto
qed

lemma millis_ns: "valid_ts t \<Longrightarrow> millis t = of_nat (ns t div 1000000)"
proof -
  have "ns t div 1000000 = (tv_sec t * 1000 * 1000000 + tv_nsec t) div 1000000" by (simp add: ns_def)
  then have "ns t div 1000000 = tv_sec t * 1000 + tv_nsec t div 1000000" by simp
  then show ?thesis by (simp only: millis_def)
qed

lemma millis_future:
  assumes "valid_ts now"
  shows "millis (future_expiry now r) = millis now + r \<or> millis (future_expiry now r) = millis now + r + 1"
proof -
  have "ns (future_expiry now r) div 1000000 = ns now div 1000000 + unat r \<or>
    ns (future_expiry now r) div 1000000 = ns now div 1000000 + unat r + 1"
    unfolding future_expiry_ns(2) [OF assms] by (simp split: if_split) linarith
  then show ?thesis
    unfolding millis_ns [OF future_expiry_ns(1) [OF assms]] millis_ns [OF assms]
    by (elim disjE) (simp_all only: of_nat_add of_nat_unat ucast_id of_nat_1, simp_all)
qed

section \<open>Properties\<close>

text \<open>C32. An alarm for a time to come is set for that time: whatever the clock and the two
  arguments are, it goes off no earlier than the wanted number of milliseconds from now and at
  most one nanosecond later, the timer accepts it, and until then the alarm is running. The
  nanosecond is one the carry into the next second loses.\<close>

theorem alarm_future:
  assumes "valid_ts now" "millis now - t0 < dt"
  shows "\<exists>t. armed (alarm_startAt (Some now) t0 dt a) = Some t \<and> valid_ts t \<and>
    ns now + unat (dt - (millis now - t0)) * 1000000 \<le> ns t \<and>
    ns t \<le> ns now + unat (dt - (millis now - t0)) * 1000000 + 1 \<and>
    (millis t = t0 + dt \<or> millis t = t0 + dt + 1) \<and>
    alarm_isRunning now (alarm_startAt (Some now) t0 dt a) \<and>
    alarm_getAlarm (alarm_startAt (Some now) t0 dt a) = t0 + dt"
proof -
  let ?r = "dt - (millis now - t0)" let ?t = "future_expiry now ?r"
  have v: "valid_ts ?t" and n: "ns now + unat ?r * 1000000 \<le> ns ?t" "ns ?t \<le> ns now + unat ?r * 1000000 + 1"
    using future_expiry_ns [OF assms(1), of ?r] by auto
  have "?r \<noteq> 0" using assms(2) by auto
  then have "0 < unat ?r" by (simp add: unat_gt_0)
  with n(1) have later: "ns now < ns ?t" by linarith
  then have "\<not> (tv_sec ?t = 0 \<and> tv_nsec ?t = 0)" by (auto simp: ns_def)
  with v have armed: "armed (timer_settime ?t a') = Some ?t" for a' by (simp add: timer_settime_def)
  have start: "alarm_startAt (Some now) t0 dt a = timer_settime ?t (a\<lparr>last_alarm := t0 + dt\<rparr>)"
    using assms(2) by (simp add: alarm_startAt_def Let_def not_le)
  have "last_alarm (timer_settime ?t (a\<lparr>last_alarm := t0 + dt\<rparr>)) = t0 + dt"
    by (simp add: timer_settime_def)
  moreover have "now < ?t" using less_ns [OF assms(1) v] later by simp
  moreover have "millis now + ?r = t0 + dt" by simp
  then have "millis ?t = t0 + dt \<or> millis ?t = t0 + dt + 1" using millis_future [OF assms(1), of ?r] by (simp add: add.commute)
  ultimately show ?thesis
    using v n armed unfolding start by (auto simp: alarm_isRunning_def alarm_getAlarm_def)
qed

definition fresh_alarm :: alarm where
  "fresh_alarm = \<lparr>last_alarm = 0, armed = None\<rparr>"

theorem alarm_future_witness:
  "\<exists>t. armed (alarm_startAt (Some (TS 5 400000000)) 5400 1500 fresh_alarm) = Some t \<and> 6900000000 \<le> ns t \<and> ns t \<le> 6900000001"
  using alarm_future [of "TS 5 400000000" 5400 1500 fresh_alarm]
  by (auto simp: valid_ts_def millis_def ns_def)

text \<open>C33. An alarm whose time has already come is meant to go off half a millisecond from now. In
  the last half millisecond of every second it is not set at all: the nanoseconds are not
  carried into the seconds, the kernel refuses the time, and the timer stays as it was, so
  that a timer that was not running never fires. Otherwise it is set as meant.\<close>

theorem alarm_past:
  assumes "valid_ts now" "dt \<le> millis now - t0"
  shows "armed (alarm_startAt (Some now) t0 dt a) =
    (if 999500000 \<le> tv_nsec now then armed a else Some (TS (tv_sec now) (tv_nsec now + 500000)))"
  using assms
  by (auto simp: alarm_startAt_def Let_def timer_settime_def past_expiry_def valid_ts_def)

theorem alarm_past_witness:
  "armed (alarm_startAt (Some (TS 7 999600000)) 7000 10 fresh_alarm) = None"
  using alarm_past [of "TS 7 999600000" 10 7000 fresh_alarm]
  by (simp add: valid_ts_def millis_def fresh_alarm_def)

text \<open>The busy wait never returns early: when the loop ends, at least the wanted number of
  microseconds lies between the first reading of the clock and the last, as long as the clock
  does not go back a second.\<close>

lemma busy_wait_long_enough:
  assumes "busy_wait dt pulse readings = Some t" "\<forall>r \<in> set readings. t_sec pulse \<le> t_sec r"
  shows "uint dt \<le> micros_between pulse t"
  using busy_loop_not_early [of dt pulse 0 pulse readings t] assms
  by (simp add: busy_wait_def micros_between_def)

lemma busy_wait_long_enough_witness:
  "20 \<le> micros_between \<lparr>t_sec = 3, t_usec = 999990\<rparr> \<lparr>t_sec = 4, t_usec = 12\<rparr>"
  using busy_wait_long_enough [of 20 "\<lparr>t_sec = 3, t_usec = 999990\<rparr>"
      "[\<lparr>t_sec = 3, t_usec = 999995\<rparr>, \<lparr>t_sec = 4, t_usec = 12\<rparr>]" "\<lparr>t_sec = 4, t_usec = 12\<rparr>"]
  by (simp add: busy_wait_def busy_micros_def)

end
