(* ===== verification/IOManager.thy ===== *)
theory IOManager
  imports Prelude
begin

text \<open>
  Waiting for input and masking signals: the manager of the file descriptors the main loop
  sleeps on (\<open>IOManagerP.nc\<close>), the emulation of interrupts by signal masks (\<open>linux_atomic.h\<close>)
  and the sleep of the scheduler (\<open>McuSleepP.nc\<close>). The descriptors are kept in bytes; the value
  1 stands for an unused entry.
\<close>

section \<open>The map of descriptors\<close>

record io_manager =
  fd_map :: "u8 list"
  is_init :: bool

definition io_start :: "nat \<Rightarrow> io_manager" where
  "io_start n_fds = \<lparr>fd_map = replicate n_fds 0, is_init = False\<rparr>"

definition registerFileDescriptor :: "nat \<Rightarrow> int \<Rightarrow> io_manager \<Rightarrow> error_t \<times> io_manager" where
  "registerFileDescriptor i fd s =
     (let s = (if \<not> is_init s then s\<lparr>fd_map := replicate (length (fd_map s)) 1, is_init := True\<rparr> else s)
      in (SUCCESS, s\<lparr>fd_map := (fd_map s)[i := of_int fd]\<rparr>))"

definition unregisterFileDescriptor :: "nat \<Rightarrow> int \<Rightarrow> io_manager \<Rightarrow> error_t \<times> io_manager" where
  "unregisterFileDescriptor i fd s =
     (if \<not> is_init s then (EOFF, s) else (SUCCESS, s\<lparr>fd_map := (fd_map s)[i := 1]\<rparr>))"

text \<open>The loop that fills the set and computes the first argument of \<open>select\<close>, a byte that is
  compared before it is cut.\<close>

definition wait_step :: "u8 \<Rightarrow> nat set \<times> u8 \<Rightarrow> nat set \<times> u8" where
  "wait_step fd = (\<lambda>(rfds, nfds).
     if fd \<noteq> 1 then
       (insert (unat fd) rfds, if uint fd + 1 > uint nfds then of_int (uint fd + 1) else nfds)
     else (rfds, nfds))"

definition wait_set :: "io_manager \<Rightarrow> nat set \<times> u8" where
  "wait_set s = fold wait_step (fd_map s) ({}, 0)"

text \<open>\<open>select\<close> looks at the descriptors below its first argument; \<open>ready\<close> are those with input. When
  none of them has input it does not return with a positive number, and nothing is signalled;
  otherwise the entries of the map are gone through in order.\<close>

definition selected :: "nat set \<Rightarrow> io_manager \<Rightarrow> nat set" where
  "selected ready s = (let (rfds, nfds) = wait_set s in
     if \<exists>fd \<in> rfds. fd < unat nfds \<and> fd \<in> ready then {fd \<in> rfds. select_bit (unat nfds) ready fd} else {})"

definition waitForIO :: "nat set \<Rightarrow> io_manager \<Rightarrow> nat list" where
  "waitForIO ready s =
     filter (\<lambda>j. unat (fd_map s ! j) \<in> selected ready s) [0..<length (fd_map s)]"

section \<open>What it waits for\<close>

definition watched :: "io_manager \<Rightarrow> nat set" where
  "watched s = {unat fd | fd. fd \<in> set (fd_map s) \<and> fd \<noteq> 1}"

lemma wait_fold:
  assumes "\<forall>fd \<in> set fds. fd \<noteq> 255"
  shows "fst (fold wait_step fds (A, k)) = A \<union> {unat fd | fd. fd \<in> set fds \<and> fd \<noteq> 1} \<and>
    unat k \<le> unat (snd (fold wait_step fds (A, k))) \<and>
    (\<forall>fd \<in> set fds. fd \<noteq> 1 \<longrightarrow> unat fd < unat (snd (fold wait_step fds (A, k))))"
  using assms
proof (induction fds arbitrary: A k)
  case (Cons fd fds)
  have inc: "unat (fd + 1) = unat fd + 1"
  proof -
    have "unat fd \<noteq> 255" using Cons.prems by (auto simp: word_unat_eq_iff)
    then have "unat fd + 1 < 2 ^ LENGTH(8)" using unat_u8 [of fd] by simp
    then show ?thesis by (simp add: unat_word_ariths)
  qed
  define k' where "k' = (if uint fd + 1 > uint k then of_int (uint fd + 1) else k)"
  have "uint fd = int (unat fd)" "uint k = int (unat k)" by (rule uint_nat)+
  then have "uint fd + 1 > uint k \<longleftrightarrow> unat k < unat fd + 1" by linarith
  then have "k' = (if unat k < unat fd + 1 then fd + 1 else k)" by (simp add: k'_def)
  then have k': "unat k \<le> unat k'" "unat fd < unat k'" using inc by auto
  show ?case
  proof (cases "fd = 1")
    case True
    then show ?thesis using Cons.IH [of A k] Cons.prems by (auto simp: wait_step_def)
  next
    case False
    then have "fold wait_step (fd # fds) (A, k) = fold wait_step fds (insert (unat fd) A, k')"
      by (simp add: wait_step_def k'_def)
    with Cons.IH [of "insert (unat fd) A" k'] Cons.prems False k' show ?thesis by force
  qed
qed simp

lemma selected_ready:
  assumes "255 \<notin> set (fd_map s)"
  shows "selected ready s = watched s \<inter> ready"
proof -
  have "fst (wait_set s) = watched s" "\<forall>fd \<in> watched s. fd < unat (snd (wait_set s))"
    using wait_fold [of "fd_map s" "{}" 0] assms by (auto simp: wait_set_def watched_def)
  then show ?thesis by (auto simp: selected_def select_bit_def case_prod_beta)
qed

lemma one_never_watched: "1 \<notin> fst (wait_set s)"
proof -
  have "1 \<notin> fst (fold wait_step fds (A, k))" if "1 \<notin> A" for fds A k
    using that
    by (induction fds arbitrary: A k) (auto simp: wait_step_def word_unat_eq_iff)
  then show ?thesis by (simp add: wait_set_def)
qed

section \<open>Signals as interrupts\<close>

text \<open>The mask of blocked signals, the mask to go back to, and the flag. \<open>UNIV\<close> is every signal.\<close>

record interrupts =
  blocked :: "nat set"
  global_sigmask :: "nat set"
  interrupts_enabled :: bool

definition nesc_disable_interrupt :: "interrupts \<Rightarrow> interrupts" where
  "nesc_disable_interrupt s =
     (let temp_sigmask = blocked s; s = s\<lparr>blocked := UNIV\<rparr> in
      if interrupts_enabled s then s\<lparr>global_sigmask := temp_sigmask, interrupts_enabled := False\<rparr> else s)"

definition nesc_enable_interrupt :: "interrupts \<Rightarrow> interrupts" where
  "nesc_enable_interrupt s = s\<lparr>interrupts_enabled := True, blocked := global_sigmask s\<rparr>"

definition nesc_atomic_start :: "interrupts \<Rightarrow> bool \<times> interrupts" where
  "nesc_atomic_start s = (interrupts_enabled s, nesc_disable_interrupt s)"

definition nesc_atomic_end :: "bool \<Rightarrow> interrupts \<Rightarrow> interrupts" where
  "nesc_atomic_end reenable s = (if reenable then nesc_enable_interrupt s else s)"

text \<open>\<open>McuSleep.sleep\<close>: the scheduler calls it with interrupts disabled; \<open>wait\<close> is what happens in
  \<open>select\<close>, with the signals let through.\<close>

definition mcu_sleep :: "(interrupts \<Rightarrow> interrupts) \<Rightarrow> interrupts \<Rightarrow> interrupts" where
  "mcu_sleep wait s = nesc_disable_interrupt (wait (nesc_enable_interrupt s))"

text \<open>Code with nested atomic sections: \<open>Run\<close> looks at the state, \<open>Atomic\<close> brackets code.\<close>

datatype atomic_code = Run nat | Atomic "atomic_code list"

text \<open>The trace of the states in which the plain pieces ran, and the state at the end.\<close>

fun run_atomic :: "atomic_code \<Rightarrow> interrupts \<Rightarrow> (nat \<times> interrupts) list \<times> interrupts"
and run_atomics :: "atomic_code list \<Rightarrow> interrupts \<Rightarrow> (nat \<times> interrupts) list \<times> interrupts" where
  "run_atomic (Run n) s = ([(n, s)], s)"
| "run_atomic (Atomic cs) s =
     (let (prev, s1) = nesc_atomic_start s; (t, s2) = run_atomics cs s1 in (t, nesc_atomic_end prev s2))"
| "run_atomics [] s = ([], s)"
| "run_atomics (c # cs) s =
     (let (t1, s1) = run_atomic c s; (t2, s2) = run_atomics cs s1 in (t1 @ t2, s2))"

definition int_ok :: "interrupts \<Rightarrow> bool" where
  "int_ok s \<longleftrightarrow> (\<not> interrupts_enabled s \<longrightarrow> blocked s = UNIV)"

definition same_mask :: "interrupts \<Rightarrow> interrupts \<Rightarrow> bool" where
  "same_mask s t \<longleftrightarrow> blocked t = blocked s \<and> interrupts_enabled t = interrupts_enabled s \<and>
     (\<not> interrupts_enabled s \<longrightarrow> global_sigmask t = global_sigmask s)"

lemma run_atomic_same:
  "int_ok s \<Longrightarrow> same_mask s (snd (run_atomic c s)) \<and>
     (\<not> interrupts_enabled s \<longrightarrow> (\<forall>(n, t) \<in> set (fst (run_atomic c s)). blocked t = UNIV))"
  "int_ok s \<Longrightarrow> same_mask s (snd (run_atomics cs s)) \<and>
     (\<not> interrupts_enabled s \<longrightarrow> (\<forall>(n, t) \<in> set (fst (run_atomics cs s)). blocked t = UNIV))"
proof (induction c s and cs s rule: run_atomic_run_atomics.induct)
  case (1 n s)
  then show ?case by (auto simp: same_mask_def int_ok_def)
next
  case (2 cs s)
  let ?s1 = "nesc_disable_interrupt s"
  have "int_ok ?s1" "\<not> interrupts_enabled ?s1"
    by (simp_all add: int_ok_def nesc_disable_interrupt_def Let_def)
  with "2.IH" [OF _ refl] "2.prems" show ?case
    by (auto simp: nesc_atomic_start_def nesc_atomic_end_def nesc_enable_interrupt_def same_mask_def
        nesc_disable_interrupt_def int_ok_def Let_def case_prod_beta)
next
  case (3 s)
  then show ?case by (simp add: same_mask_def)
next
  case (4 c cs s)
  obtain t1 s1 where r1: "run_atomic c s = (t1, s1)" by (cases "run_atomic c s")
  obtain t2 s2 where r2: "run_atomics cs s1 = (t2, s2)" by (cases "run_atomics cs s1")
  from "4.IH"(1) "4.prems" r1 have c: "same_mask s s1" "\<not> interrupts_enabled s \<longrightarrow> (\<forall>(n, t) \<in> set t1. blocked t = UNIV)"
    by simp_all
  with "4.prems" have "int_ok s1" by (auto simp: same_mask_def int_ok_def)
  with "4.IH"(2) [OF r1 [symmetric] refl] r2
  have "same_mask s1 s2" "\<not> interrupts_enabled s1 \<longrightarrow> (\<forall>(n, t) \<in> set t2. blocked t = UNIV)" by simp_all
  with c r1 r2 show ?case by (auto simp: same_mask_def)
qed

section \<open>Properties\<close>

text \<open>The main loop wakes exactly the components that have input: with the map filled and no
  descriptor cut to 255, \<open>select\<close> looks at all registered descriptors and no other, and the
  entries signalled are, in order, those whose descriptor is ready.\<close>

lemma io_dispatch:
  assumes "is_init s" "255 \<notin> set (fd_map s)"
  shows "waitForIO ready s =
      filter (\<lambda>j. fd_map s ! j \<noteq> 1 \<and> unat (fd_map s ! j) \<in> ready) [0..<length (fd_map s)] \<and>
    (\<forall>fd \<in> watched s. fd < unat (snd (wait_set s))) \<and> fst (wait_set s) = watched s"
proof -
  have w: "unat fd \<in> watched s \<longleftrightarrow> fd \<noteq> 1" if "fd \<in> set (fd_map s)" for fd
    using that by (auto simp: watched_def word_unat_eq_iff)
  have "waitForIO ready s =
      filter (\<lambda>j. fd_map s ! j \<noteq> 1 \<and> unat (fd_map s ! j) \<in> ready) [0..<length (fd_map s)]"
    unfolding waitForIO_def selected_ready [OF assms(2)] by (rule filter_cong) (auto simp: w)
  then show ?thesis
    using wait_fold [of "fd_map s" "{}" 0] assms(2) by (auto simp: wait_set_def watched_def)
qed

lemma io_dispatch_witness:
  "waitForIO {7, 9} \<lparr>fd_map = [5, 1, 7], is_init = True\<rparr> = [2]"
  using io_dispatch [of "\<lparr>fd_map = [5, 1, 7], is_init = True\<rparr>" "{7, 9}"]
  by (simp add: upt_conv_Cons)

lemma register_init:
  "is_init s \<Longrightarrow> snd (registerFileDescriptor i fd s) = s\<lparr>fd_map := (fd_map s)[i := of_int fd]\<rparr>"
  by (simp add: registerFileDescriptor_def)

lemma wait_unused: "\<forall>fd \<in> set fds. fd = 1 \<Longrightarrow> fold wait_step fds x = x"
  by (induction fds) (auto simp: wait_step_def split: prod.split)

lemma wait_255:
  assumes "fd_map s = as @ 255 # bs" "\<forall>fd \<in> set bs. fd = 1"
  shows "selected ready s = {}"
proof -
  obtain A k where a: "fold wait_step as ({}, 0) = (A, k)" by fastforce
  have "uint k < 256" using uint_bounded [of k] by simp
  then have "snd (wait_set s) = 0"
    using wait_unused [OF assms(2)] by (simp add: wait_set_def assms(1) a wait_step_def)
  then show ?thesis by (simp add: selected_def case_prod_beta)
qed

lemma filter_upt_single:
  assumes "i < n" "\<And>j. j < n \<Longrightarrow> P j \<longleftrightarrow> j = i \<and> Q"
  shows "filter P [0..<n] = (if Q then [i] else [])"
proof -
  have "[0..<n] = [0..<i] @ i # [Suc i..<n]"
    using assms(1) by (metis less_imp_add_positive upt_add_eq_append upt_conv_Cons zero_le)
  then show ?thesis using assms by (auto simp: filter_empty_conv)
qed

text \<open>C34. Descriptors are kept modulo 256, with 1 as the mark of an unused entry, and the bound for
  \<open>select\<close> is a byte. A component that registers descriptor \<open>fd\<close> alone is woken by the input of
  descriptor \<open>fd mod 256\<close>, whatever that is; with the value 1 it is never woken; and with the value
  255 in the last entry that is used the bound is 0, and no component at all is woken.\<close>

theorem register_truncates:
  assumes "i < length (fd_map s)" "is_init s" "\<forall>j. i < j \<and> j < length (fd_map s) \<longrightarrow> fd_map s ! j = 1"
    and "s' = snd (registerFileDescriptor i fd s)"
  shows "(fd mod 256 = 255 \<longrightarrow> waitForIO ready s' = []) \<and>
    (fd mod 256 = 1 \<longrightarrow> i \<notin> set (waitForIO ready s')) \<and>
    (fd mod 256 \<notin> {1, 255} \<and> (\<forall>j < i. fd_map s ! j = 1) \<longrightarrow>
       waitForIO ready s' = (if nat (fd mod 256) \<in> ready then [i] else []))"
proof (intro conjI impI)
  define v where "v = (of_int fd :: u8)"
  have s': "fd_map s' = (fd_map s)[i := v]" "is_init s'"
    using assms(2,4) by (simp_all add: register_init v_def)
  have u: "uint v = fd mod 256" by (simp add: v_def uint_word_of_int)
  then have n: "unat v = nat (fd mod 256)" by (metis nat_uint_eq)
  {
    assume "fd mod 256 = 255"
    then have "v = 255" using u by (simp add: word_uint_eq_iff)
    then have "fd_map s' = take i (fd_map s) @ 255 # drop (Suc i) (fd_map s)"
      using s' assms(1) by (simp add: upd_conv_take_nth_drop)
    moreover have "\<forall>x \<in> set (drop (Suc i) (fd_map s)). x = 1"
      using assms(3) by (auto simp: in_set_conv_nth)
    ultimately show "waitForIO ready s' = []" by (simp add: waitForIO_def wait_255)
  }
  {
    assume "fd mod 256 = 1"
    then have "unat (fd_map s' ! i) = 1" using s' n assms(1) by simp
    moreover have "1 \<notin> selected ready s'" using one_never_watched [of s'] by (auto simp: selected_def case_prod_beta)
    ultimately show "i \<notin> set (waitForIO ready s')" by (simp add: waitForIO_def)
  }
  {
    assume a: "fd mod 256 \<notin> {1, 255} \<and> (\<forall>j < i. fd_map s ! j = 1)"
    then have v: "v \<noteq> 1" "v \<noteq> 255" using u by auto
    have at: "fd_map s' ! j = (if j = i then v else 1)" if "j < length (fd_map s)" for j
      using that a s' assms(1,3) by (cases j i rule: linorder_cases) auto
    then have "255 \<notin> set (fd_map s')" using v s' by (auto simp: in_set_conv_nth)
    from io_dispatch [OF s'(2) this, of ready]
    have "waitForIO ready s' = filter (\<lambda>j. fd_map s' ! j \<noteq> 1 \<and> unat (fd_map s' ! j) \<in> ready) [0..<length (fd_map s)]"
      using s' by simp
    also have "\<dots> = (if unat v \<in> ready then [i] else [])"
      using at v by (intro filter_upt_single [OF assms(1)]) auto
    finally show "waitForIO ready s' = (if nat (fd mod 256) \<in> ready then [i] else [])" by (simp add: n)
  }
qed

theorem register_truncates_witness:
  "let m = \<lparr>fd_map = [1, 1], is_init = True\<rparr>; m' = \<lparr>fd_map = [5, 1], is_init = True\<rparr> in
   waitForIO {5} (snd (registerFileDescriptor 1 261 m)) = [1] \<and>
   1 \<notin> set (waitForIO {1, 5} (snd (registerFileDescriptor 1 257 m'))) \<and>
   waitForIO {5, 255} (snd (registerFileDescriptor 1 255 m')) = []"
  using register_truncates [of 1 "\<lparr>fd_map = [1, 1], is_init = True\<rparr>" _ 261 "{5}", OF _ _ _ refl]
    register_truncates [of 1 "\<lparr>fd_map = [5, 1], is_init = True\<rparr>" _ 257 "{1, 5}", OF _ _ _ refl]
    register_truncates [of 1 "\<lparr>fd_map = [5, 1], is_init = True\<rparr>" _ 255 "{5, 255}", OF _ _ _ refl]
  by (auto simp: Let_def less_Suc_eq)

text \<open>C35. Atomic sections nest: whatever code with atomic sections inside atomic sections runs, the
  signal mask and the flag afterwards are what they were before, and every plain piece inside
  an atomic section, however deep, runs with all signals blocked.\<close>

theorem atomic_sections_nest:
  assumes "int_ok s"
  shows "blocked (snd (run_atomic (Atomic cs) s)) = blocked s \<and>
    interrupts_enabled (snd (run_atomic (Atomic cs) s)) = interrupts_enabled s \<and>
    (\<forall>(n, t) \<in> set (fst (run_atomic (Atomic cs) s)). blocked t = UNIV)"
proof -
  let ?s1 = "nesc_disable_interrupt s"
  have "int_ok ?s1" "\<not> interrupts_enabled ?s1"
    by (simp_all add: int_ok_def nesc_disable_interrupt_def Let_def)
  then have "\<forall>(n, t) \<in> set (fst (run_atomic (Atomic cs) s)). blocked t = UNIV"
    using run_atomic_same(2) [of ?s1 cs] by (simp add: nesc_atomic_start_def case_prod_beta Let_def)
  then show ?thesis using run_atomic_same(1) [OF assms, of "Atomic cs"] by (auto simp: same_mask_def)
qed

theorem atomic_sections_nest_witness:
  "blocked (snd (run_atomic (Atomic [Run 1, Atomic [Run 2], Run 3]) \<lparr>blocked = {17}, global_sigmask = {}, interrupts_enabled = True\<rparr>)) = {17}"
  using atomic_sections_nest [of "\<lparr>blocked = {17}, global_sigmask = {}, interrupts_enabled = True\<rparr>" "[Run 1, Atomic [Run 2], Run 3]"]
  by (simp add: int_ok_def)

end
