(* ===== verification/Interrupts.thy ===== *)
theory Interrupts
  imports Posix
begin

text \<open>
  GPIO interrupts from user space (\<open>Bcm2835InterruptP.nc\<close>): the main process sends the setting of
  a pin through a pipe to a child, which writes it to the edge file of the pin, keeps the value
  files of the pins that are on in an epoll set, and sends the main process a signal with the
  number of the pin when the kernel reports an interrupt.
\<close>

section \<open>Pins and settings\<close>

definition pins :: "nat list" where
  "pins = [2, 7, 8, 9, 10, 11, 14, 15, 18, 27]"

definition pin_names :: "string list" where
  "pin_names = [''2'', ''7'', ''8'', ''9'', ''10'', ''11'', ''14'', ''15'', ''18'', ''27'']"

datatype setting = INTERRUPT_NONE | INTERRUPT_RISING | INTERRUPT_FALLING

definition setting_str :: "string list" where
  "setting_str = [''none'', ''rising'', ''falling'']"

text \<open>An enumeration is kept as its number; the child indexes an array of strings with it.\<close>

fun setting_nr :: "setting \<Rightarrow> nat" where
  "setting_nr INTERRUPT_NONE = 0" | "setting_nr INTERRUPT_RISING = 1" | "setting_nr INTERRUPT_FALLING = 2"

text \<open>The message of the pipe: the pin, three bytes of padding, and the setting as a 32-bit
  number in the order of the machine, lowest byte first.\<close>

definition ISET_SIZE :: nat where "ISET_SIZE = 8"

definition put_iset :: "u8 list \<Rightarrow> u8 \<Rightarrow> setting \<Rightarrow> u8 list" where
  "put_iset pad pin st = [pin, pad ! 0, pad ! 1, pad ! 2, of_nat (setting_nr st), 0, 0, 0]"

definition iset_pin :: "u8 list \<Rightarrow> nat" where
  "iset_pin b = unat (b ! 0)"

definition iset_setting :: "u8 list \<Rightarrow> nat" where
  "iset_setting b = unat (b ! 4) + 256 * unat (b ! 5) + 65536 * unat (b ! 6) + 16777216 * unat (b ! 7)"

text \<open>The loop of \<open>get_pin_index\<close>, from an index on.\<close>

fun pin_index_from :: "nat \<Rightarrow> nat list \<Rightarrow> nat \<Rightarrow> int" where
  "pin_index_from i [] p = -1"
| "pin_index_from i (q # qs) p = (if q = p then int i else pin_index_from (Suc i) qs p)"

definition get_pin_index :: "nat \<Rightarrow> int" where
  "get_pin_index p = pin_index_from 0 pins p"

section \<open>The child: opening the files\<close>

record int_child = "u8 os" +
  gpio_edge_fds :: "int list"
  gpio_value_fds :: "int list"
  iset :: "u8 list"

definition int_child_init :: "u8 reply list \<Rightarrow> u8 list \<Rightarrow> int_child" where
  "int_child_init rs b = \<lparr>script = rs, trace = [], gpio_edge_fds = replicate 10 0,
     gpio_value_fds = replicate 10 0, iset = b\<rparr>"

definition gpio_path :: "nat \<Rightarrow> string \<Rightarrow> string" where
  "gpio_path i suffix = ''/sys/class/gpio/gpio'' @ show_nat (pins ! i) @ suffix"

text \<open>Exporting a pin; the value says whether the loop goes on with this pin. A pin that is busy
  is left as it is.\<close>

definition export_pin :: "int \<Rightarrow> nat \<Rightarrow> (bool, 'x int_child_scheme) prog" where
  "export_pin export_fd i =
     seq (syscall (Access (gpio_path i ''''))) (\<lambda>a.
       if failed a then
         seq (syscall (Write export_fd (bytes (pin_names ! i)))) (\<lambda>r.
           if failed r then (if err r = Some EBUSY_nr then ret False else stop 1) else ret True)
       else ret True)"

definition open_pin :: "nat \<Rightarrow> (unit, 'x int_child_scheme) prog" where
  "open_pin i =
     seq (syscall (Open (gpio_path i ''/edge''))) (\<lambda>e. if failed e then stop 1 else
     seq (modify (\<lambda>s. s\<lparr>gpio_edge_fds := (gpio_edge_fds s)[i := rval e]\<rparr>)) (\<lambda>_.
     seq (syscall (Write (rval e) (bytes (setting_str ! setting_nr INTERRUPT_NONE)))) (\<lambda>w.
       if failed w then stop 1 else
     seq (syscall (Open (gpio_path i ''/value''))) (\<lambda>v. if failed v then stop 1 else
     seq (modify (\<lambda>s. s\<lparr>gpio_value_fds := (gpio_value_fds s)[i := rval v]\<rparr>)) (\<lambda>_.
     seq (syscall (Read (rval v) 5)) (\<lambda>r. if failed r then stop 1 else
     seq (syscall (Lseek (rval v) 0)) (\<lambda>_. ret ())))))))"

definition init_pin :: "int \<Rightarrow> nat \<Rightarrow> (unit, 'x int_child_scheme) prog" where
  "init_pin export_fd i = seq (export_pin export_fd i) (\<lambda>go. if go then open_pin i else ret ())"

fun init_pins :: "int \<Rightarrow> nat list \<Rightarrow> (unit, 'x int_child_scheme) prog" where
  "init_pins export_fd [] = ret ()"
| "init_pins export_fd (i # is) = seq (init_pin export_fd i) (\<lambda>_. init_pins export_fd is)"

text \<open>Up to the main loop of the child; the result is the epoll descriptor.\<close>

definition int_child_start :: "int \<Rightarrow> int \<Rightarrow> (int, 'x int_child_scheme) prog" where
  "int_child_start pipe_rd pipe_wr =
     seq (syscall (Close pipe_wr)) (\<lambda>_.
     seq (syscall (Open ''/sys/class/gpio/export'')) (\<lambda>x. if failed x then stop 1 else
     seq (init_pins (rval x) [0..<length pins]) (\<lambda>_.
     seq (syscall Epoll_create) (\<lambda>e. if failed e then stop 1 else
     seq (syscall (Epoll_add (rval e) pipe_rd)) (\<lambda>r. if failed r then stop 1 else ret (rval e))))))"

section \<open>The child: the loop\<close>

text \<open>An index of an array that may be -1.\<close>

definition at_int :: "'a list \<Rightarrow> int \<Rightarrow> 'a option" where
  "at_int xs i = (if i < 0 then None else aget xs (nat i))"

text \<open>The switch that puts the value file into the epoll set or takes it out.\<close>

definition set_epoll :: "int \<Rightarrow> nat \<Rightarrow> int \<Rightarrow> (unit option, 'x int_child_scheme) prog" where
  "set_epoll ep n fd =
     (if n = setting_nr INTERRUPT_NONE then
        seq (syscall (Epoll_del ep fd)) (\<lambda>r.
          if failed r \<and> err r \<noteq> Some ENOENT then stop 1 else ret None)
      else if n = setting_nr INTERRUPT_RISING \<or> n = setting_nr INTERRUPT_FALLING then
        seq (syscall (Epoll_add ep fd)) (\<lambda>r.
          if failed r \<and> err r \<noteq> Some EEXIST then stop 1 else ret None)
      else ret None)"

definition handle_config :: "int \<Rightarrow> int \<Rightarrow> (unit option, 'x int_child_scheme) prog" where
  "handle_config ep pipe_rd =
     seq (syscall (Read pipe_rd ISET_SIZE)) (\<lambda>r.
       if failed r then stop 1
       else if payload ISET_SIZE r = [] then ret None
       else seq (access (\<lambda>s. memcpy_at (iset s) 0 (payload ISET_SIZE r))) (\<lambda>b.
         seq (modify (iset_update (\<lambda>_. b))) (\<lambda>_.
         let i = get_pin_index (iset_pin b) in
         seq (access (\<lambda>s. at_int (gpio_edge_fds s) i)) (\<lambda>fd.
         seq (access (\<lambda>s. aget setting_str (iset_setting b))) (\<lambda>str.
         seq (syscall (Write fd (bytes str))) (\<lambda>_.
         seq (access (\<lambda>s. at_int (gpio_value_fds s) i)) (\<lambda>v.
           set_epoll ep (iset_setting b) v)))))))"

text \<open>The search for the pin of a value file.\<close>

fun fd_index_from :: "int \<Rightarrow> int list \<Rightarrow> int \<Rightarrow> int" where
  "fd_index_from i [] fd = -1"
| "fd_index_from i (v # vs) fd = (if fd = v then i else fd_index_from (i + 1) vs fd)"

definition handle_interrupt :: "int \<Rightarrow> (unit option, 'x int_child_scheme) prog" where
  "handle_interrupt fd =
     seq (gets (\<lambda>s. fd_index_from 0 (gpio_value_fds s) fd)) (\<lambda>i.
     seq (syscall (Read fd 4)) (\<lambda>r. if failed r then stop 1 else
     seq (syscall (Lseek fd 0)) (\<lambda>_.
     seq (access (\<lambda>s. at_int pins i)) (\<lambda>p.
     seq (syscall (Sigqueue (int p))) (\<lambda>_. ret None)))))"

text \<open>One round of the loop: \<open>epoll_wait\<close> is asked for one event, so there is one or none.\<close>

definition int_round :: "int \<Rightarrow> int \<Rightarrow> (unit option, 'x int_child_scheme) prog" where
  "int_round ep pipe_rd =
     seq (syscall (Epoll_wait ep)) (\<lambda>r.
       if failed r then stop 1
       else if rval r < 1 then ret None
       else if rval2 r = pipe_rd then handle_config ep pipe_rd
       else handle_interrupt (rval2 r))"

definition int_child_main :: "int \<Rightarrow> int \<Rightarrow> (unit, 'x int_child_scheme) prog" where
  "int_child_main ep pipe_rd = forever (int_round ep pipe_rd)"

section \<open>The main process\<close>

record int_main = "u8 os" +
  int_settings_pipe :: int
  fired :: "nat list"

text \<open>\<open>Init.init\<close>: the result tells the child the two ends of its pipe.\<close>

definition int_init :: "(error_t + int \<times> int, 'x int_main_scheme) prog" where
  "int_init =
     seq (syscall Pipe) (\<lambda>p. if failed p then stop 1 else
     seq (syscall Fork) (\<lambda>f.
       if \<not> failed f \<and> rval f = 0 then ret (Inr (rval p, rval2 p))
       else seq (syscall (Close (rval p))) (\<lambda>_.
         seq (modify (int_settings_pipe_update (\<lambda>_. rval2 p))) (\<lambda>_. ret (Inl SUCCESS)))))"

definition configure_interrupt :: "u8 list \<Rightarrow> u8 \<Rightarrow> setting \<Rightarrow> (unit, 'x int_main_scheme) prog" where
  "configure_interrupt pad pin st =
     seq (gets int_settings_pipe) (\<lambda>fd.
     seq (syscall (Write fd (put_iset pad pin st))) (\<lambda>r. if failed r then stop 1 else ret ()))"

definition enableRisingEdge :: "u8 list \<Rightarrow> u8 \<Rightarrow> (error_t, 'x int_main_scheme) prog" where
  "enableRisingEdge pad pin = seq (configure_interrupt pad pin INTERRUPT_RISING) (\<lambda>_. ret SUCCESS)"

definition enableFallingEdge :: "u8 list \<Rightarrow> u8 \<Rightarrow> (error_t, 'x int_main_scheme) prog" where
  "enableFallingEdge pad pin = seq (configure_interrupt pad pin INTERRUPT_FALLING) (\<lambda>_. ret SUCCESS)"

definition disable_interrupt :: "u8 list \<Rightarrow> u8 \<Rightarrow> (error_t, 'x int_main_scheme) prog" where
  "disable_interrupt pad pin = seq (configure_interrupt pad pin INTERRUPT_NONE) (\<lambda>_. ret SUCCESS)"

text \<open>The signal handler: the event of the pin, whose number nesC passes as a byte.\<close>

definition InterruptSignal :: "int \<Rightarrow> 'x int_main_scheme \<Rightarrow> 'x int_main_scheme" where
  "InterruptSignal chip_pin s = s\<lparr>fired := fired s @ [nat (chip_pin mod 256)]\<rparr>"

section \<open>Messages and indices\<close>

lemma put_iset_roundtrip [simp]:
  "length (put_iset pad pin st) = ISET_SIZE" "iset_pin (put_iset pad pin st) = unat pin"
  "iset_setting (put_iset pad pin st) = setting_nr st"
  by (cases st; simp add: put_iset_def ISET_SIZE_def iset_pin_def iset_setting_def)+

lemma pins_less: "i < 10 \<Longrightarrow> i = 0 \<or> i = 1 \<or> i = 2 \<or> i = 3 \<or> i = 4 \<or> i = 5 \<or> i = 6 \<or> i = 7 \<or> i = 8 \<or> i = (9::nat)"
  by presburger

lemma get_pin_index_pin: "i < 10 \<Longrightarrow> get_pin_index (pins ! i) = int i"
  by (drule pins_less) (auto simp: get_pin_index_def pins_def)

lemma pin_byte: "i < 10 \<Longrightarrow> unat (of_nat (pins ! i) :: u8) = pins ! i"
  by (drule pins_less) (auto simp: pins_def)

lemma get_pin_index_none: "p \<notin> set pins \<Longrightarrow> get_pin_index p = -1"
  by (simp add: get_pin_index_def pins_def)

lemma fd_index_nth: "distinct vs \<Longrightarrow> i < length vs \<Longrightarrow> fd_index_from k vs (vs ! i) = k + int i"
proof (induction vs arbitrary: i k)
  case (Cons v vs)
  then show ?case by (cases i) (auto simp: Cons.IH)
qed simp

lemma at_int_nat [simp]: "at_int xs (int i) = aget xs i"
  by (simp add: at_int_def)

lemma setting_str_nr: "aget setting_str (setting_nr st) = Some (setting_str ! setting_nr st)"
  by (cases st) (simp_all add: setting_str_def aget_def)

section \<open>What the kernel knows\<close>

text \<open>The value files the kernel reports interrupts of, and the content of the edge files, as the
  calls of the child made them; and the signals it sent.\<close>

fun watch :: "'b call \<times> 'b reply \<Rightarrow> int set \<Rightarrow> int set" where
  "watch (Epoll_add ep fd, r) A = (if failed r then A else insert fd A)"
| "watch (Epoll_del ep fd, r) A = (if failed r then A else A - {fd})"
| "watch _ A = A"

definition interest :: "('b call \<times> 'b reply) list \<Rightarrow> int set" where
  "interest tr = fold watch tr {}"

fun edge_upd :: "'b call \<times> 'b reply \<Rightarrow> (int \<rightharpoonup> 'b list) \<Rightarrow> (int \<rightharpoonup> 'b list)" where
  "edge_upd (Write fd b, r) m = (if failed r then m else m(fd \<mapsto> b))"
| "edge_upd _ m = m"

definition edges :: "('b call \<times> 'b reply) list \<Rightarrow> int \<rightharpoonup> 'b list" where
  "edges tr = fold edge_upd tr Map.empty"

fun sent_signal :: "'b call \<times> 'b reply \<Rightarrow> int list" where
  "sent_signal (Sigqueue p, r) = [p]"
| "sent_signal _ = []"

definition signals :: "('b call \<times> 'b reply) list \<Rightarrow> int list" where
  "signals tr = concat (map sent_signal tr)"

lemma kernel_append:
  "interest (tr @ [x]) = watch x (interest tr)" "edges (tr @ [x]) = edge_upd x (edges tr)"
  "signals (tr @ [x]) = signals tr @ sent_signal x"
  by (simp_all add: interest_def edges_def signals_def)

lemma kernel_Nil [simp]: "interest [] = {}" "edges [] = Map.empty" "signals [] = []"
  by (simp_all add: interest_def edges_def signals_def)

text \<open>What happens to the child: a setting for the pin with an index arrives, or an interrupt of it.\<close>

datatype int_event = Config nat setting | Edge nat

definition event_index :: "int_event \<Rightarrow> nat" where
  "event_index ev = (case ev of Config i st \<Rightarrow> i | Edge i \<Rightarrow> i)"

fun set_cur :: "int_event \<Rightarrow> (nat \<Rightarrow> setting) \<Rightarrow> (nat \<Rightarrow> setting)" where
  "set_cur (Config i st) cur = cur(i := st)"
| "set_cur (Edge i) cur = cur"

fun edge_pins :: "int_event list \<Rightarrow> int list" where
  "edge_pins [] = []"
| "edge_pins (Config i st # evs) = edge_pins evs"
| "edge_pins (Edge i # evs) = int (pins ! i) # edge_pins evs"

text \<open>The replies of a kernel that does what it is asked for, with the value files \<open>V\<close>: it refuses
  to add a file that is in the epoll set and to remove one that is not.\<close>

definition event_reply :: "int \<Rightarrow> u8 reply" where
  "event_reply fd = \<lparr>err = None, rval = 1, rval2 = fd, data = [], ready = {}\<rparr>"

definition config_reply :: "setting \<Rightarrow> setting \<Rightarrow> u8 reply" where
  "config_reply old st =
     (if st = INTERRUPT_NONE then (if old = INTERRUPT_NONE then err_reply ENOENT else ok_reply 0)
      else if old = INTERRUPT_NONE then ok_reply 0 else err_reply EEXIST)"

fun event_replies :: "int \<Rightarrow> (nat \<Rightarrow> int) \<Rightarrow> u8 list \<Rightarrow> (nat \<Rightarrow> setting) \<Rightarrow> int_event list \<Rightarrow> u8 reply list" where
  "event_replies rd V pad cur [] = []"
| "event_replies rd V pad cur (Config i st # evs) =
     event_reply rd # data_reply (put_iset pad (of_nat (pins ! i)) st) # ok_reply 4 #
     config_reply (cur i) st # event_replies rd V pad (cur(i := st)) evs"
| "event_replies rd V pad cur (Edge i # evs) =
     event_reply (V i) # data_reply [49, 10] # ok_reply 0 # ok_reply 0 # event_replies rd V pad cur evs"

text \<open>The value files of the pins that are on.\<close>

definition on_files :: "(nat \<Rightarrow> int) \<Rightarrow> (nat \<Rightarrow> setting) \<Rightarrow> int set" where
  "on_files V cur = V ` {i. i < 10 \<and> cur i \<noteq> INTERRUPT_NONE}"

lemma on_files_upd:
  assumes "i < 10" "inj_on V {..<10}"
  shows "on_files V (cur(i := st)) =
    (if st = INTERRUPT_NONE then on_files V cur - {V i} else insert (V i) (on_files V cur))"
proof -
  let ?A = "{j. j < 10 \<and> cur j \<noteq> INTERRUPT_NONE}"
  have "V ` (?A - {i}) = V ` ?A - V ` {i}"
    by (rule inj_on_image_set_diff [OF assms(2)]) (use assms(1) in auto)
  moreover have "{j. j < 10 \<and> (cur(i := st)) j \<noteq> INTERRUPT_NONE} = (if st = INTERRUPT_NONE then ?A - {i} else insert i ?A)"
    using assms(1) by auto
  ultimately show ?thesis by (simp add: on_files_def)
qed

lemma on_files_iff: "i < 10 \<Longrightarrow> inj_on V {..<10} \<Longrightarrow> V i \<in> on_files V cur \<longleftrightarrow> cur i \<noteq> INTERRUPT_NONE"
  by (auto simp: on_files_def inj_on_def)

text \<open>What holds between the rounds.\<close>

definition child_inv :: "int \<Rightarrow> (nat \<Rightarrow> int) \<Rightarrow> (nat \<Rightarrow> int) \<Rightarrow> (nat \<Rightarrow> setting) \<Rightarrow> int_child \<Rightarrow> bool" where
  "child_inv rd E V cur s \<longleftrightarrow>
     gpio_edge_fds s = map E [0..<10] \<and> gpio_value_fds s = map V [0..<10] \<and> length (iset s) = ISET_SIZE \<and>
     interest (trace s) = insert rd (on_files V cur) \<and>
     (\<forall>i < 10. edges (trace s) (E i) = Some (bytes (setting_str ! setting_nr (cur i))))"

section \<open>Rounds\<close>

lemma config_round:
  assumes "child_inv rd E V cur s" "i < 10" "inj_on E {..<10}" "inj_on V {..<10}" "\<forall>i < 10. V i \<noteq> rd"
    and "script s = event_reply rd # data_reply (put_iset pad (of_nat (pins ! i)) st) # ok_reply 4 # config_reply (cur i) st # rs"
  obtains s' where "int_round ep rd s = Ret None s'" "child_inv rd E V (cur(i := st)) s'" "script s' = rs"
    "signals (trace s') = signals (trace s)"
proof -
  let ?b = "put_iset pad (of_nat (pins ! i)) st" and ?str = "bytes (setting_str ! setting_nr st)"
  let ?ep = "if st = INTERRUPT_NONE then Epoll_del ep (V i) else Epoll_add ep (V i)"
  let ?tr = "trace s @ [(Epoll_wait ep, event_reply rd), (Read rd ISET_SIZE, data_reply ?b),
    (Write (E i) ?str, ok_reply 4), (?ep, config_reply (cur i) st)]"
  have len: "length ?b = ISET_SIZE" "length (iset s) = ISET_SIZE"
    using assms(1) by (simp_all add: child_inv_def)
  have ne: "?b \<noteq> []" by (simp add: put_iset_def)
  have run: "int_round ep rd s = Ret None (s\<lparr>script := rs, trace := ?tr, iset := ?b\<rparr>)"
    using assms(1,2,6) len ne
    by (cases st) (simp_all add: int_round_def handle_config_def seq_syscall event_reply_def payload_def
        memcpy_at_def child_inv_def get_pin_index_pin pin_byte aget_def setting_str_def set_epoll_def
        config_reply_def ret_def Let_def)
  have ints: "interest ?tr = watch (?ep, config_reply (cur i) st) (interest (trace s))"
    by (simp add: interest_def)
  have edg: "edges ?tr = (edges (trace s))(E i \<mapsto> ?str)"
    by (simp add: edges_def)
  have cur: "E j = E i \<longleftrightarrow> j = i" if "j < 10" for j
    using assms(2,3) that by (auto simp: inj_on_def)
  have "interest (trace s) = insert rd (on_files V cur)" "V i \<noteq> rd"
    using assms(1,2,5) by (simp_all add: child_inv_def)
  then have I: "interest ?tr = insert rd (on_files V (cur(i := st)))"
    using on_files_iff [OF assms(2,4)] unfolding ints on_files_upd [OF assms(2,4)]
    by (auto simp: config_reply_def)
  have "\<forall>j < 10. edges ?tr (E j) = Some (bytes (setting_str ! setting_nr ((cur(i := st)) j)))"
    using assms(1) cur unfolding edg by (auto simp: child_inv_def)
  with I assms(1) have "child_inv rd E V (cur(i := st)) (s\<lparr>script := rs, trace := ?tr, iset := ?b\<rparr>)"
    by (simp add: child_inv_def)
  moreover have "signals ?tr = signals (trace s)" by (simp add: signals_def)
  ultimately show ?thesis using that [OF run] by simp
qed

lemma edge_round:
  assumes "child_inv rd E V cur s" "i < 10" "inj_on V {..<10}" "\<forall>i < 10. V i \<noteq> rd"
    and "script s = event_reply (V i) # data_reply [49, 10] # ok_reply 0 # ok_reply 0 # rs"
  obtains s' where "int_round ep rd s = Ret None s'" "child_inv rd E V cur s'" "script s' = rs"
    "signals (trace s') = signals (trace s) @ [int (pins ! i)]"
proof -
  let ?tr = "trace s @ [(Epoll_wait ep, event_reply (V i)), (Read (V i) 4, data_reply [49, 10]),
    (Lseek (V i) 0, ok_reply 0), (Sigqueue (int (pins ! i)), ok_reply 0)]"
  have "distinct (map V [0..<10])" using assms(3) by (simp add: distinct_map atLeast0LessThan)
  from fd_index_nth [OF this, of i 0] have ix: "fd_index_from 0 (map V [0..<10]) (V i) = int i"
    using assms(2) by simp
  have "length pins = 10" by (simp add: pins_def)
  then have run: "int_round ep rd s = Ret None (s\<lparr>script := rs, trace := ?tr\<rparr>)"
    using assms(1,2,4,5) ix
    by (simp add: int_round_def handle_interrupt_def seq_syscall event_reply_def child_inv_def aget_def ret_def)
  moreover have "child_inv rd E V cur (s\<lparr>script := rs, trace := ?tr\<rparr>)"
    using assms(1) by (simp add: child_inv_def interest_def edges_def)
  moreover have "signals ?tr = signals (trace s) @ [int (pins ! i)]" by (simp add: signals_def)
  ultimately show ?thesis using that by simp
qed

lemma consumes_int_round: "consumes (int_round ep rd)"
  unfolding int_round_def
proof (rule consumes_seq [OF consumes_syscall])
  show "nonexpanding (if failed r then stop 1 else if rval r < 1 then ret None
      else if rval2 r = rd then handle_config ep rd else handle_interrupt (rval2 r))" for r
    by (auto simp: handle_config_def handle_interrupt_def set_epoll_def Let_def
        intro!: nonexpanding_gets nonexpanding_seq nonexpanding_prims nonexpanding_modify)
qed

text \<open>A run over a list of events.\<close>

lemma int_child_runs:
  assumes "inj_on E {..<10}" "inj_on V {..<10}" "\<forall>i < 10. V i \<noteq> rd"
  shows "child_inv rd E V cur s \<Longrightarrow> \<forall>ev \<in> set evs. event_index ev < 10 \<Longrightarrow>
    script s = event_replies rd V pad cur evs \<Longrightarrow>
    \<exists>s'. int_child_main ep rd s = Blocked s' \<and> child_inv rd E V (fold set_cur evs cur) s' \<and>
      signals (trace s') = signals (trace s) @ edge_pins evs"
proof (induction evs arbitrary: s cur)
  case Nil
  then have "int_round ep rd s = Blocked s" by (simp add: int_round_def seq_syscall)
  then have "int_child_main ep rd s = Blocked s"
    unfolding int_child_main_def by (subst forever_unfold [OF consumes_int_round]) simp
  with Nil show ?case by simp
next
  case (Cons ev evs)
  obtain s' where s': "int_round ep rd s = Ret None s'" "child_inv rd E V (set_cur ev cur) s'"
      "script s' = event_replies rd V pad (set_cur ev cur) evs"
      "signals (trace s') = signals (trace s) @ edge_pins [ev]"
  proof (cases ev)
    case (Config i st)
    then have i: "i < 10" "script s = event_reply rd # data_reply (put_iset pad (of_nat (pins ! i)) st) #
        ok_reply 4 # config_reply (cur i) st # event_replies rd V pad (cur(i := st)) evs"
      using Cons.prems by (simp_all add: event_index_def)
    from config_round [OF Cons.prems(1) i(1) assms i(2)] Config that show ?thesis by (metis append_Nil2 edge_pins.simps(1,2) set_cur.simps(1))
  next
    case (Edge i)
    then have i: "i < 10" "script s = event_reply (V i) # data_reply [49, 10] # ok_reply 0 # ok_reply 0 #
        event_replies rd V pad cur evs"
      using Cons.prems by (simp_all add: event_index_def)
    from edge_round [OF Cons.prems(1) i(1) assms(2,3) i(2)] Edge that show ?thesis by (metis edge_pins.simps(1,3) set_cur.simps(2))
  qed
  have "edge_pins (ev # evs) = edge_pins [ev] @ edge_pins evs" by (cases ev) simp_all
  moreover have "int_child_main ep rd s = int_child_main ep rd s'"
    unfolding int_child_main_def using s'(1) by (subst forever_unfold [OF consumes_int_round]) simp
  ultimately show ?case using Cons.IH [OF s'(2) _ s'(3)] Cons.prems(2) s'(4) by auto
qed

section \<open>Starting the child\<close>

definition pin_replies :: "(nat \<Rightarrow> int) \<Rightarrow> (nat \<Rightarrow> int) \<Rightarrow> nat \<Rightarrow> u8 reply list" where
  "pin_replies E V i = [ok_reply 0, ok_reply (E i), ok_reply 4, ok_reply (V i), data_reply [48, 10], ok_reply 0]"

definition start_replies :: "int \<Rightarrow> int \<Rightarrow> (nat \<Rightarrow> int) \<Rightarrow> (nat \<Rightarrow> int) \<Rightarrow> u8 reply list" where
  "start_replies x ep E V =
     [ok_reply 0, ok_reply x] @ concat (map (pin_replies E V) [0..<10]) @ [ok_reply ep, ok_reply 0]"

lemma init_pins_ok:
  assumes "script s = concat (map (pin_replies E V) is) @ rs"
  shows "\<exists>s'. init_pins x is s = Ret () s' \<and> script s' = rs \<and> iset s' = iset s \<and>
    gpio_edge_fds s' = fold (\<lambda>i xs. xs[i := E i]) is (gpio_edge_fds s) \<and>
    gpio_value_fds s' = fold (\<lambda>i xs. xs[i := V i]) is (gpio_value_fds s) \<and>
    interest (trace s') = interest (trace s) \<and> signals (trace s') = signals (trace s) \<and>
    edges (trace s') = fold (\<lambda>i m. m(E i \<mapsto> bytes ''none'')) is (edges (trace s))"
  using assms
proof (induction "is" arbitrary: s)
  case Nil
  then show ?case by (simp add: ret_def)
next
  case (Cons i "is")
  let ?rs = "concat (map (pin_replies E V) is) @ rs"
  let ?s = "s\<lparr>script := ?rs, gpio_edge_fds := (gpio_edge_fds s)[i := E i], gpio_value_fds := (gpio_value_fds s)[i := V i],
    trace := trace s @ [(Access (gpio_path i ''''), ok_reply 0), (Open (gpio_path i ''/edge''), ok_reply (E i)),
      (Write (E i) (bytes ''none''), ok_reply 4), (Open (gpio_path i ''/value''), ok_reply (V i)),
      (Read (V i) 5, data_reply [48, 10]), (Lseek (V i) 0, ok_reply 0)]\<rparr>"
  have "init_pin x i s = Ret () ?s"
    using Cons.prems
    by (simp add: init_pin_def export_pin_def open_pin_def seq_syscall pin_replies_def [of E V i] seq_seq ret_def setting_str_def)
  moreover have "interest (trace ?s) = interest (trace s)" "signals (trace ?s) = signals (trace s)"
      "edges (trace ?s) = (edges (trace s))(E i \<mapsto> bytes ''none'')"
    by (simp_all add: interest_def signals_def edges_def)
  ultimately show ?case using Cons.IH [of ?s] by simp
qed

lemma fold_upd_all:
  assumes "length xs = n"
  shows "fold (\<lambda>i xs. xs[i := f i]) [0..<n] xs = map f [0..<n]"
proof -
  have "k \<le> n \<Longrightarrow> fold (\<lambda>i xs. xs[i := f i]) [0..<k] xs = map f [0..<k] @ drop k xs" for k
  proof (induction k)
    case (Suc k)
    then have "drop k xs = xs ! k # drop (Suc k) xs" using assms by (simp add: Cons_nth_drop_Suc)
    with Suc show ?case by (simp add: list_update_append)
  qed simp
  then show ?thesis using assms by simp
qed

lemma fold_map_upd_keep: "m x = Some c \<Longrightarrow> fold (\<lambda>i m. m(E i \<mapsto> c)) is m x = Some c"
  by (induction "is" arbitrary: m) auto

lemma fold_map_upd: "j \<in> set is \<Longrightarrow> fold (\<lambda>i m. m(E i \<mapsto> c)) is m (E j) = Some c"
  by (induction "is" arbitrary: m) (auto simp: fold_map_upd_keep)

lemma int_child_starts:
  assumes "script s = start_replies x ep E V @ rs" "trace s = []"
    and "length (gpio_edge_fds s) = 10" "length (gpio_value_fds s) = 10" "length (iset s) = ISET_SIZE"
  obtains s' where "int_child_start rd wr s = Ret ep s'" "child_inv rd E V (\<lambda>_. INTERRUPT_NONE) s'"
    "script s' = rs" "signals (trace s') = []"
proof -
  let ?s = "s\<lparr>script := concat (map (pin_replies E V) [0..<10]) @ ok_reply ep # ok_reply 0 # rs,
    trace := [(Close wr, ok_reply 0), (Open ''/sys/class/gpio/export'', ok_reply x)]\<rparr>"
  have "length pins = 10" by (simp add: pins_def)
  from init_pins_ok [of ?s E V "[0..<10]" "ok_reply ep # ok_reply 0 # rs" x]
  obtain t where t: "init_pins x [0..<10] ?s = Ret () t" "script t = ok_reply ep # ok_reply 0 # rs" "iset t = iset s"
      "gpio_edge_fds t = map E [0..<10]" "gpio_value_fds t = map V [0..<10]" "interest (trace t) = {}"
      "signals (trace t) = []" "edges (trace t) = fold (\<lambda>i m. m(E i \<mapsto> bytes ''none'')) [0..<10] Map.empty"
    using fold_upd_all [OF assms(3), of E] fold_upd_all [OF assms(4), of V]
    by (auto simp: interest_def signals_def edges_def)
  let ?t = "t\<lparr>script := rs, trace := trace t @ [(Epoll_create, ok_reply ep), (Epoll_add ep rd, ok_reply 0)]\<rparr>"
  have "int_child_start rd wr s = Ret ep ?t"
    unfolding int_child_start_def \<open>length pins = 10\<close>
    using assms(1,2) t(1,2) by (simp add: start_replies_def seq_syscall ret_def)
  moreover have "child_inv rd E V (\<lambda>_. INTERRUPT_NONE) ?t"
    using t(3-8) assms(5) by (simp add: child_inv_def interest_def edges_def on_files_def fold_map_upd setting_str_def)
  moreover have "signals (trace ?t) = []" using t(7) by (simp add: signals_def)
  ultimately show ?thesis using that by simp
qed

section \<open>The main process and the pipe\<close>

lemma enable_writes:
  assumes "script s = r # rs" "\<not> failed r"
  shows "enableRisingEdge pad pin s = Ret SUCCESS (s\<lparr>script := rs,
      trace := trace s @ [(Write (int_settings_pipe s) (put_iset pad pin INTERRUPT_RISING), r)]\<rparr>)"
    "enableFallingEdge pad pin s = Ret SUCCESS (s\<lparr>script := rs,
      trace := trace s @ [(Write (int_settings_pipe s) (put_iset pad pin INTERRUPT_FALLING), r)]\<rparr>)"
    "disable_interrupt pad pin s = Ret SUCCESS (s\<lparr>script := rs,
      trace := trace s @ [(Write (int_settings_pipe s) (put_iset pad pin INTERRUPT_NONE), r)]\<rparr>)"
  using assms
  by (simp_all add: enableRisingEdge_def enableFallingEdge_def disable_interrupt_def configure_interrupt_def
      seq_syscall seq_seq ret_def)

lemma signal_fires: "i < 10 \<Longrightarrow> fired (InterruptSignal (int (pins ! i)) s) = fired s @ [pins ! i]"
  by (drule pins_less) (auto simp: InterruptSignal_def pins_def)

section \<open>Properties\<close>

lemma child_runs_events:
  assumes "inj_on E {..<10}" "inj_on V {..<10}" "\<forall>i < 10. V i \<noteq> rd" "length b = ISET_SIZE"
    and "\<forall>ev \<in> set evs. event_index ev < 10"
  shows "\<exists>s'. seq (int_child_start rd wr) (\<lambda>ep. int_child_main ep rd)
        (int_child_init (start_replies x ep E V @ event_replies rd V pad (\<lambda>_. INTERRUPT_NONE) evs) b) = Blocked s' \<and>
      child_inv rd E V (fold set_cur evs (\<lambda>_. INTERRUPT_NONE)) s' \<and> signals (trace s') = edge_pins evs"
proof -
  let ?s = "int_child_init (start_replies x ep E V @ event_replies rd V pad (\<lambda>_. INTERRUPT_NONE) evs) b"
  obtain t where t: "int_child_start rd wr ?s = Ret ep t" "child_inv rd E V (\<lambda>_. INTERRUPT_NONE) t"
      "script t = event_replies rd V pad (\<lambda>_. INTERRUPT_NONE) evs" "signals (trace t) = []"
    by (rule int_child_starts [of ?s x ep E V "event_replies rd V pad (\<lambda>_. INTERRUPT_NONE) evs" rd wr])
      (simp_all add: int_child_init_def assms(4))
  from int_child_runs [OF assms(1-3) t(2) assms(5) t(3), of ep]
  obtain s' where s': "int_child_main ep rd t = Blocked s'" "child_inv rd E V (fold set_cur evs (\<lambda>_. INTERRUPT_NONE)) s'"
      "signals (trace s') = edge_pins evs"
    using t(4) by auto
  have "seq (int_child_start rd wr) (\<lambda>ep. int_child_main ep rd) ?s = Blocked s'"
    using s'(1) t(1) by simp
  with s'(2,3) show ?thesis by blast
qed

text \<open>C11. The child does what the main process asked for, and nothing else: whatever settings and
  interrupts arrive in whatever order, after starting it keeps exactly the value files of the
  pins that are on in its epoll set (and the pipe), each edge file holds the last setting of
  its pin, and the signals sent to the main process are the pins of the interrupts, in order.
  It never exits, faults or leaves its loop: it stops only when the kernel has nothing more.\<close>

theorem interrupts_follow_settings:
  assumes "inj_on E {..<10}" "inj_on V {..<10}" "\<forall>i < 10. V i \<noteq> rd" "length b = ISET_SIZE"
    and "\<forall>ev \<in> set evs. event_index ev < 10" "cur = fold set_cur evs (\<lambda>_. INTERRUPT_NONE)"
  shows "\<exists>s'. seq (int_child_start rd wr) (\<lambda>ep. int_child_main ep rd)
        (int_child_init (start_replies x ep E V @ event_replies rd V pad (\<lambda>_. INTERRUPT_NONE) evs) b) = Blocked s' \<and>
      interest (trace s') = insert rd (on_files V cur) \<and>
      (\<forall>i < 10. edges (trace s') (E i) = Some (bytes (setting_str ! setting_nr (cur i)))) \<and>
      signals (trace s') = edge_pins evs"
  using child_runs_events [OF assms(1-5)] unfolding assms(6) child_inv_def by metis

theorem interrupts_follow_settings_witness:
  "\<exists>s'. seq (int_child_start 7 8) (\<lambda>ep. int_child_main ep 7)
      (int_child_init (start_replies 3 4 (\<lambda>i. 20 + int i) (\<lambda>i. 40 + int i) @
        event_replies 7 (\<lambda>i. 40 + int i) [0, 0, 0] (\<lambda>_. INTERRUPT_NONE)
          [Config 3 INTERRUPT_RISING, Edge 3, Config 5 INTERRUPT_FALLING, Config 3 INTERRUPT_NONE])
        (replicate 8 0)) = Blocked s' \<and>
    signals (trace s') = [9] \<and> edges (trace s') 25 = Some (bytes ''falling'')"
proof -
  let ?evs = "[Config 3 INTERRUPT_RISING, Edge 3, Config 5 INTERRUPT_FALLING, Config 3 INTERRUPT_NONE]"
  let ?E = "\<lambda>i. 20 + int i" and ?V = "\<lambda>i. 40 + int i"
  have inj: "inj_on ?E {..<10}" "inj_on ?V {..<10}" by (simp_all add: inj_on_def)
  have V: "\<forall>i < 10. ?V i \<noteq> 7" and evs: "\<forall>ev \<in> set ?evs. event_index ev < 10"
    and b: "length (replicate 8 (0 :: u8)) = ISET_SIZE"
    by (auto simp: event_index_def ISET_SIZE_def)
  obtain s' where s': "seq (int_child_start 7 8) (\<lambda>ep. int_child_main ep 7) (int_child_init (start_replies 3 4 ?E ?V @
        event_replies 7 ?V [0, 0, 0] (\<lambda>_. INTERRUPT_NONE) ?evs) (replicate 8 0)) = Blocked s'"
      "\<forall>i < 10. edges (trace s') (?E i) =
        Some (bytes (setting_str ! setting_nr (fold set_cur ?evs (\<lambda>_. INTERRUPT_NONE) i)))"
      "signals (trace s') = edge_pins ?evs"
    using interrupts_follow_settings [OF inj V b evs refl, of 8 3 4 "[0, 0, 0]"] by blast
  have "edges (trace s') (?E 5) = Some (bytes ''falling'')"
    using s'(2) [rule_format, of 5] by (simp add: setting_str_def)
  moreover have "signals (trace s') = [9]" using s'(3) by (simp add: pins_def)
  ultimately show ?thesis using s'(1) by auto
qed

text \<open>A pin that is busy when the child starts keeps descriptor 0, and the first setting of it is
  written to the standard input.\<close>

lemma busy_pin_uses_descriptor_0:
  assumes "script s = a # w # rs" "failed a" "err w = Some EBUSY_nr"
    and "i < 10" "gpio_edge_fds s ! i = 0" "gpio_value_fds s ! i = 0" "length (gpio_edge_fds s) = 10"
    and "length (gpio_value_fds s) = 10" "length (iset s) = ISET_SIZE"
    and "rs = event_reply rd # data_reply (put_iset pad (of_nat (pins ! i)) INTERRUPT_RISING) # q # r # rs'" "\<not> failed r"
  shows "\<exists>t s'. init_pin x i s = Ret () t \<and> int_round ep rd t = Ret None s' \<and>
    trace s' = trace t @ [(Epoll_wait ep, event_reply rd),
      (Read rd ISET_SIZE, data_reply (put_iset pad (of_nat (pins ! i)) INTERRUPT_RISING)),
      (Write 0 (bytes ''rising''), q), (Epoll_add ep 0, r)]"
proof -
  let ?b = "put_iset pad (of_nat (pins ! i)) INTERRUPT_RISING"
  have w: "failed w" using assms(3) by (simp add: failed_def)
  have ne: "?b \<noteq> []" by (simp add: put_iset_def)
  let ?t = "s\<lparr>script := rs, trace := trace s @ [(Access (gpio_path i ''''), a), (Write x (bytes (pin_names ! i)), w)]\<rparr>"
  have "init_pin x i s = Ret () ?t"
    using assms(1-3) w by (simp add: init_pin_def export_pin_def seq_syscall seq_seq ret_def)
  moreover have "\<exists>s'. int_round ep rd ?t = Ret None s' \<and> trace s' = trace ?t @ [(Epoll_wait ep, event_reply rd),
      (Read rd ISET_SIZE, data_reply ?b), (Write 0 (bytes ''rising''), q), (Epoll_add ep 0, r)]"
    using assms(4-11) ne
    by (simp add: int_round_def handle_config_def seq_syscall event_reply_def payload_def
        memcpy_at_def get_pin_index_pin pin_byte aget_def setting_str_def set_epoll_def ret_def Let_def)
  ultimately show ?thesis by blast
qed

end
