(* ===== verification/Gpio.thy ===== *)
theory Gpio
  imports Posix
begin

text \<open>
  The pins of the BCM2835 (\<open>HplBcm2835GeneralIOP.nc\<close>): the function of a pin is a field of three
  bits in one of six registers that are mapped into memory, the level is set and cleared by
  writing the bit of the pin to one of two other registers, and three words of notes say what was
  last asked for. A pin outside the width of these words is a shift C does not define, the
  value \<open>None\<close>.
\<close>

section \<open>State and macros\<close>

text \<open>The function registers, and the writes to the set register (7) and the clear register (10).\<close>

record gpio =
  fsel :: "u32 list"
  out_writes :: "(nat \<times> u32) list"
  pin_level :: u32
  pin_output :: u32
  pin_alt :: u32

definition FSEL_ALTERNATE_0 :: u32 where "FSEL_ALTERNATE_0 = 4"

definition gpio_ok :: "gpio \<Rightarrow> bool" where
  "gpio_ok s \<longleftrightarrow> length (fsel s) = 6"

definition gpio_start :: "u32 list \<Rightarrow> gpio" where
  "gpio_start regs = \<lparr>fsel = regs, out_writes = [], pin_level = 0, pin_output = 0, pin_alt = 0\<rparr>"

definition pin_bit :: "nat \<Rightarrow> u32 option" where
  "pin_bit g = (if g < 32 then Some (push_bit g 1) else None)"

definition INP_GPIO :: "nat \<Rightarrow> gpio \<Rightarrow> gpio option" where
  "INP_GPIO g s = do {
     r \<leftarrow> aupd (fsel s) (g div 10) (\<lambda>w. w AND NOT (push_bit (g mod 10 * 3) 7));
     Some (s\<lparr>fsel := r\<rparr>) }"

definition OUT_GPIO :: "nat \<Rightarrow> gpio \<Rightarrow> gpio option" where
  "OUT_GPIO g s = do {
     r \<leftarrow> aupd (fsel s) (g div 10) (\<lambda>w. w OR push_bit (g mod 10 * 3) 1);
     Some (s\<lparr>fsel := r\<rparr>) }"

definition SET_GPIO_ALT :: "nat \<Rightarrow> u32 \<Rightarrow> gpio \<Rightarrow> gpio option" where
  "SET_GPIO_ALT g a s = do {
     r \<leftarrow> aupd (fsel s) (g div 10) (\<lambda>w. w OR push_bit (g mod 10 * 3) a);
     Some (s\<lparr>fsel := r\<rparr>) }"

definition GPIO_SET :: "nat \<Rightarrow> gpio \<Rightarrow> gpio option" where
  "GPIO_SET g s = do { b \<leftarrow> pin_bit g; Some (s\<lparr>out_writes := out_writes s @ [(7, b)]\<rparr>) }"

definition GPIO_CLR :: "nat \<Rightarrow> gpio \<Rightarrow> gpio option" where
  "GPIO_CLR g s = do { b \<leftarrow> pin_bit g; Some (s\<lparr>out_writes := out_writes s @ [(10, b)]\<rparr>) }"

text \<open>The level register is an argument: it is read from the device.\<close>

definition GPIO_READ :: "u32 \<Rightarrow> nat \<Rightarrow> u32 option" where
  "GPIO_READ level g = do { b \<leftarrow> pin_bit g; Some (drop_bit g (level AND b) AND 1) }"

definition PIN_NOTE_SET :: "nat \<Rightarrow> u32 \<Rightarrow> u32 option" where
  "PIN_NOTE_SET g a = do { b \<leftarrow> pin_bit g; Some (a OR b) }"

definition PIN_NOTE_CLR :: "nat \<Rightarrow> u32 \<Rightarrow> u32 option" where
  "PIN_NOTE_CLR g a = do { b \<leftarrow> pin_bit g; Some (a AND NOT b) }"

definition PIN_NOTE_GET :: "nat \<Rightarrow> u32 \<Rightarrow> u32 option" where
  "PIN_NOTE_GET g a = (if g < 32 then Some (drop_bit g a AND 1) else None)"

section \<open>Commands\<close>

definition gpio_set :: "nat \<Rightarrow> gpio \<Rightarrow> gpio option" where
  "gpio_set g s = do { s \<leftarrow> GPIO_SET g s; l \<leftarrow> PIN_NOTE_SET g (pin_level s); Some (s\<lparr>pin_level := l\<rparr>) }"

definition gpio_clr :: "nat \<Rightarrow> gpio \<Rightarrow> gpio option" where
  "gpio_clr g s = do { s \<leftarrow> GPIO_CLR g s; l \<leftarrow> PIN_NOTE_CLR g (pin_level s); Some (s\<lparr>pin_level := l\<rparr>) }"

definition gpio_toggle :: "nat \<Rightarrow> gpio \<Rightarrow> gpio option" where
  "gpio_toggle g s = do {
     v \<leftarrow> PIN_NOTE_GET g (pin_level s);
     (if v \<noteq> 0
      then do { s \<leftarrow> GPIO_CLR g s; l \<leftarrow> PIN_NOTE_CLR g (pin_level s); Some (s\<lparr>pin_level := l\<rparr>) }
      else do { s \<leftarrow> GPIO_SET g s; l \<leftarrow> PIN_NOTE_SET g (pin_level s); Some (s\<lparr>pin_level := l\<rparr>) }) }"

definition gpio_getRaw :: "u32 \<Rightarrow> nat \<Rightarrow> u32 option" where
  "gpio_getRaw level g = GPIO_READ level g"

definition gpio_get :: "u32 \<Rightarrow> nat \<Rightarrow> bool option" where
  "gpio_get level g = do { v \<leftarrow> GPIO_READ level g; Some (v = 1) }"

definition makeInput :: "nat \<Rightarrow> gpio \<Rightarrow> gpio option" where
  "makeInput g s = do {
     s \<leftarrow> INP_GPIO g s;
     n \<leftarrow> PIN_NOTE_CLR g (pin_output s);
     Some (s\<lparr>pin_output := n\<rparr>) }"

definition isInput :: "nat \<Rightarrow> gpio \<Rightarrow> bool option" where
  "isInput g s = do {
     o' \<leftarrow> PIN_NOTE_GET g (pin_output s);
     a \<leftarrow> PIN_NOTE_GET g (pin_alt s);
     Some (o' = 0 \<and> a = 0) }"

definition makeOutput :: "nat \<Rightarrow> gpio \<Rightarrow> gpio option" where
  "makeOutput g s = do {
     s \<leftarrow> INP_GPIO g s;
     s \<leftarrow> OUT_GPIO g s;
     n \<leftarrow> PIN_NOTE_SET g (pin_output s);
     Some (s\<lparr>pin_output := n\<rparr>) }"

definition isOutput :: "nat \<Rightarrow> gpio \<Rightarrow> bool option" where
  "isOutput g s = do { v \<leftarrow> PIN_NOTE_GET g (pin_output s); Some (v = 1) }"

definition selectModuleFunc :: "nat \<Rightarrow> gpio \<Rightarrow> gpio option" where
  "selectModuleFunc g s = do {
     s \<leftarrow> INP_GPIO g s;
     s \<leftarrow> SET_GPIO_ALT g FSEL_ALTERNATE_0 s;
     n \<leftarrow> PIN_NOTE_CLR g (pin_output s);
     let s = s\<lparr>pin_output := n\<rparr>;
     a \<leftarrow> PIN_NOTE_SET g (pin_alt s);
     Some (s\<lparr>pin_alt := a\<rparr>) }"

definition isModuleFunc :: "nat \<Rightarrow> gpio \<Rightarrow> bool option" where
  "isModuleFunc g s = do { v \<leftarrow> PIN_NOTE_GET g (pin_alt s); Some (v = 1) }"

text \<open>\<open>Init.init\<close>: the registers appear in memory, or the program stops.\<close>

definition GPIO_BASE :: int where "GPIO_BASE = 0x20200000"

definition gpio_init :: "(error_t, ('b, 'x) os_scheme) prog" where
  "gpio_init =
     seq (syscall (Open ''/dev/mem'')) (\<lambda>f. if failed f then stop 1 else
     seq (syscall (Mmap (rval f) GPIO_BASE)) (\<lambda>m. if failed m then stop 1 else
     seq (syscall (Close (rval f))) (\<lambda>_. ret SUCCESS)))"

section \<open>Fields and notes\<close>

text \<open>The function of a pin: 0 input, 1 output, 4 its module.\<close>

definition field :: "gpio \<Rightarrow> nat \<Rightarrow> u32" where
  "field s g = take_bit 3 (drop_bit (g mod 10 * 3) (fsel s ! (g div 10)))"

lemma seven: "(7 :: u32) = mask 3"
  by (simp add: mask_eq_exp_minus_1)

lemma field_put:
  fixes w v :: u32
  assumes "n < 30" "take_bit 3 v = v"
  shows "take_bit 3 (drop_bit n (w AND NOT (push_bit n (mask 3)) OR push_bit n v)) = v"
proof (rule bit_word_eqI)
  fix i assume "i < LENGTH(32)"
  have v: "bit v i \<Longrightarrow> i < 3" using assms(2) by (metis bit_take_bit_iff)
  show "bit (take_bit 3 (drop_bit n (w AND NOT (push_bit n (mask 3)) OR push_bit n v))) i = bit v i"
    using assms(1) v bit_imp_le_length [of v i]
    by (auto simp: bit_take_bit_iff bit_drop_bit_eq bit_simps)
qed

lemma field_keep:
  fixes w v :: u32
  assumes "j < 10" "k < 10" "j \<noteq> k" "take_bit 3 v = v"
  shows "take_bit 3 (drop_bit (j * 3) (w AND NOT (push_bit (k * 3) (mask 3)) OR push_bit (k * 3) v)) = take_bit 3 (drop_bit (j * 3) w)"
proof (rule bit_word_eqI)
  fix i assume "i < LENGTH(32)"
  have v: "bit v m \<Longrightarrow> m < 3" for m using assms(4) by (metis bit_take_bit_iff)
  have ne: "i < 3 \<Longrightarrow> k * 3 \<le> j * 3 + i \<Longrightarrow> \<not> j * 3 + i - k * 3 < 3" using assms(3) by linarith
  show "bit (take_bit 3 (drop_bit (j * 3) (w AND NOT (push_bit (k * 3) (mask 3)) OR push_bit (k * 3) v))) i =
      bit (take_bit 3 (drop_bit (j * 3) w)) i"
    using v ne bit_imp_le_length [of w "j * 3 + i"]
    by (auto simp: bit_take_bit_iff bit_drop_bit_eq bit_simps)
qed

lemma field_upd:
  assumes "gpio_ok s" "g < 32" "h < 32" "take_bit 3 v = v"
    and "fsel s' = (fsel s)[g div 10 := fsel s ! (g div 10) AND NOT (push_bit (g mod 10 * 3) (mask 3)) OR push_bit (g mod 10 * 3) v]"
  shows "field s' h = (if h = g then v else field s h)"
proof (cases "h div 10 = g div 10")
  case True
  have l: "g div 10 < length (fsel s)" using assms(1,2) by (simp add: gpio_ok_def)
  have "h mod 10 = g mod 10 \<longleftrightarrow> h = g" using True by (metis div_mult_mod_eq)
  then show ?thesis
    using field_put [of "g mod 10 * 3" v] field_keep [of "h mod 10" "g mod 10" v] assms(4) l
    by (simp add: field_def assms(5) True)
next
  case False
  then show ?thesis by (auto simp: field_def assms(5))
qed

definition noted :: "u32 \<Rightarrow> nat \<Rightarrow> bool" where
  "noted a g = bit a g"

lemma note_simps [simp]:
  assumes "g < 32"
  shows "PIN_NOTE_SET g a = Some (a OR 2 ^ g)" "PIN_NOTE_CLR g a = Some (a AND NOT (2 ^ g))"
    "PIN_NOTE_GET g a = Some (if noted a g then 1 else 0)" "\<not> noted 0 g"
proof -
  have "drop_bit g a AND 1 = (if bit a g then 1 else 0)"
    by (rule bit_word_eqI) (auto simp: bit_simps intro!: gr0I)
  then show "PIN_NOTE_GET g a = Some (if noted a g then 1 else 0)"
    using assms by (simp add: PIN_NOTE_GET_def noted_def)
qed (use assms in \<open>simp_all add: PIN_NOTE_SET_def PIN_NOTE_CLR_def pin_bit_def push_bit_of_1 noted_def\<close>)

lemma note_upd:
  assumes "h < 32"
  shows "noted (a OR 2 ^ g) h \<longleftrightarrow> h = g \<or> noted a h" "noted (a AND NOT (2 ^ g)) h \<longleftrightarrow> h \<noteq> g \<and> noted a h"
  using assms by (auto simp: noted_def bit_simps)

section \<open>What the commands do to the pins\<close>

text \<open>The level the device keeps for a pin, from the writes to its two registers.\<close>

definition latch :: "(nat \<times> u32) list \<Rightarrow> nat \<Rightarrow> bool" where
  "latch ws g = fold (\<lambda>(r, b) l. if noted b g then r = 7 else l) ws False"

lemma latch_append: "latch (ws @ [(r, b)]) g = (if noted b g then r = 7 else latch ws g)"
  by (simp add: latch_def)

lemma note_pin [simp]: "g < 32 \<Longrightarrow> noted (2 ^ h) g \<longleftrightarrow> h = g"
  by (auto simp: noted_def bit_simps)

datatype pin_op = Input | Output | Module | High | Low | Toggle

fun pin_do :: "pin_op \<Rightarrow> nat \<Rightarrow> gpio \<Rightarrow> gpio option" where
  "pin_do Input g s = makeInput g s"
| "pin_do Output g s = makeOutput g s"
| "pin_do Module g s = selectModuleFunc g s"
| "pin_do High g s = gpio_set g s"
| "pin_do Low g s = gpio_clr g s"
| "pin_do Toggle g s = gpio_toggle g s"

fun pins_do :: "(pin_op \<times> nat) list \<Rightarrow> gpio \<Rightarrow> gpio option" where
  "pins_do [] s = Some s"
| "pins_do ((x, g) # ops) s = do { s \<leftarrow> pin_do x g s; pins_do ops s }"

text \<open>What a pin should be: its function code, whether it is an output, whether it ever had its
  module function, and its level.\<close>

record pin_spec =
  fun_code :: u32
  is_out :: bool
  had_module :: bool
  note_level :: bool

fun spec_op :: "pin_op \<Rightarrow> pin_spec \<Rightarrow> pin_spec" where
  "spec_op Input p = p\<lparr>fun_code := 0, is_out := False\<rparr>"
| "spec_op Output p = p\<lparr>fun_code := 1, is_out := True\<rparr>"
| "spec_op Module p = p\<lparr>fun_code := 4, is_out := False, had_module := True\<rparr>"
| "spec_op High p = p\<lparr>note_level := True\<rparr>"
| "spec_op Low p = p\<lparr>note_level := False\<rparr>"
| "spec_op Toggle p = p\<lparr>note_level := \<not> note_level p\<rparr>"

definition pin_of :: "gpio \<Rightarrow> nat \<Rightarrow> pin_spec" where
  "pin_of s g = \<lparr>fun_code = field s g, is_out = noted (pin_output s) g, had_module = noted (pin_alt s) g,
     note_level = noted (pin_level s) g\<rparr>"

definition gpio_inv :: "gpio \<Rightarrow> bool" where
  "gpio_inv s \<longleftrightarrow> gpio_ok s \<and> (\<forall>g < 32. latch (out_writes s) g = noted (pin_level s) g)"

lemma fsel_ops:
  assumes "gpio_ok s" "g < 32"
  shows "INP_GPIO g s = Some (s\<lparr>fsel := (fsel s)[g div 10 := fsel s ! (g div 10) AND NOT (push_bit (g mod 10 * 3) (mask 3)) OR push_bit (g mod 10 * 3) 0]\<rparr>)"
    "OUT_GPIO g s = Some (s\<lparr>fsel := (fsel s)[g div 10 := fsel s ! (g div 10) OR push_bit (g mod 10 * 3) 1]\<rparr>)"
    "SET_GPIO_ALT g a s = Some (s\<lparr>fsel := (fsel s)[g div 10 := fsel s ! (g div 10) OR push_bit (g mod 10 * 3) a]\<rparr>)"
  using assms by (simp_all add: INP_GPIO_def OUT_GPIO_def SET_GPIO_ALT_def gpio_ok_def aupd_def seven)

lemma code_bits [simp]: "take_bit 3 (1 :: u32) = 1" "take_bit 3 (4 :: u32) = 4"
  by (simp_all add: take_bit_eq_mod)

text \<open>Each command does to its pin what the specification says and leaves the others alone.\<close>

lemma pin_do_refines:
  assumes "gpio_inv s" "g < 32"
  shows "\<exists>s'. pin_do x g s = Some s' \<and> gpio_inv s' \<and>
    (\<forall>h < 32. pin_of s' h = (if h = g then spec_op x (pin_of s h) else pin_of s h))"
proof -
  have ok: "gpio_ok s" and lat: "\<forall>g < 32. latch (out_writes s) g = noted (pin_level s) g"
    using assms(1) by (simp_all add: gpio_inv_def)
  then have len: "length (fsel s) = 6" "g div 10 < length (fsel s)" using assms(2) by (simp_all add: gpio_ok_def)
  define F where "F v = (fsel s)[g div 10 := fsel s ! (g div 10) AND NOT (push_bit (g mod 10 * 3) (mask 3)) OR push_bit (g mod 10 * 3) v]" for v
  have f: "field s' h = (if h = g then v else field s h)" if "fsel s' = F v" "take_bit 3 v = v" "h < 32" for s' v h
    using field_upd [OF ok assms(2) that(3,2)] that(1) by (simp add: F_def)
  have [simp]: "length (F v) = 6" for v using len by (simp add: F_def)
  have inp: "INP_GPIO g s = Some (s\<lparr>fsel := F 0\<rparr>)"
    using fsel_ops(1) [OF ok assms(2)] by (simp add: F_def)
  have "gpio_ok (s\<lparr>fsel := F 0\<rparr>)" by (simp add: gpio_ok_def)
  from fsel_ops(2,3) [OF this assms(2)] have out: "OUT_GPIO g (s\<lparr>fsel := F 0\<rparr>) = Some (s\<lparr>fsel := F 1\<rparr>)"
      "SET_GPIO_ALT g 4 (s\<lparr>fsel := F 0\<rparr>) = Some (s\<lparr>fsel := F 4\<rparr>)"
    using len by (simp_all add: F_def)
  have keep: "field (s\<lparr>out_writes := w, pin_level := l\<rparr>) h = field s h" for w l h by (simp add: field_def)
  show ?thesis
  proof (cases x)
    case Input
    then have "pin_do x g s = Some (s\<lparr>fsel := F 0, pin_output := pin_output s AND NOT (2 ^ g)\<rparr>)"
      using assms(2) inp by (simp add: makeInput_def)
    then show ?thesis using Input lat f [of _ 0] by (auto simp: gpio_inv_def gpio_ok_def pin_of_def note_upd)
  next
    case Output
    then have "pin_do x g s = Some (s\<lparr>fsel := F 1, pin_output := pin_output s OR 2 ^ g\<rparr>)"
      using assms(2) inp out(1) by (simp add: makeOutput_def)
    then show ?thesis using Output lat f [of _ 1] by (auto simp: gpio_inv_def gpio_ok_def pin_of_def note_upd)
  next
    case Module
    then have "pin_do x g s = Some (s\<lparr>fsel := F 4, pin_output := pin_output s AND NOT (2 ^ g), pin_alt := pin_alt s OR 2 ^ g\<rparr>)"
      using assms(2) inp out(2) by (simp add: selectModuleFunc_def FSEL_ALTERNATE_0_def Let_def)
    then show ?thesis using Module lat f [of _ 4] by (auto simp: gpio_inv_def gpio_ok_def pin_of_def note_upd)
  qed (use assms(2) lat ok keep in \<open>auto simp: gpio_set_def gpio_clr_def gpio_toggle_def GPIO_SET_def GPIO_CLR_def
        pin_bit_def push_bit_of_1 gpio_inv_def gpio_ok_def pin_of_def note_upd latch_append\<close>)
qed

definition ops_of :: "nat \<Rightarrow> (pin_op \<times> nat) list \<Rightarrow> pin_op list" where
  "ops_of g ops = map fst (filter (\<lambda>op. snd op = g) ops)"

lemma pins_do_refines:
  "gpio_inv s \<Longrightarrow> \<forall>op \<in> set ops. snd op < 32 \<Longrightarrow>
   \<exists>s'. pins_do ops s = Some s' \<and> gpio_inv s' \<and> (\<forall>h < 32. pin_of s' h = fold spec_op (ops_of h ops) (pin_of s h))"
proof (induction ops arbitrary: s)
  case Nil
  then show ?case by (simp add: ops_of_def)
next
  case (Cons op ops)
  obtain x g where op: "op = (x, g)" by (cases op)
  then have "g < 32" using Cons.prems by simp
  from pin_do_refines [OF Cons.prems(1) this, of x] obtain s1 where s1: "pin_do x g s = Some s1" "gpio_inv s1"
      "\<forall>h < 32. pin_of s1 h = (if h = g then spec_op x (pin_of s h) else pin_of s h)" by blast
  from Cons.IH [OF s1(2)] Cons.prems(2) obtain s' where "pins_do ops s1 = Some s'" "gpio_inv s'"
      "\<forall>h < 32. pin_of s' h = fold spec_op (ops_of h ops) (pin_of s1 h)" by auto
  with s1(1,3) show ?case by (auto simp: op ops_of_def)
qed

lemma queries:
  assumes "g < 32"
  shows "isOutput g s = Some (is_out (pin_of s g))" "isModuleFunc g s = Some (had_module (pin_of s g))"
    "isInput g s = Some (\<not> is_out (pin_of s g) \<and> \<not> had_module (pin_of s g))"
  using assms by (simp_all add: isOutput_def isModuleFunc_def isInput_def pin_of_def)

lemma spec_module: "had_module (fold spec_op xs p) \<longleftrightarrow> had_module p \<or> Module \<in> set xs"
proof (induction xs arbitrary: p)
  case (Cons x xs)
  then show ?case by (cases x) auto
qed simp

section \<open>Properties\<close>

text \<open>C13. The pins do what they are told, each on its own: after any commands on any pins below 32,
  the function field and the level of each pin are those of the commands given to it, in
  order, and of no other; the level noted for \<open>toggle\<close> is the one in the device.\<close>

theorem gpio_refines:
  assumes "length regs = 6" "\<forall>op \<in> set ops. snd op < 32"
  shows "\<exists>s. pins_do ops (gpio_start regs) = Some s \<and>
    (\<forall>g < 32. pin_of s g = fold spec_op (ops_of g ops) (pin_of (gpio_start regs) g) \<and>
      latch (out_writes s) g = note_level (pin_of s g))"
proof -
  have "gpio_inv (gpio_start regs)"
    using assms(1) by (simp add: gpio_inv_def gpio_ok_def gpio_start_def latch_def)
  from pins_do_refines [OF this assms(2)] obtain s where s: "pins_do ops (gpio_start regs) = Some s" "gpio_inv s"
      "\<forall>h < 32. pin_of s h = fold spec_op (ops_of h ops) (pin_of (gpio_start regs) h)" by blast
  have "\<forall>g < 32. latch (out_writes s) g = note_level (pin_of s g)"
    using s(2) by (simp add: gpio_inv_def pin_of_def)
  with s show ?thesis by blast
qed

theorem gpio_refines_witness:
  "\<exists>s. pins_do [(Output, 17), (High, 17), (Module, 15), (Toggle, 17)] (gpio_start (replicate 6 0)) = Some s \<and>
     field s 17 = 1 \<and> field s 15 = 4 \<and> \<not> latch (out_writes s) 17"
proof -
  let ?ops = "[(Output, 17), (High, 17), (Module, 15), (Toggle, 17)] :: (pin_op \<times> nat) list"
  obtain s where s: "pins_do ?ops (gpio_start (replicate 6 0)) = Some s"
      "\<forall>g < 32. pin_of s g = fold spec_op (ops_of g ?ops) (pin_of (gpio_start (replicate 6 0)) g) \<and>
        latch (out_writes s) g = note_level (pin_of s g)"
    using gpio_refines [of "replicate 6 0" ?ops] by auto
  have "fun_code (pin_of s 17) = 1" "fun_code (pin_of s 15) = 4" "\<not> note_level (pin_of s 17)"
    using s(2) by (simp_all add: ops_of_def)
  moreover have "latch (out_writes s) 17 = note_level (pin_of s 17)" using s(2) by simp
  ultimately show ?thesis using s(1) by (auto simp: pin_of_def)
qed

text \<open>A pin that had its module function and is made an input is an input in the device, but
  \<open>isInput\<close> says no and \<open>isModuleFunc\<close> yes: the note is never taken back.\<close>

lemma module_note_stays:
  assumes "gpio_inv s" "g < 32" "pins_do [(Module, g), (Input, g)] s = Some s'"
  shows "field s' g = 0 \<and> isInput g s' = Some False \<and> isModuleFunc g s' = Some True"
proof -
  from pins_do_refines [OF assms(1), of "[(Module, g), (Input, g)]"] assms(2,3)
  have p: "pin_of s' g = spec_op Input (spec_op Module (pin_of s g))" by (simp add: ops_of_def)
  then have "fun_code (pin_of s' g) = 0" by simp
  then show ?thesis using p assms(2) by (simp add: queries pin_of_def [of s'])
qed

end
