(* ===== verification/Border.thy ===== *)
theory Border
  imports Posix Ini
begin

text \<open>
  The border router: what leaves the radio network is filtered and freed of its hop-by-hop
  header (\<open>RplBorderRouterP.nc\<close>, \<open>DumpHopHopP.nc\<close>), the routes it starts with (\<open>BorderP.nc\<close>) and
  its configuration file (\<open>BRConfigP.nc\<close>). The packet operations of the IP stack that the code
  calls - the search for a header, the removal of an option, the checksum, the reading of an
  address - are not part of the repository and so arguments here.
\<close>

section \<open>Packets\<close>

text \<open>The first piece of the packet data is a window into a buffer; the code touches no other.\<close>

record ip_iovec =
  buffer :: "u8 list"
  base :: nat
  iov_len :: u32

record ip6_packet =
  inputif :: u8
  ip6_dst :: "u8 list"
  ip6_nxt :: u8
  ip6_plen :: u16
  ip6_data :: ip_iovec

definition IPV6_HOP :: u8 where "IPV6_HOP = 0"
definition IANA_UDP :: u8 where "IANA_UDP = 17"

definition iov_at :: "ip_iovec \<Rightarrow> nat \<Rightarrow> u8 option" where
  "iov_at d k = aget (buffer d) (base d + k)"

definition iov_put :: "nat \<Rightarrow> u8 \<Rightarrow> ip_iovec \<Rightarrow> ip_iovec option" where
  "iov_put k v d = do { b \<leftarrow> aupd (buffer d) (base d + k) (\<lambda>_. v); Some (d\<lparr>buffer := b\<rparr>) }"

text \<open>The order of the bytes in memory against that of the network; the same for \<open>ntohs\<close>.\<close>

definition htons :: "u16 \<Rightarrow> u16" where
  "htons w = push_bit 8 w OR drop_bit 8 w"

section \<open>Removing the hop-by-hop header\<close>

text \<open>The UDP checksum is computed anew over the packet with the field at 0.\<close>

definition udp_cksum :: "(ip6_packet \<Rightarrow> u16) \<Rightarrow> ip6_packet \<Rightarrow> ip6_packet option" where
  "udp_cksum cksum pkt = do {
     d \<leftarrow> iov_put 6 0 (ip6_data pkt);
     d \<leftarrow> iov_put 7 0 d;
     let udp_check = htons (cksum (pkt\<lparr>ip6_data := d\<rparr>));
     d \<leftarrow> iov_put 6 (ucast (udp_check AND 0xFF)) d;
     d \<leftarrow> iov_put 7 (ucast (drop_bit 8 udp_check AND 0xFF)) d;
     Some (pkt\<lparr>ip6_data := d\<rparr>)
   }"

text \<open>The header is at the start of the data. Its length in units of 8 bytes, less one, is in its
  second byte; the code computes the length in bytes in a byte.\<close>

definition drop_hop_header :: "(ip6_packet \<Rightarrow> u16) \<Rightarrow> ip6_packet \<Rightarrow> ip6_packet option" where
  "drop_hop_header cksum pkt = do {
     n \<leftarrow> iov_at (ip6_data pkt) 0;
     hl \<leftarrow> iov_at (ip6_data pkt) 1;
     let length_in_bytes = (of_int ((uint hl + 1) * 8) :: u8);
     let pkt = pkt\<lparr>ip6_nxt := n,
         ip6_data := (ip6_data pkt)\<lparr>base := base (ip6_data pkt) + unat length_in_bytes,
           iov_len := iov_len (ip6_data pkt) - ucast length_in_bytes\<rparr>,
         ip6_plen := htons (htons (ip6_plen pkt) - ucast length_in_bytes)\<rparr>;
     (if n = IANA_UDP then udp_cksum cksum pkt else Some pkt)
   }"

text \<open>What of the interfaces of the stack the code calls.\<close>

record ip_stack =
  findHeader :: "ip_iovec \<Rightarrow> u8 \<Rightarrow> u8 \<Rightarrow> int"
  delTLV :: "ip_iovec \<Rightarrow> int \<Rightarrow> u8 \<Rightarrow> ip_iovec"
  msg_cksum :: "ip6_packet \<Rightarrow> u16"
  ROUTE_IFACE_PPP :: u8
  RPL_HBH_RANK_TYPE :: u8

section \<open>What may leave\<close>

definition null_addr :: "u8 list" where
  "null_addr = replicate 16 0"

text \<open>The tests with the prefix of the network, when there is one: a packet on the default route
  that would come right back, and a packet for a link-local address.\<close>

definition comes_back :: "u8 list option \<Rightarrow> u8 list \<Rightarrow> ip6_packet \<Rightarrow> bool" where
  "comes_back prefix next_hop pkt =
     (case prefix of
        None \<Rightarrow> False
      | Some p \<Rightarrow> take 16 next_hop = null_addr \<and>
          (take 8 (ip6_dst pkt) = take 8 p \<or> take 2 (ip6_dst pkt) = [0xFE, 0x80]))"

definition rpl_initiate :: "ip6_packet \<Rightarrow> u8 list \<Rightarrow> bool" where
  "rpl_initiate pkt next_hop = True"

text \<open>\<open>ForwardingEvents.approve\<close> of \<open>RplBorderRouterP\<close>: whether the packet may go, and the packet.\<close>

definition rpl_approve ::
  "ip_stack \<Rightarrow> u8 list option \<Rightarrow> u8 list \<Rightarrow> ip6_packet \<Rightarrow> (bool \<times> ip6_packet) option" where
  "rpl_approve ip prefix next_hop pkt =
     (if inputif pkt = ROUTE_IFACE_PPP ip then Some (False, pkt)
      else if comes_back prefix next_hop pkt then Some (False, pkt)
      else
        (let off = findHeader ip (ip6_data pkt) (ip6_nxt pkt) IPV6_HOP in
         if off < 0 then Some (True, pkt)
         else if off = 0 then map_option (\<lambda>p. (True, p)) (drop_hop_header (msg_cksum ip) pkt)
         else Some (True, pkt\<lparr>ip6_data := delTLV ip (ip6_data pkt) off (RPL_HBH_RANK_TYPE ip)\<rparr>)))"

text \<open>\<open>DumpHopHopP\<close>, for packets into the radio network.\<close>

definition dump_approve ::
  "ip_stack \<Rightarrow> u8 list \<Rightarrow> ip6_packet \<Rightarrow> (bool \<times> ip6_packet) option" where
  "dump_approve ip next_hop pkt =
     (let off = findHeader ip (ip6_data pkt) (ip6_nxt pkt) IPV6_HOP in
      if off < 0 then Some (True, pkt)
      else if off = 0 then map_option (\<lambda>p. (True, p)) (drop_hop_header (msg_cksum ip) pkt)
      else Some (True, pkt))"

section \<open>Routes\<close>

text \<open>\<open>BorderP\<close>: each route is a prefix (none for the default route) with its length and the
  interface; \<open>pton\<close> reads an address. The forwarding table takes them in this order.\<close>

definition ROUTE_IFACE_TUN :: u8 where "ROUTE_IFACE_TUN = 3"

record route =
  route_prefix :: "u8 list option"
  prefix_bits :: nat
  next_hop_addr :: "u8 list option"
  iface :: u8

definition border_init :: "(string \<Rightarrow> u8 list) \<Rightarrow> route list" where
  "border_init pton =
     (let via_tun = (\<lambda>p n. \<lparr>route_prefix = p, prefix_bits = n, next_hop_addr = None, iface = ROUTE_IFACE_TUN\<rparr>) in
      [via_tun None 0, via_tun (Some (pton ''ff02::2'')) 128, via_tun (Some (pton ''ff02::1:2'')) 128,
       via_tun (Some (pton ''fe80::212:aaaa:bbbb:ffff'')) 128])"

section \<open>The configuration file\<close>

text \<open>\<open>BRConfigP\<close>: the prefix and whether the file was read. A file that cannot be opened ends the
  program (\<open>None\<close>); a line it cannot use does not.\<close>

record br_config =
  br_inited :: bool
  br_prefix :: "u8 list"

definition br_handler :: "(string \<Rightarrow> u8 list \<Rightarrow> u8 list) \<Rightarrow> u8 list ini_handler" where
  "br_handler pton p section name value =
     (if section = ''network'' \<and> name = ''prefix'' then (pton value p, True) else (p, False))"

definition br_init :: "(string \<Rightarrow> u8 list \<Rightarrow> u8 list) \<Rightarrow> string option \<Rightarrow> br_config \<Rightarrow> (error_t \<times> br_config) option" where
  "br_init pton file s =
     (if br_inited s then Some (EALREADY, s)
      else
        (let (result, p) = ini_parse (br_handler pton) file (br_prefix s) in
         if result < 0 then None else Some (SUCCESS, s\<lparr>br_prefix := p, br_inited := True\<rparr>)))"

text \<open>\<open>getPrefix\<close> copies the prefix out, \<open>getPrefixPtr\<close> gives its address; both read the file first.\<close>

definition br_getPrefix ::
  "(string \<Rightarrow> u8 list \<Rightarrow> u8 list) \<Rightarrow> string option \<Rightarrow> br_config \<Rightarrow> (u8 list \<times> br_config) option" where
  "br_getPrefix pton file s = do { (e, s) \<leftarrow> br_init pton file s; Some (br_prefix s, s) }"

section \<open>Bytes and windows\<close>

lemma htons_htons [simp]: "htons (htons w) = w"
  by (rule bit_word_eqI) (auto simp: htons_def bit_simps not_le not_less)

lemma htons_bytes:
  "(ucast (htons c AND 0xFF) :: u8) = ucast (drop_bit 8 c)"
  "(ucast (drop_bit 8 (htons c) AND 0xFF) :: u8) = ucast c"
proof -
  have m: "(0xFF :: u16) = mask 8" by (simp add: mask_eq_exp_minus_1)
  show "(ucast (htons c AND 0xFF) :: u8) = ucast (drop_bit 8 c)"
    "(ucast (drop_bit 8 (htons c) AND 0xFF) :: u8) = ucast c"
    unfolding m htons_def by (rule bit_word_eqI; auto simp: bit_simps)+
qed

definition iov_bytes :: "ip_iovec \<Rightarrow> u8 list" where
  "iov_bytes d = take (unat (iov_len d)) (drop (base d) (buffer d))"

text \<open>A header of a length the code can compute, and what follows it.\<close>

definition hop_header :: "u8 \<Rightarrow> u8 \<Rightarrow> u8 list \<Rightarrow> u8 list" where
  "hop_header n hl opts = n # hl # opts"

definition header_ok :: "u8 \<Rightarrow> u8 list \<Rightarrow> bool" where
  "header_ok hl opts \<longleftrightarrow> length opts + 2 = 8 * (unat hl + 1)"

lemma iov_put_window:
  assumes "buffer d = pre @ ws @ post" "base d = length pre" "k < length ws"
  shows "iov_put k v d = Some (d\<lparr>buffer := pre @ ws[k := v] @ post\<rparr>)"
  using assms by (simp add: iov_put_def aupd_def list_update_append)

lemma iov_bytes_window:
  assumes "buffer d = pre @ ws @ post" "base d = length pre" "unat (iov_len d) = length ws"
  shows "iov_bytes d = ws"
  using assms by (simp add: iov_bytes_def)

lemma header_length:
  assumes "header_ok hl opts"
  shows "unat (of_int ((uint hl + 1) * 8) :: u8) = (length opts + 2) mod 256"
proof -
  have "uint hl = int (unat hl)" by (rule uint_nat)
  then have "(uint hl + 1) * 8 = int (length opts + 2)"
    using assms by (simp add: header_ok_def)
  then have "(of_int ((uint hl + 1) * 8) :: u8) = of_nat (length opts + 2)" by (simp only: of_int_of_nat_eq)
  then show ?thesis by (simp only: unat_of_nat) simp
qed

text \<open>The payload with its UDP checksum.\<close>

definition with_cksum :: "u16 \<Rightarrow> u8 list \<Rightarrow> u8 list" where
  "with_cksum c ws = ws[6 := ucast (drop_bit 8 c), 7 := ucast c]"

text \<open>The packet \<open>p\<close> with the window \<open>body\<close>, and what it is with its UDP checksum: the checksum is
  that of a packet which differs from \<open>p\<close> in its data only, and there in the field at 0.\<close>

definition cksum_filled :: "(ip6_packet \<Rightarrow> u16) \<Rightarrow> u8 list \<Rightarrow> ip6_packet \<Rightarrow> ip6_packet \<Rightarrow> bool" where
  "cksum_filled cksum body p p' \<longleftrightarrow>
     (\<exists>d. iov_bytes d = body[6 := 0, 7 := 0] \<and>
        iov_bytes (ip6_data p') = with_cksum (cksum (p\<lparr>ip6_data := d\<rparr>)) body) \<and>
     p' = p\<lparr>ip6_data := ip6_data p'\<rparr>"

lemma udp_cksum_fills:
  assumes d: "buffer (ip6_data p) = pre @ body @ post" "base (ip6_data p) = length pre"
    and len: "unat (iov_len (ip6_data p)) = length body" "8 \<le> length body"
  shows "\<exists>p'. udp_cksum cksum p = Some p' \<and> cksum_filled cksum body p p' \<and>
    iov_len (ip6_data p') = iov_len (ip6_data p)"
proof -
  define d0 where "d0 = ip6_data p"
  define d2 where "d2 = d0\<lparr>buffer := pre @ body[6 := 0, 7 := 0] @ post\<rparr>"
  define c where "c = cksum (p\<lparr>ip6_data := d2\<rparr>)"
  define d4 where "d4 = d0\<lparr>buffer := pre @ with_cksum c body @ post\<rparr>"
  have d0: "buffer d0 = pre @ body @ post" "base d0 = length pre" "unat (iov_len d0) = length body"
    using d len by (simp_all add: d0_def)
  note put = iov_put_window [where pre = pre and post = post]
  have "udp_cksum cksum p = Some (p\<lparr>ip6_data := d4\<rparr>)"
    using d0(1,2) len(2)
    by (simp add: udp_cksum_def d0_def [symmetric] put [where ws = body] put [where ws = "body[6 := v]" for v]
        put [where ws = "body[6 := v, 7 := w]" for v w] htons_bytes d2_def [symmetric] c_def [symmetric])
      (simp add: d2_def d4_def with_cksum_def put [where ws = "body[6 := v, 7 := w]" for v w]
        put [where ws = "body[6 := v, 7 := w, 6 := x]" for v w x] list_update_swap [of 7 6])
  moreover have "iov_bytes d2 = body[6 := 0, 7 := 0]" "iov_bytes d4 = with_cksum c body"
    using d0(2,3) by (auto simp: d2_def d4_def with_cksum_def intro!: iov_bytes_window [where pre = pre and post = post])
  ultimately show ?thesis by (auto simp: cksum_filled_def c_def) (simp add: d4_def d0_def)
qed

definition hop_removed :: "(ip6_packet \<Rightarrow> u16) \<Rightarrow> u8 \<Rightarrow> u8 list \<Rightarrow> ip6_packet \<Rightarrow> bool" where
  "hop_removed cksum n body p' \<longleftrightarrow>
     (if n = IANA_UDP then \<exists>p. cksum_filled cksum body p p' else iov_bytes (ip6_data p') = body)"

lemma drop_hop_header_short:
  assumes d: "buffer (ip6_data pkt) = pre @ hop_header n hl opts @ body @ post" "base (ip6_data pkt) = length pre"
    and hl: "header_ok hl opts" "length opts + 2 < 256"
    and len: "unat (iov_len (ip6_data pkt)) = length opts + 2 + length body"
    and udp: "n = IANA_UDP \<Longrightarrow> 8 \<le> length body"
  shows "\<exists>pkt'. drop_hop_header cksum pkt = Some pkt' \<and> hop_removed cksum n body pkt' \<and>
    ip6_nxt pkt' = n \<and> inputif pkt' = inputif pkt \<and> ip6_dst pkt' = ip6_dst pkt \<and>
    htons (ip6_plen pkt') = htons (ip6_plen pkt) - of_nat (length opts + 2) \<and>
    unat (iov_len (ip6_data pkt')) = length body"
proof -
  define l where "l = (of_int ((uint hl + 1) * 8) :: u8)"
  have l: "unat l = length opts + 2" using header_length [OF hl(1)] hl(2) unfolding l_def by simp
  have at: "iov_at (ip6_data pkt) 0 = Some n" "iov_at (ip6_data pkt) 1 = Some hl"
    using d by (simp_all add: iov_at_def aget_def hop_header_def nth_append)
  define p where "p = pkt\<lparr>ip6_nxt := n,
      ip6_data := (ip6_data pkt)\<lparr>base := base (ip6_data pkt) + unat l, iov_len := iov_len (ip6_data pkt) - ucast l\<rparr>,
      ip6_plen := htons (htons (ip6_plen pkt) - ucast l)\<rparr>"
  have run: "drop_hop_header cksum pkt = (if n = IANA_UDP then udp_cksum cksum p else Some p)"
    unfolding drop_hop_header_def at Option.bind.bind_lunit Let_def p_def l_def by (rule refl)
  have u: "unat (ucast l :: u32) = unat l" using unat_u8 [of l] by (simp add: unsigned_ucast_eq take_bit_nat_eq_self_iff)
  then have "(ucast l :: u32) \<le> iov_len (ip6_data pkt)" using len l by (simp add: word_le_nat_alt)
  then have il: "unat (iov_len (ip6_data p)) = length body" using u len l by (simp add: p_def unat_sub)
  have b: "buffer (ip6_data p) = (pre @ hop_header n hl opts) @ body @ post"
      "base (ip6_data p) = length (pre @ hop_header n hl opts)"
    using d l by (simp_all add: p_def hop_header_def)
  have "(ucast l :: u16) = of_nat (length opts + 2)" using l by (metis of_nat_unat unat_widen)
  then have p: "htons (ip6_plen p) = htons (ip6_plen pkt) - of_nat (length opts + 2)"
      "ip6_nxt p = n" "inputif p = inputif pkt" "ip6_dst p = ip6_dst pkt"
    by (simp_all del: of_nat_add add: p_def)
  show ?thesis
  proof (cases "n = IANA_UDP")
    case False
    with run p il iov_bytes_window [OF b il] show ?thesis by (simp add: hop_removed_def)
  next
    case True
    from udp_cksum_fills [OF b il udp [OF True], of cksum] obtain p' where
      p': "udp_cksum cksum p = Some p'" "cksum_filled cksum body p p'"
      "unat (iov_len (ip6_data p')) = length body" unfolding il [symmetric] by metis
    then obtain d' where "p' = p\<lparr>ip6_data := d'\<rparr>" by (auto simp: cksum_filled_def)
    with p have "ip6_nxt p' = n" "inputif p' = inputif pkt" "ip6_dst p' = ip6_dst pkt"
      "htons (ip6_plen p') = htons (ip6_plen pkt) - of_nat (length opts + 2)" by simp_all
    with run True p' show ?thesis by (auto simp: hop_removed_def)
  qed
qed

lemma header_start:
  "buffer d = pre @ hop_header n hl opts @ rest \<Longrightarrow> base d = length pre \<Longrightarrow> iov_at d 0 = Some n \<and> iov_at d 1 = Some hl"
  by (simp add: iov_at_def aget_def hop_header_def nth_append)

section \<open>Reading the configuration\<close>

text \<open>The values a file gives for the prefix: the entries of that name in the section.\<close>

fun configured :: "string \<Rightarrow> ini_item list \<Rightarrow> string list" where
  "configured sec [] = []"
| "configured sec (Section s # is) = configured s is"
| "configured sec (Entry n v # is) = (if sec = ''network'' \<and> n = ''prefix'' then v # configured sec is else configured sec is)"

lemma br_sem: "snd (ini_sem (br_handler pton) is sec k e p) = fold pton (configured sec is) p"
  by (induction "br_handler pton" "is" sec k e p rule: ini_sem.induct) (auto simp: br_handler_def Let_def)

lemma br_init_print:
  assumes "list_all clean_item is" "\<not> br_inited s"
  shows "br_init pton (Some (print_ini is)) s =
    Some (SUCCESS, s\<lparr>br_prefix := fold pton (configured [] is) (br_prefix s), br_inited := True\<rparr>)"
  using assms br_sem [of pton "is" "[]" 0 0 "br_prefix s"]
  by (simp add: br_init_def ini_parse_def ini_parse_print_items case_prod_beta Let_def)

lemma br_prefix_once: "br_inited s \<Longrightarrow> br_getPrefix pton file s = Some (br_prefix s, s)"
  by (simp add: br_getPrefix_def br_init_def)

lemma br_no_file: "\<not> br_inited s \<Longrightarrow> br_getPrefix pton None s = None"
  by (simp add: br_getPrefix_def br_init_def ini_parse_def)

section \<open>Properties\<close>

text \<open>C21. The border router frees what leaves of its hop-by-hop header: a packet that may go and
  starts with such a header of less than 256 bytes goes with the next header in its place, its
  payload byte for byte (with a fresh checksum in the case of UDP), and its length reduced by
  the header. \<open>DumpHopHopP\<close> does the same to what comes in.\<close>

theorem hop_header_removed:
  assumes "buffer (ip6_data pkt) = pre @ hop_header n hl opts @ body @ post" "base (ip6_data pkt) = length pre"
    and "header_ok hl opts" "length opts + 2 < 256"
    and "unat (iov_len (ip6_data pkt)) = length opts + 2 + length body"
    and "n = IANA_UDP \<Longrightarrow> 8 \<le> length body"
    and "findHeader ip (ip6_data pkt) (ip6_nxt pkt) IPV6_HOP = 0"
    and "inputif pkt \<noteq> ROUTE_IFACE_PPP ip" "\<not> comes_back pfx next_hop pkt"
  shows "\<exists>pkt'. rpl_approve ip pfx next_hop pkt = Some (True, pkt') \<and>
    dump_approve ip next_hop pkt = Some (True, pkt') \<and> hop_removed (msg_cksum ip) n body pkt' \<and>
    ip6_nxt pkt' = n \<and> ip6_dst pkt' = ip6_dst pkt \<and>
    htons (ip6_plen pkt') = htons (ip6_plen pkt) - of_nat (length opts + 2)"
proof -
  from drop_hop_header_short [OF assms(1-6), of "msg_cksum ip"] obtain pkt' where
    "drop_hop_header (msg_cksum ip) pkt = Some pkt'" "hop_removed (msg_cksum ip) n body pkt'"
    "ip6_nxt pkt' = n" "ip6_dst pkt' = ip6_dst pkt"
    "htons (ip6_plen pkt') = htons (ip6_plen pkt) - of_nat (length opts + 2)" by blast
  with assms(7-9) show ?thesis by (simp add: rpl_approve_def dump_approve_def Let_def)
qed

definition example_stack :: ip_stack where
  "example_stack = \<lparr>findHeader = (\<lambda>d t want. if t = want then 0 else -1), delTLV = (\<lambda>d off t. d),
     msg_cksum = (\<lambda>p. 0xABCD), ROUTE_IFACE_PPP = 2, RPL_HBH_RANK_TYPE = 99\<rparr>"

definition example_packet :: "u8 \<Rightarrow> u8 \<Rightarrow> u8 list \<Rightarrow> ip6_packet" where
  "example_packet n hl opts = \<lparr>inputif = 0, ip6_dst = replicate 16 1, ip6_nxt = 0, ip6_plen = htons 300,
     ip6_data = \<lparr>buffer = hop_header n hl opts @ [1, 2, 3, 4, 5, 6, 7, 8, 9], base = 0,
       iov_len = of_nat (length opts + 11)\<rparr>\<rparr>"

theorem hop_header_removed_witness:
  "\<exists>pkt'. rpl_approve example_stack None [] (example_packet 17 0 (replicate 6 0)) = Some (True, pkt') \<and>
     iov_bytes (ip6_data pkt') = [1, 2, 3, 4, 5, 6, 0xAB, 0xCD, 9] \<and> htons (ip6_plen pkt') = 292"
proof -
  let ?p = "example_packet 17 0 (replicate 6 0)"
  have "(17 :: u8) = IANA_UDP" by (simp add: IANA_UDP_def)
  from hop_header_removed [of ?p "[]" 17 0 "replicate 6 0" "[1, 2, 3, 4, 5, 6, 7, 8, 9]" "[]" example_stack None "[]"]
  obtain pkt' where p: "rpl_approve example_stack None [] ?p = Some (True, pkt')"
      "hop_removed (msg_cksum example_stack) 17 [1, 2, 3, 4, 5, 6, 7, 8, 9] pkt'"
      "htons (ip6_plen pkt') = htons (ip6_plen ?p) - of_nat (length (replicate 6 (0 :: u8)) + 2)"
    by (auto simp: example_packet_def example_stack_def header_ok_def comes_back_def IPV6_HOP_def)
  from p(2) have "iov_bytes (ip6_data pkt') = with_cksum 0xABCD [1, 2, 3, 4, 5, 6, 7, 8, 9]"
    by (auto simp: hop_removed_def cksum_filled_def example_stack_def IANA_UDP_def)
  moreover have "(ucast (drop_bit 8 (0xABCD :: u16)) :: u8) = 0xAB" "(ucast (0xABCD :: u16) :: u8) = 0xCD" by simp_all
  ultimately have "iov_bytes (ip6_data pkt') = [1, 2, 3, 4, 5, 6, 0xAB, 0xCD, 9]" by (simp add: with_cksum_def)
  moreover have "htons (ip6_plen pkt') = 292" using p(3) by (simp add: example_packet_def)
  ultimately show ?thesis using p(1) by blast
qed

text \<open>C38. The length of the header is computed in a byte: a hop-by-hop header of 256 bytes is not
  skipped at all, but the packet goes on as if it were, so that the header is taken for the
  protocol that follows it.\<close>

theorem long_hop_header_kept:
  assumes "buffer (ip6_data pkt) = pre @ hop_header n 31 opts @ rest" "base (ip6_data pkt) = length pre"
    and "n \<noteq> IANA_UDP" "findHeader ip (ip6_data pkt) (ip6_nxt pkt) IPV6_HOP = 0"
    and "inputif pkt \<noteq> ROUTE_IFACE_PPP ip" "\<not> comes_back pfx next_hop pkt"
  shows "rpl_approve ip pfx next_hop pkt = Some (True, pkt\<lparr>ip6_nxt := n\<rparr>)"
proof -
  from header_start [OF assms(1,2)] have at: "iov_at (ip6_data pkt) 0 = Some n" "iov_at (ip6_data pkt) 1 = Some 31" by simp_all
  have l: "(of_int ((uint (31 :: u8) + 1) * 8) :: u8) = 0" by simp
  have "drop_hop_header (msg_cksum ip) pkt = Some (pkt\<lparr>ip6_nxt := n\<rparr>)"
    unfolding drop_hop_header_def at Option.bind.bind_lunit Let_def l using assms(3) by simp
  with assms(4-6) show ?thesis by (simp add: rpl_approve_def Let_def)
qed

theorem long_hop_header_kept_witness:
  "rpl_approve example_stack None [] (example_packet 58 31 (replicate 254 0)) =
     Some (True, (example_packet 58 31 (replicate 254 0))\<lparr>ip6_nxt := 58\<rparr>)"
  by (rule long_hop_header_kept [where pre = "[]" and opts = "replicate 254 0" and rest = "[1, 2, 3, 4, 5, 6, 7, 8, 9]"])
    (simp_all add: example_packet_def example_stack_def comes_back_def IPV6_HOP_def IANA_UDP_def)

text \<open>C27. The prefix of the border router: from a configuration file with any sections and options in any order
  the border router takes the prefix that the section \<open>network\<close> gives last, and what the file
  says else (lines the handler refuses included) has no effect. The file is read once: later
  calls give the same prefix, whatever the file is then.\<close>

theorem br_prefix_configured:
  assumes "list_all clean_item is" "\<not> br_inited s" "configured [] is = vs @ [v]" "\<And>p. pton v p = a"
  shows "\<exists>s'. br_getPrefix pton (Some (print_ini is)) s = Some (a, s') \<and> br_getPrefix pton later s' = Some (a, s')"
  using br_init_print [OF assms(1,2), of pton] assms(3,4)
  by (simp add: br_getPrefix_def) (simp add: br_init_def)

theorem br_prefix_configured_witness:
  "\<exists>s'. br_getPrefix (\<lambda>v p. if v = ''fd00::'' then [0xFD] else p)
     (Some (print_ini [Section ''radio'', Entry ''prefix'' ''x'', Section ''network'', Entry ''mtu'' ''9'', Entry ''prefix'' ''fd00::'']))
     \<lparr>br_inited = False, br_prefix = []\<rparr> = Some ([0xFD], s')"
proof -
  let ?is = "[Section ''radio'', Entry ''prefix'' ''x'', Section ''network'', Entry ''mtu'' ''9'', Entry ''prefix'' ''fd00::'']"
  have c: "list_all clean_item ?is" by (simp add: isspace_def MAX_SECTION_def)
  from br_prefix_configured [OF c, of "\<lparr>br_inited = False, br_prefix = []\<rparr>" "[]" "''fd00::''" "\<lambda>v p. if v = ''fd00::'' then [0xFD] else p" "[0xFD]"]
  show ?thesis by auto
qed

end
