(* ===== verification/Sockets.thy ===== *)
theory Sockets
  imports Posix
begin

text \<open>
  The socket components of \<open>tinyos/tos/chips/linux/socket\<close>: a TCP connection that is opened again
  when the other side closes it (\<open>PersistentTcpConnectionP.nc\<close>) and a UDP socket that builds a
  datagram piece by piece (\<open>LinuxUdpSocketP.nc\<close>). The tasks a component posted and the timer it
  started are fields of its state.
\<close>

section \<open>TCP: state\<close>

definition INBUF_SIZE :: nat where "INBUF_SIZE = 4096"
definition HOST_SIZE :: nat where "HOST_SIZE = 512"
definition RECONNECT_PERIOD :: nat where "RECONNECT_PERIOD = 1000"

record tcp = "u8 os" +
  remote_host :: string
  remote_port :: u16
  sock :: int
  msg :: "u8 list"
  msglen :: nat
  recv_posted :: bool
  reconnect_posted :: bool
  reconnect_timer :: "nat option"
  delivered :: "u8 list list"

definition tcp_init :: "u8 reply list \<Rightarrow> tcp" where
  "tcp_init rs = \<lparr>script = rs, trace = [], remote_host = replicate HOST_SIZE NUL, remote_port = 0, sock = -1,
     msg = replicate INBUF_SIZE 0, msglen = 0, recv_posted = False, reconnect_posted = False,
     reconnect_timer = None, delivered = []\<rparr>"

text \<open>\<open>strncpy\<close> into the array of the host: it fills the array and may leave no terminator.\<close>

definition host_copy :: "string \<Rightarrow> string" where
  "host_copy host = take HOST_SIZE (host @ replicate HOST_SIZE NUL)"

section \<open>TCP: connecting\<close>

definition tcp_connect :: "string \<Rightarrow> u16 \<Rightarrow> (error_t, 'x tcp_scheme) prog" where
  "tcp_connect host port =
     seq (modify (\<lambda>s. s\<lparr>remote_host := host_copy host, remote_port := port\<rparr>)) (\<lambda>_.
     seq (syscall (Getaddrinfo host (take 5 (show_nat (unat port))))) (\<lambda>a. if failed a then ret FAIL else
     seq (syscall Socket) (\<lambda>f.
     seq (modify (sock_update (\<lambda>_. if failed f then -1 else rval f))) (\<lambda>_.
       if failed f then ret FAIL else
     seq (gets sock) (\<lambda>fd.
     seq (syscall (Connect fd)) (\<lambda>c. if failed c then ret FAIL else
     seq (make_nonblocking fd) (\<lambda>_.
     seq (syscall (Register fd)) (\<lambda>_. ret SUCCESS))))))))"

text \<open>The array of the host as a string: with no terminator in it the resolver reads beyond it.\<close>

definition host_string :: "string \<Rightarrow> string option" where
  "host_string buf = (if NUL \<in> set buf then Some (cstr buf) else None)"

definition reconnect_helper :: "(unit, 'x tcp_scheme) prog" where
  "reconnect_helper =
     seq (access (\<lambda>s. host_string (remote_host s))) (\<lambda>host.
     seq (gets remote_port) (\<lambda>port.
     seq (tcp_connect host port) (\<lambda>result.
       if result \<noteq> SUCCESS
       then modify (\<lambda>s. s\<lparr>sock := -1, reconnect_timer := Some RECONNECT_PERIOD\<rparr>)
       else ret ())))"

definition tcp_reconnect :: "(unit, 'x tcp_scheme) prog" where
  "tcp_reconnect =
     seq (gets sock) (\<lambda>fd.
       if fd = -1 then ret ()
       else seq (syscall (Unregister fd)) (\<lambda>_.
         seq (modify (sock_update (\<lambda>_. -1))) (\<lambda>_. reconnect_helper)))"

definition reconnect_fired :: "(unit, 'x tcp_scheme) prog" where
  "reconnect_fired = seq (modify (reconnect_timer_update (\<lambda>_. None))) (\<lambda>_. reconnect_helper)"

definition reconnect_task :: "(unit, 'x tcp_scheme) prog" where
  "reconnect_task = seq (modify (reconnect_posted_update (\<lambda>_. False))) (\<lambda>_. tcp_reconnect)"

section \<open>TCP: sending, closing, receiving\<close>

text \<open>The loop of \<open>TcpSocket.send\<close>; each round makes a call, so the number of replies bounds it.\<close>

fun tcp_send_rounds :: "nat \<Rightarrow> int \<Rightarrow> u8 list \<Rightarrow> (error_t, 'x tcp_scheme) prog" where
  "tcp_send_rounds 0 fd buf s = Blocked s"
| "tcp_send_rounds (Suc n) fd buf s =
     seq (syscall (Send fd buf)) (\<lambda>r.
       if failed r then ret FAIL
       else if rval r = int (length buf) then ret SUCCESS
       else if rval r > int (length buf) then ret FAIL
       else tcp_send_rounds n fd (drop (nat (rval r)) buf)) s"

definition tcp_send :: "u8 list \<Rightarrow> (error_t, 'x tcp_scheme) prog" where
  "tcp_send buf = seq (gets sock) (\<lambda>fd.
     if fd = -1 then ret FAIL
     else (\<lambda>s. tcp_send_rounds (Suc (length (script s))) fd buf s))"

definition tcp_close :: "(error_t, 'x tcp_scheme) prog" where
  "tcp_close = seq (gets sock) (\<lambda>fd.
     if fd = -1 then ret FAIL
     else seq (syscall (Close fd)) (\<lambda>_.
       seq (syscall (Unregister fd)) (\<lambda>_.
       seq (modify (sock_update (\<lambda>_. -1))) (\<lambda>_. ret SUCCESS))))"

definition tcp_receive_task :: "'x tcp_scheme \<Rightarrow> 'x tcp_scheme" where
  "tcp_receive_task s = s\<lparr>recv_posted := False, delivered := delivered s @ [take (msglen s) (msg s)]\<rparr>"

definition tcp_receiveReady :: "(unit, 'x tcp_scheme) prog" where
  "tcp_receiveReady = seq (gets sock) (\<lambda>fd.
     seq (syscall (Recv fd INBUF_SIZE)) (\<lambda>r.
       if failed r then (if err r = Some EAGAIN then ret () else stop 1)
       else if payload INBUF_SIZE r = [] then modify (reconnect_posted_update (\<lambda>_. True))
       else seq (modify (msglen_update (\<lambda>_. length (payload INBUF_SIZE r)))) (\<lambda>_.
         seq (access (\<lambda>s. memcpy_at (msg s) 0 (payload INBUF_SIZE r))) (\<lambda>m.
         modify (\<lambda>s. s\<lparr>msg := m, recv_posted := True\<rparr>)))))"

section \<open>UDP\<close>

record udp = "u8 os" +
  sockfd :: int
  server :: "u8 list \<times> u16"

definition udp_start :: "u8 reply list \<Rightarrow> udp" where
  "udp_start rs = \<lparr>script = rs, trace = [], sockfd = -1, server = ([], 0)\<rparr>"

text \<open>The look-up of the host gives the bytes of its address.\<close>

definition udp_init :: "string \<Rightarrow> u16 \<Rightarrow> (error_t, 'x udp_scheme) prog" where
  "udp_init host port =
     seq (syscall Socket) (\<lambda>f.
     seq (modify (sockfd_update (\<lambda>_. if failed f then -1 else rval f))) (\<lambda>_.
       if failed f then ret FAIL else
     seq (syscall (Getaddrinfo host '''')) (\<lambda>h.
       if failed h then
         seq (gets sockfd) (\<lambda>fd. seq (syscall (Close fd)) (\<lambda>_.
         seq (modify (sockfd_update (\<lambda>_. -1))) (\<lambda>_. ret FAIL)))
       else seq (modify (server_update (\<lambda>_. (data h, port)))) (\<lambda>_. ret SUCCESS))))"

text \<open>The loop of \<open>build_packet\<close>; \<open>buf\<close> is what is left to send.\<close>

fun udp_build_rounds :: "nat \<Rightarrow> int \<Rightarrow> u8 list \<Rightarrow> (error_t, 'x udp_scheme) prog" where
  "udp_build_rounds 0 fd buf s = Blocked s"
| "udp_build_rounds (Suc n) fd buf s =
     (if buf = [] then Ret SUCCESS s
      else seq (syscall (Sendto fd buf True)) (\<lambda>r.
        if failed r then ret FAIL
        else udp_build_rounds n fd (drop (nat (rval r)) buf)) s)"

definition udp_build_packet :: "u8 list \<Rightarrow> (error_t, 'x udp_scheme) prog" where
  "udp_build_packet buf = seq (gets sockfd) (\<lambda>fd.
     if fd = -1 then ret FAIL
     else (\<lambda>s. udp_build_rounds (Suc (length (script s))) fd buf s))"

definition udp_send_data :: "u8 list \<Rightarrow> (error_t, 'x udp_scheme) prog" where
  "udp_send_data buf =
     seq (udp_build_packet buf) (\<lambda>e. if e = FAIL then ret FAIL else
     seq (gets sockfd) (\<lambda>fd.
     seq (syscall (Sendto fd [] False)) (\<lambda>r. if failed r then ret FAIL else ret SUCCESS)))"

definition udp_close :: "bool \<Rightarrow> (error_t, 'x udp_scheme) prog" where
  "udp_close flush_buffer =
     seq (if flush_buffer then udp_send_data [] else ret SUCCESS) (\<lambda>_.
     seq (gets sockfd) (\<lambda>fd.
     seq (syscall (Close fd)) (\<lambda>r. if failed r then ret FAIL else
     seq (modify (sockfd_update (\<lambda>_. -1))) (\<lambda>_. ret SUCCESS))))"

section \<open>What was sent\<close>

text \<open>The bytes the kernel took from the calls of a run, in order.\<close>

fun sent_by :: "'b call \<times> 'b reply \<Rightarrow> 'b list" where
  "sent_by (Send fd b, r) = (if failed r then [] else take (nat (rval r)) b)"
| "sent_by _ = []"

definition transmitted :: "('b call \<times> 'b reply) list \<Rightarrow> 'b list" where
  "transmitted tr = concat (map sent_by tr)"

lemma transmitted_append [simp]: "transmitted (tr @ [x]) = transmitted tr @ sent_by x"
  by (simp add: transmitted_def)

definition prefix_sent :: "u8 list \<Rightarrow> 'x tcp_scheme \<Rightarrow> 'x tcp_scheme \<Rightarrow> bool" where
  "prefix_sent buf s s' \<longleftrightarrow> (\<exists>k. transmitted (trace s') = transmitted (trace s) @ take k buf)"

lemma tcp_send_rounds_spec:
  "case tcp_send_rounds n fd buf s of
     Ret e s' \<Rightarrow> (if e = SUCCESS then transmitted (trace s') = transmitted (trace s) @ buf
                  else e = FAIL \<and> prefix_sent buf s s') \<and> sock s' = sock s
   | Blocked s' \<Rightarrow> prefix_sent buf s s' \<and> sock s' = sock s
   | _ \<Rightarrow> False"
proof (induction n arbitrary: buf s)
  case 0
  have "prefix_sent buf s s" unfolding prefix_sent_def by (rule exI [of _ 0]) simp
  then show ?case by simp
next
  case (Suc n)
  have here: "prefix_sent buf s s" unfolding prefix_sent_def by (rule exI [of _ 0]) simp
  show ?case
  proof (cases "script s")
    case Nil
    with here show ?thesis by (simp add: seq_syscall)
  next
    case (Cons r rs)
    let ?s = "s\<lparr>script := rs, trace := trace s @ [(Send fd buf, r)]\<rparr>"
    have tr: "transmitted (trace ?s) = transmitted (trace s) @ (if failed r then [] else take (nat (rval r)) buf)"
      by simp
    have first: "prefix_sent buf s ?s"
      unfolding prefix_sent_def tr by (rule exI [of _ "if failed r then 0 else nat (rval r)"]) simp
    have further: "prefix_sent buf s t" if "prefix_sent (drop (nat (rval r)) buf) ?s t" "\<not> failed r" for t
    proof -
      from that obtain k where "transmitted (trace t) = transmitted (trace s) @ take (nat (rval r)) buf @ take k (drop (nat (rval r)) buf)"
        by (auto simp: prefix_sent_def)
      then show ?thesis unfolding prefix_sent_def take_add [symmetric] by blast
    qed
    have all: "transmitted (trace ?s) @ drop (nat (rval r)) buf = transmitted (trace s) @ buf" if "\<not> failed r"
      using that by simp
    show ?thesis
      using Cons first tr Suc.IH [where buf = "drop (nat (rval r)) buf" and s = ?s] further all
      by (auto simp: seq_syscall ret_def split: outcome.split)
  qed
qed

lemma tcp_send_rounds_returns:
  "\<forall>r \<in> set (script s). \<not> failed r \<and> 1 \<le> rval r \<Longrightarrow> length buf \<le> length (script s) \<Longrightarrow> script s \<noteq> [] \<Longrightarrow>
   length (script s) < n \<Longrightarrow> \<exists>e s'. tcp_send_rounds n fd buf s = Ret e s'"
proof (induction n arbitrary: buf s)
  case (Suc n)
  from Suc.prems(3) obtain r rs where sc: "script s = r # rs" by (cases "script s") auto
  with Suc.prems(1) have r: "\<not> failed r" "1 \<le> rval r" by simp_all
  show ?case
  proof (cases "rval r < int (length buf)")
    case False
    then show ?thesis using sc r by (auto simp: seq_syscall ret_def)
  next
    case True
    let ?s = "s\<lparr>script := rs, trace := trace s @ [(Send fd buf, r)]\<rparr>"
    have "length (drop (nat (rval r)) buf) \<le> length rs" "rs \<noteq> []" "length rs < n"
      using Suc.prems(2,4) sc r True by auto
    then have "\<exists>e s'. tcp_send_rounds n fd (drop (nat (rval r)) buf) ?s = Ret e s'"
      using Suc.prems(1) sc by (intro Suc.IH) simp_all
    then show ?thesis using sc r True by (simp add: seq_syscall)
  qed
qed simp

section \<open>Datagrams\<close>

text \<open>The datagrams that left, and the bytes the kernel holds back for the next one, as
  \<open>send(2)\<close> and \<open>udp(7)\<close> document \<open>MSG_MORE\<close>: what is sent with it is appended, and a call
  without it sends all as one datagram. What a call that failed leaves behind is not
  documented: nothing is known any more (\<open>None\<close>).\<close>

fun datagram_step :: "'b call \<times> 'b reply \<Rightarrow> ('b list list \<times> 'b list) option \<Rightarrow> ('b list list \<times> 'b list) option" where
  "datagram_step (Sendto fd b held, r) (Some (ds, p)) =
     (if failed r then None
      else if held then Some (ds, p @ take (nat (rval r)) b) else Some (ds @ [p @ b], []))"
| "datagram_step _ d = d"

definition datagrams :: "('b call \<times> 'b reply) list \<Rightarrow> ('b list list \<times> 'b list) option" where
  "datagrams tr = fold datagram_step tr (Some ([], []))"

lemma datagrams_append [simp]: "datagrams (tr @ xs) = fold datagram_step xs (datagrams tr)"
  by (simp add: datagrams_def)

text \<open>How building the packet ends: with all of it held back, or at the first call that failed,
  for the rest of the packet after the \<open>k\<close> bytes that were taken.\<close>

definition built :: "int \<Rightarrow> u8 list \<Rightarrow> u8 list list \<Rightarrow> u8 list \<Rightarrow> (u8 call \<times> u8 reply) list \<Rightarrow>
    error_t \<Rightarrow> (u8 call \<times> u8 reply) list \<Rightarrow> bool" where
  "built fd buf ds p tr e tr' \<longleftrightarrow>
     (if e = SUCCESS then datagrams tr' = Some (ds, p @ buf)
      else e = FAIL \<and> (\<exists>us r k. tr' = tr @ us @ [(Sendto fd (drop k buf) True, r)] \<and> failed r \<and>
        k < length buf \<and> datagrams (tr @ us) = Some (ds, p @ take k buf)))"

lemma built_later:
  assumes "built fd (drop m buf) ds (p @ take m buf) (tr @ [x]) e tr'"
  shows "built fd buf ds p tr e tr'"
proof (cases "e = SUCCESS")
  case True
  with assms show ?thesis by (simp add: built_def)
next
  case False
  with assms obtain us r k where u: "e = FAIL" "tr' = tr @ (x # us) @ [(Sendto fd (drop k (drop m buf)) True, r)]"
      "failed r" "k < length (drop m buf)" "datagrams (tr @ x # us) = Some (ds, (p @ take m buf) @ take k (drop m buf))"
    by (auto simp: built_def)
  have "drop k (drop m buf) = drop (m + k) buf" "take m buf @ take k (drop m buf) = take (m + k) buf"
    "m + k < length buf" using u(4) by (simp_all add: add.commute [of k m]) (metis take_add)
  with u show ?thesis
    unfolding built_def by (auto intro!: exI [of _ "x # us"] exI [of _ r] exI [of _ "m + k"])
qed

lemma udp_build_rounds_spec:
  assumes "datagrams (trace s) = Some (ds, p)"
  shows "case udp_build_rounds n fd buf s of
     Ret e s' \<Rightarrow> sockfd s' = sockfd s \<and> built fd buf ds p (trace s) e (trace s')
   | Blocked s' \<Rightarrow> True | _ \<Rightarrow> False"
  using assms
proof (induction n arbitrary: buf s p)
  case (Suc n)
  show ?case
  proof (cases "script s")
    case Nil
    with Suc.prems show ?thesis by (simp add: seq_syscall built_def)
  next
    case (Cons r rs)
    let ?s = "s\<lparr>script := rs, trace := trace s @ [(Sendto fd buf True, r)]\<rparr>"
    have step: "udp_build_rounds (Suc n) fd buf s = (if buf = [] then Ret SUCCESS s
        else if failed r then Ret FAIL ?s else udp_build_rounds n fd (drop (nat (rval r)) buf) ?s)"
      using Cons by (simp add: seq_syscall ret_def)
    consider "buf = []" | "buf \<noteq> []" "failed r" | "buf \<noteq> []" "\<not> failed r" by blast
    then show ?thesis
    proof cases
      case 1
      then show ?thesis using Suc.prems by (simp add: built_def)
    next
      case 2
      then have "built fd buf ds p (trace s) FAIL (trace ?s)"
        using Suc.prems by (auto simp: built_def intro!: exI [of _ 0])
      with 2 show ?thesis unfolding step by simp
    next
      case 3
      then have "datagrams (trace ?s) = Some (ds, p @ take (nat (rval r)) buf)" using Suc.prems by simp
      from Suc.IH [OF this, of "drop (nat (rval r)) buf"] 3 show ?thesis unfolding step
        by (auto intro: built_later split: outcome.splits if_splits)
    qed
  qed
qed simp

lemma udp_build_grows: "udp_build_rounds n fd buf s = Ret e s' \<Longrightarrow> \<exists>us. trace s' = trace s @ us"
proof (induction n arbitrary: buf s)
  case (Suc n)
  show ?case
  proof (cases "script s = [] \<or> buf = [] \<or> failed (hd (script s))")
    case True
    with Suc.prems show ?thesis by (auto simp: seq_syscall ret_def split: if_splits list.splits)
  next
    case False
    then obtain r rs where r: "script s = r # rs" "buf \<noteq> []" "\<not> failed r" by (cases "script s") auto
    with Suc.prems have "udp_build_rounds n fd (drop (nat (rval r)) buf)
        (s\<lparr>script := rs, trace := trace s @ [(Sendto fd buf True, r)]\<rparr>) = Ret e s'" by (simp add: seq_syscall)
    from Suc.IH [OF this] show ?thesis by auto
  qed
qed simp

section \<open>The life of a connection\<close>

text \<open>The descriptors the main loop waits for.\<close>

fun registered_step :: "'b call \<times> 'b reply \<Rightarrow> int set \<Rightarrow> int set" where
  "registered_step (Register fd, r) A = insert fd A"
| "registered_step (Unregister fd, r) A = A - {fd}"
| "registered_step _ A = A"

definition registered :: "('b call \<times> 'b reply) list \<Rightarrow> int set" where
  "registered tr = fold registered_step tr {}"

lemma registered_append [simp]: "registered (tr @ xs) = fold registered_step xs (registered tr)"
  by (simp add: registered_def)

text \<open>\<open>IOManagerP\<close> has one entry for each component: registering overwrites it.\<close>

fun registration_step :: "'b call \<times> 'b reply \<Rightarrow> int option \<Rightarrow> int option" where
  "registration_step (Register fd, r) x = Some fd"
| "registration_step (Unregister fd, r) x = None"
| "registration_step _ x = x"

definition registration :: "('b call \<times> 'b reply) list \<Rightarrow> int option" where
  "registration tr = fold registration_step tr None"

lemma registration_append [simp]: "registration (tr @ xs) = fold registration_step xs (registration tr)"
  by (simp add: registration_def)

text \<open>A system call never gives -1 as a descriptor when it succeeds.\<close>

definition fds_ok :: "'b reply list \<Rightarrow> bool" where
  "fds_ok rs \<longleftrightarrow> (\<forall>r \<in> set rs. \<not> failed r \<longrightarrow> rval r \<noteq> -1)"

lemma fds_ok_Cons [simp]: "fds_ok (r # rs) \<longleftrightarrow> (\<not> failed r \<longrightarrow> rval r \<noteq> -1) \<and> fds_ok rs"
  by (simp add: fds_ok_def)

text \<open>The events and the commands, one after the other. The application opens a connection only
  when there is none and none is about to be opened again.\<close>

inductive tcp_step :: "tcp \<Rightarrow> tcp \<Rightarrow> bool" where
  receive: "tcp_receiveReady s = Ret () s' \<Longrightarrow> sock s \<in> registered (trace s) \<Longrightarrow> tcp_step s s'"
| deliver: "recv_posted s \<Longrightarrow> tcp_step s (tcp_receive_task s)"
| closed: "reconnect_posted s \<Longrightarrow> reconnect_task s = Ret () s' \<Longrightarrow> tcp_step s s'"
| timer: "reconnect_timer s \<noteq> None \<Longrightarrow> reconnect_fired s = Ret () s' \<Longrightarrow> tcp_step s s'"
| send: "tcp_send buf s = Ret e s' \<Longrightarrow> tcp_step s s'"
| shut: "tcp_close s = Ret e s' \<Longrightarrow> tcp_step s s'"
| open_it: "sock s = -1 \<Longrightarrow> reconnect_timer s = None \<Longrightarrow> tcp_connect host port s = Ret e s' \<Longrightarrow> tcp_step s s'"

inductive tcp_reach :: "tcp \<Rightarrow> bool" where
  start: "fds_ok rs \<Longrightarrow> tcp_reach (tcp_init rs)"
| step: "tcp_reach s \<Longrightarrow> tcp_step s s' \<Longrightarrow> tcp_reach s'"

text \<open>How the connection stands, as the calls and replies tell: \<open>Up fd\<close> since \<open>connect\<close> succeeded;
  \<open>Lost fd\<close> since the other side closed it (an empty \<open>recv\<close>) or the component gave it up;
  \<open>Down\<close> before, and since the application closed it.\<close>

datatype conn = Down | Up int | Lost int

fun conn_step :: "'b call \<times> 'b reply \<Rightarrow> conn \<Rightarrow> conn" where
  "conn_step (Connect fd, r) c = (if failed r then c else Up fd)"
| "conn_step (Recv fd n, r) (Up f) = (if \<not> failed r \<and> payload n r = [] then Lost f else Up f)"
| "conn_step (Unregister fd, r) (Up f) = Lost f"
| "conn_step (Close fd, r) c = Down"
| "conn_step _ c = c"

definition conn :: "('b call \<times> 'b reply) list \<Rightarrow> conn" where
  "conn tr = fold conn_step tr Down"

lemma conn_append [simp]: "conn (tr @ xs) = fold conn_step xs (conn tr)"
  by (simp add: conn_def)

lemma conn_idle_calls [simp]:
  "conn_step (Getaddrinfo h p, r) c = c" "conn_step (Socket, r) c = c" "conn_step (Fcntl_get fd, r) c = c"
  "conn_step (Fcntl_set fd fl, r) c = c" "conn_step (Register fd, r) c = c" "conn_step (Send fd b, r) c = c"
  by (cases c; simp)+

text \<open>What the main loop waits for and what is about to happen in each case.\<close>

definition tied :: "conn \<Rightarrow> tcp \<Rightarrow> bool" where
  "tied c s \<longleftrightarrow> (case c of
     Down \<Rightarrow> registered (trace s) = {}
   | Up fd \<Rightarrow> fd \<noteq> -1 \<and> sock s = fd \<and> registered (trace s) = {fd} \<and> reconnect_timer s = None
   | Lost fd \<Rightarrow> fd \<noteq> -1 \<and> sock s = fd \<and> registered (trace s) = {fd} \<and> reconnect_timer s = None \<and> reconnect_posted s \<or>
       sock s = -1 \<and> registered (trace s) = {} \<and> reconnect_timer s = Some RECONNECT_PERIOD)"

definition stored :: "tcp \<Rightarrow> bool" where
  "stored s \<longleftrightarrow> fds_ok (script s) \<and> length (msg s) = INBUF_SIZE \<and> msglen s \<le> INBUF_SIZE \<and>
     registration (trace s) = (if registered (trace s) = {} then None else Some (sock s))"

definition tcp_inv :: "tcp \<Rightarrow> bool" where
  "tcp_inv s \<longleftrightarrow> stored s \<and> tied (conn (trace s)) s \<and>
     (reconnect_timer s \<noteq> None \<longrightarrow> sock s = -1 \<and> registered (trace s) = {})"

text \<open>A state in which a connection may be opened, and what connecting makes of it.\<close>

definition idle :: "tcp \<Rightarrow> bool" where
  "idle s \<longleftrightarrow> stored s \<and> registered (trace s) = {} \<and> reconnect_timer s = None \<and> (\<forall>fd. conn (trace s) \<noteq> Up fd)"

lemmas tcp_inv_defs = tcp_inv_def stored_def tied_def

lemma idle_call:
  assumes "idle s" "script s = r # rs" "conn_step (c, r) (conn (trace s)) = conn (trace s)"
    and "registered_step (c, r) {} = {}" "registration_step (c, r) None = None"
  shows "idle (s\<lparr>script := rs, trace := trace s @ [(c, r)]\<rparr>)"
  using assms by (simp add: idle_def stored_def)

lemma tcp_connect_inv:
  assumes "idle s"
  shows "wp (tcp_connect host port) (\<lambda>e t. if e = SUCCESS then tcp_inv t
    else idle t \<and> conn (trace t) = conn (trace s)) (\<lambda>_. True) s"
  using assms unfolding tcp_connect_def make_nonblocking_def
  by (auto simp: wp_seq wp_ret wp_modify wp_gets wp_if tcp_inv_defs idle_def intro!: wp_syscallI)

lemma reconnect_helper_inv:
  assumes "idle s"
  shows "wp reconnect_helper (\<lambda>_. tcp_inv) (\<lambda>_. True) s"
proof -
  have "wp (tcp_connect h p) (\<lambda>e. wp (if e \<noteq> SUCCESS
      then modify (\<lambda>s. s\<lparr>sock := -1, reconnect_timer := Some RECONNECT_PERIOD\<rparr>) else ret ())
      (\<lambda>_. tcp_inv) (\<lambda>_. True)) (\<lambda>_. True) s" for h p
    by (rule wp_mono [OF tcp_connect_inv [OF assms]])
       (auto simp: wp_simps tcp_inv_defs idle_def split: if_splits conn.splits)
  then show ?thesis by (simp add: reconnect_helper_def wp_seq wp_access wp_gets split: option.split)
qed

lemma receiveReady_inv:
  assumes "tcp_inv s" "sock s \<in> registered (trace s)"
  shows "wp tcp_receiveReady (\<lambda>_. tcp_inv) (\<lambda>_. True) s"
proof -
  have "\<exists>fd. conn (trace s) = Up fd \<or> conn (trace s) = Lost fd"
    using assms by (cases "conn (trace s)") (auto simp: tcp_inv_defs)
  then show ?thesis
    using assms length_payload [of INBUF_SIZE]
    by (auto simp: tcp_receiveReady_def wp_simps tcp_inv_defs split: list.split option.split dest: memcpy_at_length)
qed

text \<open>The task that gives a connection up, from the state in which it is posted.\<close>

lemma reconnect_task_inv:
  assumes "tcp_inv s"
  shows "wp reconnect_task (\<lambda>_. tcp_inv) (\<lambda>_. True) s"
proof -
  let ?s = "s\<lparr>reconnect_posted := False\<rparr>"
  have none: "tcp_inv ?s" if "sock s = -1"
    using assms that by (auto simp: tcp_inv_defs split: conn.splits)
  have "idle (?s\<lparr>script := rs, trace := trace s @ [(Unregister (sock s), r)], sock := -1\<rparr>)"
    if "sock s \<noteq> -1" "script s = r # rs" for r rs
    using assms that by (cases "conn (trace s)") (auto simp: tcp_inv_defs idle_def)
  then show ?thesis using none
    by (auto simp: reconnect_task_def tcp_reconnect_def wp_simps split: list.split intro!: reconnect_helper_inv)
qed

lemma tcp_close_inv: "tcp_inv s \<Longrightarrow> wp tcp_close (\<lambda>_. tcp_inv) (\<lambda>_. True) s"
  by (auto simp: tcp_close_def wp_simps tcp_inv_defs split: list.split conn.splits)

lemma tcp_send_rounds_inv: "tcp_inv s \<Longrightarrow> tcp_send_rounds n fd buf s = Ret e s' \<Longrightarrow> tcp_inv s'"
proof (induction n arbitrary: buf s)
  case (Suc n)
  from Suc.prems(2) obtain r rs where sc: "script s = r # rs" by (cases "script s") (auto simp: seq_syscall)
  have "tcp_inv (s\<lparr>script := rs, trace := trace s @ [(Send fd buf, r)]\<rparr>)"
    using Suc.prems(1) sc by (auto simp: tcp_inv_defs split: conn.splits)
  with Suc.IH Suc.prems(2) sc show ?case by (auto simp: seq_syscall ret_def split: if_splits)
qed simp

lemma tcp_step_inv: "tcp_step s s' \<Longrightarrow> tcp_inv s \<Longrightarrow> tcp_inv s'"
proof (induction rule: tcp_step.induct)
  case (receive s s')
  then show ?case using receiveReady_inv wp_RetD by metis
next
  case (deliver s)
  then show ?case by (auto simp: tcp_inv_defs tcp_receive_task_def split: conn.splits)
next
  case (closed s s')
  then show ?case using reconnect_task_inv wp_RetD by metis
next
  case (timer s s')
  then have "idle (s\<lparr>reconnect_timer := None\<rparr>)" "reconnect_helper (s\<lparr>reconnect_timer := None\<rparr>) = Ret () s'"
    by (auto simp: tcp_inv_defs idle_def reconnect_fired_def split: conn.splits)
  then show ?case using reconnect_helper_inv wp_RetD by fastforce
next
  case (send buf s e s')
  then show ?case using tcp_send_rounds_inv
    by (auto simp: tcp_send_def ret_def simp del: tcp_send_rounds.simps split: if_splits)
next
  case (shut s e s')
  then show ?case using tcp_close_inv wp_RetD by metis
next
  case (open_it s host port e s')
  then have down: "conn (trace s) = Down" by (auto simp: tcp_inv_defs split: conn.splits)
  then have "idle s" using open_it by (auto simp: tcp_inv_defs idle_def)
  from wp_RetD [OF tcp_connect_inv [OF this] open_it(3)] down show ?case
    by (auto simp: tcp_inv_defs idle_def split: if_splits)
qed

lemma tcp_init_inv: "fds_ok rs \<Longrightarrow> tcp_inv (tcp_init rs)"
  by (simp add: tcp_inv_defs tcp_init_def INBUF_SIZE_def registered_def registration_def conn_def)

lemma tcp_reach_inv: "tcp_reach s \<Longrightarrow> tcp_inv s"
  by (induction rule: tcp_reach.induct) (auto simp: tcp_init_inv tcp_step_inv)

text \<open>When the timer fires and the system lets it, the connection is up again.\<close>

lemma connect_succeeds:
  assumes "\<forall>r \<in> set (script s). \<not> failed r" "6 \<le> length (script s)"
  shows "\<exists>t. tcp_connect host port s = Ret SUCCESS t \<and> conn (trace t) = Up (rval (script s ! 1))"
proof -
  obtain a b c d e f rs where "script s = a # b # c # d # e # f # rs"
    using assms(2) by (auto simp: numeral_eq_Suc Suc_le_length_iff)
  with assms(1) show ?thesis
    by (simp add: tcp_connect_def make_nonblocking_def seq_syscall seq_seq ret_def)
qed

lemma reconnect_succeeds:
  assumes "\<forall>r \<in> set (script s). \<not> failed r" "6 \<le> length (script s)" "NUL \<in> set (remote_host s)"
  shows "\<exists>t. reconnect_fired s = Ret () t \<and> conn (trace t) = Up (rval (script s ! 1))"
proof -
  let ?s = "s\<lparr>reconnect_timer := None\<rparr>"
  obtain t where "tcp_connect (cstr (remote_host s)) (remote_port s) ?s = Ret SUCCESS t"
      "conn (trace t) = Up (rval (script s ! 1))"
    using connect_succeeds [of ?s "cstr (remote_host s)" "remote_port s"] assms by auto
  with assms(3) show ?thesis
    by (simp add: reconnect_fired_def reconnect_helper_def host_string_def ret_def)
qed

section \<open>Losses\<close>

text \<open>A connection that the other side closed is taken out of the main loop but its descriptor is
  not closed, and neither is that of an attempt that failed: no run of the reconnection makes
  a call of \<open>close\<close>.\<close>

fun is_close :: "'b call \<Rightarrow> bool" where
  "is_close (Close fd) = True" | "is_close _ = False"

definition closes :: "('b call \<times> 'b reply) list \<Rightarrow> nat" where
  "closes tr = length (filter (\<lambda>x. is_close (fst x)) tr)"

lemma closes_simps [simp]:
  "closes (tr @ tr') = closes tr + closes tr'" "closes [] = 0"
  "closes (x # tr) = (if is_close (fst x) then Suc (closes tr) else closes tr)"
  by (simp_all add: closes_def)

lemma tcp_connect_never_closes:
  assumes "closes (trace t) = n"
  shows "wp (tcp_connect h p) (\<lambda>_ t. closes (trace t) = n) (\<lambda>t. closes (trace t) = n) t"
  unfolding tcp_connect_def make_nonblocking_def using assms
  by (auto simp: wp_seq wp_ret wp_modify wp_gets wp_if intro!: wp_syscallI)

lemma reconnect_helper_never_closes:
  assumes "closes (trace t) = n"
  shows "wp reconnect_helper (\<lambda>_ t. closes (trace t) = n) (\<lambda>t. closes (trace t) = n) t"
proof (cases "host_string (remote_host t)")
  case None
  with assms show ?thesis by (simp add: reconnect_helper_def wp_simps)
next
  case (Some h)
  have "wp (tcp_connect h (remote_port t)) (\<lambda>e. wp (if e \<noteq> SUCCESS
      then modify (\<lambda>s. s\<lparr>sock := -1, reconnect_timer := Some RECONNECT_PERIOD\<rparr>) else ret ())
      (\<lambda>_ t. closes (trace t) = n) (\<lambda>t. closes (trace t) = n)) (\<lambda>t. closes (trace t) = n) t"
    by (rule wp_mono [OF tcp_connect_never_closes [OF assms]]) (simp_all add: wp_simps)
  with Some show ?thesis by (simp add: reconnect_helper_def wp_seq wp_access wp_gets)
qed

lemma reconnect_never_closes: "closes (trace (final (tcp_reconnect s))) = closes (trace s)"
proof -
  have "wp tcp_reconnect (\<lambda>_ t. closes (trace t) = closes (trace s)) (\<lambda>t. closes (trace t) = closes (trace s)) s"
    unfolding tcp_reconnect_def
    by (auto simp: wp_seq wp_gets wp_if wp_ret wp_modify intro!: wp_syscallI reconnect_helper_never_closes)
  then show ?thesis by (rule wp_final)
qed

text \<open>There is one buffer for what arrived. The scheduler runs the posted tasks before the main loop
  sleeps again, and the component depends on it: of two wake-ups with no task between them only
  the data of the second is delivered.\<close>

lemma second_receive_overwrites:
  assumes "script s = data_reply a # data_reply b # rs" "a \<noteq> []" "b \<noteq> []" "length a \<le> INBUF_SIZE" "length b \<le> INBUF_SIZE"
    and "length (msg s) = INBUF_SIZE"
  shows "\<exists>t u. tcp_receiveReady s = Ret () t \<and> tcp_receiveReady t = Ret () u \<and>
    delivered (tcp_receive_task u) = delivered s @ [b]"
  using assms
  by (simp add: tcp_receiveReady_def seq_syscall payload_def memcpy_at_in modify_def tcp_receive_task_def)

section \<open>Properties\<close>

text \<open>C15. In every reachable state of a TCP connection, whatever the network does and in whatever
  order data, closings, timer, sends and the application come: while the connection is up,
  the main loop waits for its socket and for nothing else; when it was lost, either the task
  that opens it again is posted (and the old socket is still waited for) or the timer for the
  next attempt runs and nothing is waited for; when there is none, nothing is waited for. When
  the timer fires and the calls succeed, the connection is up again. The stored message
  fits its buffer.\<close>

theorem tcp_one_socket:
  assumes "tcp_reach s"
  shows "(case conn (trace s) of
      Down \<Rightarrow> registered (trace s) = {}
    | Up fd \<Rightarrow> fd \<noteq> -1 \<and> sock s = fd \<and> registered (trace s) = {fd} \<and> reconnect_timer s = None
    | Lost fd \<Rightarrow> sock s = fd \<and> registered (trace s) = {fd} \<and> reconnect_posted s \<or>
        sock s = -1 \<and> registered (trace s) = {} \<and> reconnect_timer s = Some RECONNECT_PERIOD) \<and>
    (reconnect_timer s \<noteq> None \<longrightarrow> sock s = -1 \<and> registered (trace s) = {}) \<and>
    ((\<forall>r \<in> set (script s). \<not> failed r) \<and> 6 \<le> length (script s) \<and> NUL \<in> set (remote_host s) \<longrightarrow>
      (\<exists>t. reconnect_fired s = Ret () t \<and> conn (trace t) = Up (rval (script s ! 1)))) \<and>
    length (msg s) = INBUF_SIZE \<and> msglen s \<le> INBUF_SIZE"
  using tcp_reach_inv [OF assms] reconnect_succeeds [of s]
  by (auto simp: tcp_inv_defs split: conn.splits)

text \<open>A connection that is opened, closed by the other side, and cannot be opened again.\<close>

definition example_tcp :: tcp where
  "example_tcp = tcp_init [ok_reply 0, ok_reply 5, ok_reply 0, ok_reply 0, ok_reply 0, ok_reply 0,
     data_reply [], ok_reply 0, err_reply 2]"

lemma example_tcp_simps:
  "script example_tcp = [ok_reply 0, ok_reply 5, ok_reply 0, ok_reply 0, ok_reply 0, ok_reply 0,
     data_reply [], ok_reply 0, err_reply 2]"
  "sock example_tcp = -1" "reconnect_timer example_tcp = None" "trace example_tcp = []"
  by (simp_all add: example_tcp_def tcp_init_def)

lemma example_tcp_reach: "tcp_reach example_tcp"
  unfolding example_tcp_def by (rule tcp_reach.start) (simp add: fds_ok_def)

lemma example_tcp_up:
  "\<exists>s. tcp_connect ''host'' 7 example_tcp = Ret SUCCESS s \<and> tcp_reach s \<and> script s = [data_reply [], ok_reply 0, err_reply 2] \<and>
     remote_host s = host_copy ''host'' \<and> sock s = 5 \<and> conn (trace s) = Up 5 \<and> registered (trace s) = {5} \<and> reconnect_timer s = None"
proof -
  obtain s where s: "tcp_connect ''host'' 7 example_tcp = Ret SUCCESS s" "script s = [data_reply [], ok_reply 0, err_reply 2]"
      "remote_host s = host_copy ''host''" "sock s = 5" "conn (trace s) = Up 5" "registered (trace s) = {5}" "reconnect_timer s = None"
    by (simp add: tcp_connect_def make_nonblocking_def seq_syscall seq_seq ret_def registered_def conn_def example_tcp_simps)
  from tcp_step.open_it [OF example_tcp_simps(2,3) s(1)] have "tcp_reach s"
    by (rule tcp_reach.step [OF example_tcp_reach])
  with s show ?thesis by blast
qed

theorem tcp_one_socket_witness:
  "\<exists>s. tcp_reach s \<and> conn (trace s) = Lost 5 \<and> sock s = -1 \<and> reconnect_timer s = Some RECONNECT_PERIOD"
proof -
  obtain s where s: "tcp_reach s" "script s = [data_reply [], ok_reply 0, err_reply 2]"
      "remote_host s = host_copy ''host''" "sock s = 5" "conn (trace s) = Up 5" "registered (trace s) = {5}" "reconnect_timer s = None"
    using example_tcp_up by blast
  obtain t where t: "tcp_receiveReady s = Ret () t" "script t = [ok_reply 0, err_reply 2]" "remote_host t = host_copy ''host''"
      "sock t = 5" "conn (trace t) = Lost 5" "reconnect_posted t"
    using s(2-5) by (simp add: tcp_receiveReady_def seq_syscall payload_def modify_def)
  have rt: "tcp_reach t" by (rule tcp_reach.step [OF s(1) tcp_step.receive [OF t(1)]]) (simp add: s)
  have "NUL \<in> set (host_copy ''host'')" by (simp add: host_copy_def HOST_SIZE_def)
  then obtain u where u: "reconnect_task t = Ret () u" "conn (trace u) = Lost 5" "sock u = -1"
    using t(2-5) by (simp add: reconnect_task_def tcp_reconnect_def reconnect_helper_def tcp_connect_def
        host_string_def seq_syscall seq_seq ret_def modify_def)
  have "tcp_reach u" by (rule tcp_reach.step [OF rt tcp_step.closed [OF t(6) u(1)]])
  with tcp_one_socket [OF this] u(2,3) show ?thesis by auto
qed

text \<open>C23. Sending over TCP gives the kernel all bytes of the buffer, in order and once, when it
  reports success; after a failure, or while the kernel does not answer, it has given it a
  beginning of the buffer. It reports success or failure as soon as the kernel takes at least
  one byte per call.\<close>

theorem tcp_send_whole:
  "(case tcp_send buf s of
      Ret e s' \<Rightarrow> if e = SUCCESS then transmitted (trace s') = transmitted (trace s) @ buf
                  else e = FAIL \<and> prefix_sent buf s s'
    | Blocked s' \<Rightarrow> prefix_sent buf s s'
    | _ \<Rightarrow> False) \<and>
   ((\<forall>r \<in> set (script s). \<not> failed r \<and> 1 \<le> rval r) \<and> max 1 (length buf) \<le> length (script s) \<longrightarrow>
      (\<exists>e s'. tcp_send buf s = Ret e s'))"
proof (intro conjI impI)
  have here: "prefix_sent buf s s" unfolding prefix_sent_def by (rule exI [of _ 0]) simp
  show "case tcp_send buf s of
      Ret e s' \<Rightarrow> if e = SUCCESS then transmitted (trace s') = transmitted (trace s) @ buf
                  else e = FAIL \<and> prefix_sent buf s s'
    | Blocked s' \<Rightarrow> prefix_sent buf s s'
    | _ \<Rightarrow> False"
    using here tcp_send_rounds_spec [where n = "Suc (length (script s))" and fd = "sock s" and buf = buf and s = s]
    by (auto simp: tcp_send_def ret_def simp del: tcp_send_rounds.simps split: outcome.splits if_splits)
  show "\<exists>e s'. tcp_send buf s = Ret e s'"
    if *: "(\<forall>r \<in> set (script s). \<not> failed r \<and> 1 \<le> rval r) \<and> max 1 (length buf) \<le> length (script s)"
  proof -
    have "script s \<noteq> []" "length buf \<le> length (script s)" using * by auto
    from tcp_send_rounds_returns [OF conjunct1 [OF *] this(2,1), where n = "Suc (length (script s))" and fd = "sock s"]
    show ?thesis by (auto simp: tcp_send_def ret_def simp del: tcp_send_rounds.simps)
  qed
qed

theorem tcp_send_whole_witness:
  "\<exists>e s'. tcp_send [1, 2, 3] ((tcp_init [ok_reply 2, ok_reply 1, ok_reply 1])\<lparr>sock := 5\<rparr>) = Ret e s'"
proof -
  let ?s = "(tcp_init [ok_reply 2, ok_reply 1, ok_reply 1])\<lparr>sock := 5\<rparr>"
  have "(\<forall>r \<in> set (script ?s). \<not> failed r \<and> 1 \<le> rval r) \<and> max 1 (length [1, 2, 3 :: u8]) \<le> length (script ?s)"
    by (simp add: tcp_init_def)
  with tcp_send_whole [where buf = "[1, 2, 3]" and s = ?s] show ?thesis by blast
qed

text \<open>C39. A UDP packet that is reported as sent leaves as one datagram: its bytes after those of
  the pieces built before. When an error is reported there was no socket and no call was made, or
  the last call failed: that for the rest of the packet, after a beginning of it was handed
  over to be held back, or, when all of it was held back, that which should have sent it; no
  datagram has left before it.\<close>

theorem udp_sends_datagram:
  assumes "datagrams (trace s) = Some (ds, held)" "udp_send_data buf s = Ret e s'"
  shows "if e = SUCCESS then datagrams (trace s') = Some (ds @ [held @ buf], [])
    else e = FAIL \<and> (sockfd s = -1 \<and> trace s' = trace s \<or>
      (\<exists>us r k. failed r \<and> datagrams (trace s @ us) = Some (ds, held @ take k buf) \<and>
         trace s' = trace s @ us @ [(if k < length buf then Sendto (sockfd s) (drop k buf) True
           else Sendto (sockfd s) [] False, r)]))"
proof (cases "sockfd s = -1")
  case True
  then have "e = FAIL" "s' = s" using assms(2) by (simp_all add: udp_send_data_def udp_build_packet_def ret_def seq_seq)
  then show ?thesis using True by simp
next
  case False
  let ?b = "udp_build_rounds (Suc (length (script s))) (sockfd s) buf s"
  have b: "udp_build_packet buf s = ?b" using False by (simp add: udp_build_packet_def del: udp_build_rounds.simps)
  note spec = udp_build_rounds_spec [OF assms(1), where n = "Suc (length (script s))" and fd = "sockfd s" and buf = buf]
  obtain e1 t where t: "?b = Ret e1 t"
    using assms(2) unfolding udp_send_data_def seq_def b by (cases ?b) (auto simp del: udp_build_rounds.simps)
  with spec have bt: "sockfd t = sockfd s" "built (sockfd s) buf ds held (trace s) e1 (trace t)"
    by (simp_all del: udp_build_rounds.simps)
  show ?thesis
  proof (cases "e1 = SUCCESS")
    case True
    with bt have d: "datagrams (trace t) = Some (ds, held @ buf)" by (simp add: built_def)
    from assms(2) b t True bt(1) obtain r rs where r: "script t = r # rs"
        "e = (if failed r then FAIL else SUCCESS)" "s' = t\<lparr>script := rs, trace := trace t @ [(Sendto (sockfd s) [] False, r)]\<rparr>"
      by (cases "script t") (auto simp: udp_send_data_def seq_syscall ret_def simp del: udp_build_rounds.simps split: if_splits)
    moreover obtain us where "trace t = trace s @ us"
      using udp_build_grows [of "Suc (length (script s))" "sockfd s" buf s] t by (auto simp del: udp_build_rounds.simps)
    ultimately show ?thesis using d by (auto intro!: exI [of _ us] exI [of _ r] exI [of _ "length buf"])
  next
    case False
    with bt(2) obtain us r k where "e1 = FAIL" "trace t = trace s @ us @ [(Sendto (sockfd s) (drop k buf) True, r)]"
        "failed r" "k < length buf" "datagrams (trace s @ us) = Some (ds, held @ take k buf)"
      by (auto simp: built_def)
    moreover from this(1) assms(2) b t have "e = FAIL" "s' = t"
      by (simp_all add: udp_send_data_def ret_def del: udp_build_rounds.simps)
    ultimately show ?thesis by (auto intro!: exI [of _ us] exI [of _ r] exI [of _ k])
  qed
qed

theorem udp_sends_datagram_witness:
  "\<exists>s'. udp_send_data [1, 2, 3] ((udp_start [ok_reply 2, ok_reply 1, ok_reply 0])\<lparr>sockfd := 5\<rparr>) = Ret SUCCESS s' \<and>
     datagrams (trace s') = Some ([[1, 2, 3]], [])"
proof -
  let ?s = "(udp_start [ok_reply 2, ok_reply 1, ok_reply 0])\<lparr>sockfd := 5\<rparr>"
  have "\<exists>s'. udp_send_data [1, 2, 3] ?s = Ret SUCCESS s'"
    by (simp add: udp_send_data_def udp_build_packet_def udp_start_def seq_syscall ret_def)
  then obtain s' where s': "udp_send_data [1, 2, 3] ?s = Ret SUCCESS s'" by blast
  have "datagrams (trace ?s) = Some ([], [])" by (simp add: udp_start_def datagrams_def)
  from udp_sends_datagram [OF this s'] s' show ?thesis by simp
qed

end
