(* ===== verification/CommandLine.thy ===== *)
theory CommandLine
  imports Posix
begin

text \<open>
  The arguments of the program (\<open>CommandLineP.nc\<close>), read from the file the kernel keeps of them
  and split into an array of arrays, and the name of the TUN device among them
  (\<open>TunNameP.nc\<close>). An index outside the arrays is the value \<open>None\<close>, or a fault in a program.
\<close>

section \<open>State\<close>

definition MAX_ARGS :: nat where "MAX_ARGS = 20"
definition MAX_ARG_LEN :: nat where "MAX_ARG_LEN = 100"

record cmdline = "char os" +
  args :: "string list"
  num_args :: u8
  inited :: bool

definition cmdline_ok :: "string list \<Rightarrow> bool" where
  "cmdline_ok rows \<longleftrightarrow> length rows = MAX_ARGS \<and> (\<forall>row \<in> set rows. length row = MAX_ARG_LEN)"

definition cmdline_start :: "char reply list \<Rightarrow> cmdline" where
  "cmdline_start rs = \<lparr>script = rs, trace = [],
     args = replicate MAX_ARGS (replicate MAX_ARG_LEN NUL), num_args = 0, inited = False\<rparr>"

section \<open>Splitting the line\<close>

text \<open>\<open>args[idx][k] = c\<close>\<close>

definition set_arg :: "string list \<Rightarrow> int \<Rightarrow> nat \<Rightarrow> char \<Rightarrow> string list option" where
  "set_arg rows idx k c =
     (if idx < 0 then None
      else do {
        row \<leftarrow> aget rows (nat idx);
        row' \<leftarrow> aupd row k (\<lambda>_. c);
        Some (rows[nat idx := row'])
      })"

text \<open>The loop over the bytes: the arrays, whether an argument has begun, its index and the next
  index in it.\<close>

fun arg_loop :: "string \<Rightarrow> string list \<Rightarrow> bool \<Rightarrow> int \<Rightarrow> nat \<Rightarrow> (string list \<times> int) option" where
  "arg_loop [] rows started idx k = Some (rows, idx)"
| "arg_loop (c # cs) rows started idx k =
     (if c = NUL then
        (if started \<and> k < MAX_ARG_LEN
         then do { rows \<leftarrow> set_arg rows idx k NUL; arg_loop cs rows False idx (k + 1) }
         else arg_loop cs rows False idx k)
      else
        (let idx' = (if started then idx else idx + 1); k' = (if started then k else 0) in
         if k' \<ge> MAX_ARG_LEN - 1 then arg_loop cs rows True idx' k'
         else if idx' \<ge> int MAX_ARGS then Some (rows, idx')
         else do { rows \<leftarrow> set_arg rows idx' k' c; arg_loop cs rows True idx' (k' + 1) }))"

text \<open>\<open>init\<close>: \<open>pid\<close> is the number of the process.\<close>

definition cmdline_init :: "nat \<Rightarrow> (error_t, 'x cmdline_scheme) prog" where
  "cmdline_init pid =
     seq (gets inited) (\<lambda>done_before. if done_before then ret SUCCESS else
     seq (syscall (Open (''/proc/'' @ show_nat pid @ ''/cmdline''))) (\<lambda>f. if failed f then ret FAIL else
     seq (syscall (Read (rval f) (MAX_ARGS * MAX_ARG_LEN))) (\<lambda>r. if failed r then ret FAIL else
     seq (access (\<lambda>s. arg_loop (payload (MAX_ARGS * MAX_ARG_LEN) r @ [NUL]) (args s) False (-1) 0)) (\<lambda>(rows, idx).
     seq (modify (\<lambda>s. s\<lparr>args := rows, num_args := of_int (idx + 1), inited := True\<rparr>)) (\<lambda>_. ret SUCCESS)))))"

definition arg_count :: "nat \<Rightarrow> (u8, 'x cmdline_scheme) prog" where
  "arg_count pid = seq (cmdline_init pid) (\<lambda>_. gets num_args)"

text \<open>The pointer to an argument is the index of its array, \<open>None\<close> a null pointer. Reading the string
  at a pointer is a step of its own: there is an array of this index, or the access is a fault.\<close>

definition getArg :: "nat \<Rightarrow> u8 \<Rightarrow> (nat option, 'x cmdline_scheme) prog" where
  "getArg pid i =
     seq (cmdline_init pid) (\<lambda>_.
     seq (gets num_args) (\<lambda>n. ret (if i \<ge> n then None else Some (unat i))))"

definition arg_text :: "nat option \<Rightarrow> (string, 'x cmdline_scheme) prog" where
  "arg_text p = (case p of None \<Rightarrow> fault
     | Some i \<Rightarrow> seq (access (\<lambda>s. aget (args s) i)) (\<lambda>row. ret (cstr row)))"

section \<open>The name of the device\<close>

text \<open>The name is the pointer to an argument or to a string of the program. The loop of
  \<open>getTunName\<close> goes over the indices that are left.\<close>

datatype name_ptr = Literal string | Arg "nat option"

fun tun_name_from :: "nat \<Rightarrow> u8 \<Rightarrow> nat list \<Rightarrow> (name_ptr, 'x cmdline_scheme) prog" where
  "tun_name_from pid argc [] = ret (Literal '''')"
| "tun_name_from pid argc (i # is) =
     seq (getArg pid (of_nat i)) (\<lambda>arg.
     seq (arg_text arg) (\<lambda>a.
       if take 2 a = ''-i'' \<and> unat argc > i + 1 then seq (getArg pid (of_nat (i + 1))) (\<lambda>p. ret (Arg p))
       else tun_name_from pid argc is))"

definition getTunName :: "nat \<Rightarrow> (name_ptr, 'x cmdline_scheme) prog" where
  "getTunName pid = seq (arg_count pid) (\<lambda>argc. tun_name_from pid argc [1..<unat argc])"

fun name_text :: "name_ptr \<Rightarrow> (string, 'x cmdline_scheme) prog" where
  "name_text (Literal t) = ret t"
| "name_text (Arg p) = arg_text p"

section \<open>Words\<close>

text \<open>What the arguments of a line are: the pieces between \<open>NUL\<close> bytes that are not empty.\<close>

function (sequential) words :: "string \<Rightarrow> string list" where
  "words [] = []"
| "words (c # s) =
     (if c = NUL then words s
      else takeWhile (\<lambda>x. x \<noteq> NUL) (c # s) # words (dropWhile (\<lambda>x. x \<noteq> NUL) (c # s)))"
  by pat_completeness auto
termination
proof (relation "measure length", goal_cases)
  case (3 c s)
  then have "length (dropWhile (\<lambda>x. x \<noteq> NUL) (c # s)) \<le> length s" by (simp add: length_dropWhile_le)
  then show ?case by simp
qed auto

lemma words_print: "\<forall>a \<in> set as. a \<noteq> [] \<and> NUL \<notin> set a \<Longrightarrow> words (concat (map (\<lambda>a. a @ [NUL]) as)) = as"
proof (induction "as")
  case (Cons a "as")
  then obtain c s where a: "a = c # s" "c \<noteq> NUL" "NUL \<notin> set s" by (cases a) auto
  then have "\<forall>x \<in> set s. x \<noteq> NUL" by auto
  then have "takeWhile (\<lambda>x. x \<noteq> NUL) (s @ NUL # t) = s" "dropWhile (\<lambda>x. x \<noteq> NUL) (s @ NUL # t) = NUL # t" for t
    by (simp_all add: takeWhile_append2 dropWhile_append2)
  with a Cons show ?case by simp
qed simp

section \<open>The loop finds the words\<close>

lemma arg_loop_unstarted: "arg_loop cs rows False idx k = arg_loop cs rows False idx 0"
  by (induction cs) (auto simp: Let_def)

lemma arg_loop_skip [simp]: "arg_loop (NUL # cs) rows False idx k = arg_loop cs rows False idx 0"
  by (simp add: arg_loop_unstarted [of _ _ _ k])

lemma set_arg_row:
  assumes "i < length rows" "k < length (rows ! i)"
  shows "set_arg rows (int i) k c = Some (rows[i := (rows ! i)[k := c]])"
  using assms by (simp add: set_arg_def aget_def aupd_def)

lemma cmdline_ok_upd: "cmdline_ok rows \<Longrightarrow> length row = MAX_ARG_LEN \<Longrightarrow> cmdline_ok (rows[i := row])"
  using set_update_subset_insert [of rows i row] by (auto simp: cmdline_ok_def)

lemma cstr_cut: "k < length row \<Longrightarrow> NUL \<notin> set (take k row) \<Longrightarrow> cstr (row[k := NUL]) = take k row"
  by (metis cstr_append_NUL upd_conv_take_nth_drop)

text \<open>An argument that has begun is stored up to its end.\<close>

lemma arg_loop_word:
  assumes "cmdline_ok rows" "i < MAX_ARGS" "k < MAX_ARG_LEN" "NUL \<notin> set w" "NUL \<notin> set (take k (rows ! i))"
  shows "\<exists>row. arg_loop (w @ NUL # rest) rows True (int i) k = arg_loop rest (rows[i := row]) False (int i) 0 \<and>
    length row = MAX_ARG_LEN \<and> cstr row = take k (rows ! i) @ take (MAX_ARG_LEN - 1 - k) w"
  using assms
proof (induction w arbitrary: rows k)
  case Nil
  then have "i < length rows" "length (rows ! i) = MAX_ARG_LEN" by (auto simp: cmdline_ok_def)
  with Nil show ?case
    by (intro exI [of _ "(rows ! i)[k := NUL]"]) (simp add: set_arg_row cstr_cut arg_loop_unstarted [of _ _ _ "Suc k"])
next
  case (Cons c w)
  then have len: "i < length rows" "length (rows ! i) = MAX_ARG_LEN" by (auto simp: cmdline_ok_def)
  show ?case
  proof (cases "k \<ge> MAX_ARG_LEN - 1")
    case True
    with Cons.IH [OF Cons.prems(1-3) _ Cons.prems(5)] Cons.prems(4) show ?thesis by (auto simp: Let_def)
  next
    case False
    let ?row = "(rows ! i)[k := c]" and ?rows = "rows[i := (rows ! i)[k := c]]"
    have row: "?rows ! i = ?row" "take (Suc k) ?row = take k (rows ! i) @ [c]"
      using len False Cons.prems(3) by (simp_all add: take_Suc_conv_app_nth)
    have c: "c \<noteq> NUL" using Cons.prems(4) by auto
    have "arg_loop ((c # w) @ NUL # rest) rows True (int i) k = arg_loop (w @ NUL # rest) ?rows True (int i) (Suc k)"
      using Cons.prems(2,3) len False c by (simp add: set_arg_row Let_def)
    moreover have "\<exists>r. arg_loop (w @ NUL # rest) ?rows True (int i) (Suc k) = arg_loop rest (?rows[i := r]) False (int i) 0 \<and>
        length r = MAX_ARG_LEN \<and> cstr r = take (Suc k) (?rows ! i) @ take (MAX_ARG_LEN - 1 - Suc k) w"
    proof (rule Cons.IH)
      show "cmdline_ok ?rows" using Cons.prems(1) len by (simp add: cmdline_ok_upd)
      show "Suc k < MAX_ARG_LEN" using False Cons.prems(3) by linarith
      show "NUL \<notin> set w" using Cons.prems(4) by simp
      show "NUL \<notin> set (take (Suc k) (?rows ! i))" unfolding row using Cons.prems(5) c by simp
    qed (rule Cons.prems(2))
    moreover have "take (MAX_ARG_LEN - 1 - k) (c # w) = c # take (MAX_ARG_LEN - 1 - Suc k) w"
      using False by (simp add: take_Cons' Suc_diff_Suc)
    ultimately show ?thesis using row by auto
  qed
qed

lemma arg_loop_begin:
  assumes "w \<noteq> []" "hd w \<noteq> NUL" "idx + 1 = int i"
  shows "arg_loop (w @ cs) rows False idx k = arg_loop (w @ cs) rows True (int i) 0"
  using assms by (cases w) simp_all

lemma split_word:
  assumes "c \<noteq> NUL" "w = takeWhile (\<lambda>x. x \<noteq> NUL) (c # s)" "rest = dropWhile (\<lambda>x. x \<noteq> NUL) (c # s)"
  obtains X where "(c # s) @ [NUL] = w @ NUL # X" "rest @ [NUL] = NUL # X" "w \<noteq> []" "hd w \<noteq> NUL" "NUL \<notin> set w"
proof -
  have "rest @ [NUL] \<noteq> []" "hd (rest @ [NUL]) = NUL"
    using hd_dropWhile [of "\<lambda>x. x \<noteq> NUL" "c # s"] assms(3) by (cases rest; force)+
  then obtain X where X: "rest @ [NUL] = NUL # X" by (metis list.collapse)
  have "c # s = w @ rest" by (simp only: assms(2,3) takeWhile_dropWhile_id)
  then have "(c # s) @ [NUL] = w @ NUL # X" using X by simp
  moreover have "NUL \<notin> set w" unfolding assms(2) by (auto dest: set_takeWhileD)
  moreover have "w \<noteq> []" "hd w \<noteq> NUL" using assms(1,2) by simp_all
  ultimately show ?thesis using that X by blast
qed

definition holds_words :: "string list \<Rightarrow> nat \<Rightarrow> string list \<Rightarrow> bool" where
  "holds_words rows n ws \<longleftrightarrow>
     (\<forall>j < length ws. n + j < MAX_ARGS \<longrightarrow> cstr (rows ! (n + j)) = take (MAX_ARG_LEN - 1) (ws ! j))"

lemma arg_loop_words:
  assumes "cmdline_ok rows" "n \<le> MAX_ARGS"
  shows "\<exists>rows'. arg_loop (s @ [NUL]) rows False (int n - 1) 0 = Some (rows', int (min (MAX_ARGS + 1) (n + length (words s))) - 1) \<and>
    cmdline_ok rows' \<and> (\<forall>j < n. rows' ! j = rows ! j) \<and> holds_words rows' n (words s)"
  using assms
proof (induction s arbitrary: rows n rule: words.induct)
  case 1
  then show ?case by (simp add: holds_words_def MAX_ARGS_def)
next
  case (2 c s)
  show ?case
  proof (cases "c = NUL")
    case True
    with 2 show ?thesis by simp
  next
    case False
    define w where "w = takeWhile (\<lambda>x. x \<noteq> NUL) (c # s)"
    define rest where "rest = dropWhile (\<lambda>x. x \<noteq> NUL) (c # s)"
    have ws: "words (c # s) = w # words rest" using False by (simp add: w_def rest_def)
    from split_word [OF False w_def rest_def] obtain X where
      X: "(c # s) @ [NUL] = w @ NUL # X" "rest @ [NUL] = NUL # X" and w: "w \<noteq> []" "hd w \<noteq> NUL" "NUL \<notin> set w" .
    show ?thesis
    proof (cases "n = MAX_ARGS")
      case True
      have "arg_loop ((c # s) @ [NUL]) rows False (int n - 1) 0 = Some (rows, int MAX_ARGS)"
        using False True by (simp add: MAX_ARGS_def MAX_ARG_LEN_def)
      with True "2.prems"(1) show ?thesis unfolding ws
        by (intro exI [of _ rows]) (simp add: holds_words_def del: arg_loop.simps words.simps)
    next
      case less: False
      then have n: "n < MAX_ARGS" using "2.prems"(2) by simp
      from arg_loop_word [OF "2.prems"(1) n _ w(3), of 0 X] obtain row where
        row: "arg_loop (w @ NUL # X) rows True (int n) 0 = arg_loop X (rows[n := row]) False (int n) 0"
          "length row = MAX_ARG_LEN" "cstr row = take (MAX_ARG_LEN - 1) w"
        by (auto simp: MAX_ARG_LEN_def)
      have "arg_loop ((c # s) @ [NUL]) rows False (int n - 1) 0 = arg_loop (rest @ [NUL]) (rows[n := row]) False (int (Suc n) - 1) 0"
        unfolding X using arg_loop_begin [OF w(1,2), of "int n - 1" n] row(1) by simp
      moreover have "cmdline_ok (rows[n := row])" using "2.prems"(1) row(2) by (rule cmdline_ok_upd)
      with "2.IH"(2) [OF False] n obtain rows' where
        r: "arg_loop (rest @ [NUL]) (rows[n := row]) False (int (Suc n) - 1) 0 =
            Some (rows', int (min (MAX_ARGS + 1) (Suc n + length (words rest))) - 1)"
          "cmdline_ok rows'" "\<forall>j < Suc n. rows' ! j = rows[n := row] ! j" "holds_words rows' (Suc n) (words rest)"
        unfolding rest_def by (metis Suc_leI)
      moreover have "rows' ! n = row" using r(3) n "2.prems"(1) by (simp add: cmdline_ok_def)
      with r(4) row(3) have "holds_words rows' n (w # words rest)"
        by (auto simp: holds_words_def nth_Cons split: nat.split)
      moreover have "\<forall>j < n. rows' ! j = rows ! j" using r(3) by simp
      ultimately show ?thesis unfolding ws
        by (intro exI [of _ rows']) (simp del: arg_loop.simps words.simps)
    qed
  qed
qed

section \<open>Asking for arguments\<close>

text \<open>The state after the line was read: \<open>as\<close> are the arguments.\<close>

definition has_args :: "string list \<Rightarrow> 'x cmdline_scheme \<Rightarrow> bool" where
  "has_args as s \<longleftrightarrow> inited s \<and> unat (num_args s) = length as \<and> cmdline_ok (args s) \<and> length as \<le> MAX_ARGS \<and>
     (\<forall>i < length as. cstr (args s ! i) = as ! i)"

lemma cmdline_init_reads:
  assumes "\<not> inited s" "cmdline_ok (args s)" "script s = f # r # rs" "\<not> failed f" "\<not> failed r"
  shows "\<exists>s'. cmdline_init pid s = Ret SUCCESS s' \<and> inited s' \<and> cmdline_ok (args s') \<and> script s' = rs \<and>
    num_args s' = of_nat (min (MAX_ARGS + 1) (length (words (payload (MAX_ARGS * MAX_ARG_LEN) r)))) \<and>
    holds_words (args s') 0 (words (payload (MAX_ARGS * MAX_ARG_LEN) r))"
proof -
  let ?ws = "words (payload (MAX_ARGS * MAX_ARG_LEN) r)"
  from arg_loop_words [OF assms(2), of 0 "payload (MAX_ARGS * MAX_ARG_LEN) r"] obtain rows where
    rows: "arg_loop (payload (MAX_ARGS * MAX_ARG_LEN) r @ [NUL]) (args s) False (-1) 0 =
        Some (rows, int (min (MAX_ARGS + 1) (length ?ws)) - 1)" "cmdline_ok rows" "holds_words rows 0 ?ws"
    by auto
  then show ?thesis using assms(1,3-5)
    by (simp add: cmdline_init_def seq_syscall ret_def del: arg_loop.simps of_nat_min)
qed

lemma cmdline_init_again: "inited s \<Longrightarrow> cmdline_init pid s = Ret SUCCESS s"
  by (simp add: cmdline_init_def ret_def)

lemma getArg_has:
  "has_args as s \<Longrightarrow> i < length as \<Longrightarrow>
   getArg pid (of_nat i) s = Ret (Some i) s \<and> arg_text (Some i) s = Ret (as ! i) s"
proof -
  assume h: "has_args as s" and i: "i < length as"
  then have "i < 256" by (simp add: has_args_def MAX_ARGS_def)
  then have u: "unat (of_nat i :: u8) = i" by (rule unat_of_nat_u8)
  then have "\<not> (of_nat i :: u8) \<ge> num_args s" using h i by (simp add: word_le_nat_alt has_args_def)
  moreover have "aget (args s) i = Some (args s ! i)" using h i by (simp add: has_args_def aget_def cmdline_ok_def)
  ultimately show ?thesis using h i u by (simp add: getArg_def arg_text_def cmdline_init_def has_args_def ret_def gets_def)
qed

lemma arg_count_has: "has_args as s \<Longrightarrow> arg_count pid s = Ret (num_args s) s"
  by (simp add: arg_count_def cmdline_init_again has_args_def gets_def)

text \<open>The argument after the first one that begins with \<open>-i\<close> and has one after it.\<close>

fun after_i :: "string list \<Rightarrow> string" where
  "after_i (a # b # as) = (if take 2 a = ''-i'' then b else after_i (b # as))"
| "after_i _ = ''''"

lemma tun_name_from_has:
  assumes "has_args as s"
  shows "k \<le> length as \<Longrightarrow>
    seq (tun_name_from pid (num_args s) [k..<length as]) name_text s = Ret (after_i (drop k as)) s"
proof (induction "length as - k" arbitrary: k)
  case 0
  then show ?case by (simp add: ret_def)
next
  case (Suc n)
  then have k: "k < length as" by simp
  have IH: "seq (tun_name_from pid (num_args s) [Suc k..<length as]) name_text s = Ret (after_i (drop (Suc k) as)) s"
    using Suc by (intro Suc.hyps(1)) simp_all
  have n: "unat (num_args s) = length as" using assms by (simp add: has_args_def)
  note at = getArg_has [OF assms]
  show ?case
  proof (cases "Suc k < length as")
    case True
    then have "drop k as = as ! k # as ! Suc k # drop (Suc (Suc k)) as" "drop (Suc k) as = as ! Suc k # drop (Suc (Suc k)) as"
      by (simp_all add: Cons_nth_drop_Suc)
    then show ?thesis using IH at [OF k] at [OF True] True n k
      by (simp add: upt_conv_Cons seq_seq del: of_nat_Suc)
  next
    case False
    then have "drop k as = [as ! k]" "length as = Suc k" using k by (simp_all add: Cons_nth_drop_Suc [symmetric])
    then show ?thesis using at [OF k] n by (simp add: ret_def seq_seq)
  qed
qed

lemma getTunName_has: "has_args as s \<Longrightarrow> as \<noteq> [] \<Longrightarrow> seq (getTunName pid) name_text s = Ret (after_i (tl as)) s"
  using tun_name_from_has [of as s 1 pid] arg_count_has [of as s pid]
  by (simp add: getTunName_def seq_seq has_args_def drop_Suc Suc_le_eq)

section \<open>Properties\<close>

text \<open>C19. The arguments are the words of the line, whatever its bytes: as many as there are up to
  20, each cut to 99 bytes, with no access outside the arrays while they are read. With more
  than 20 the count is 21, and the pointer to the last one points beyond the arrays: reading
  it is a fault.\<close>

theorem command_line_words:
  assumes "\<not> inited s" "cmdline_ok (args s)" "script s = f # r # rs" "\<not> failed f" "\<not> failed r"
    and "ws = words (payload (MAX_ARGS * MAX_ARG_LEN) r)"
  shows "\<exists>s'. cmdline_init pid s = Ret SUCCESS s' \<and> unat (num_args s') = min 21 (length ws) \<and>
    (\<forall>i < min 20 (length ws). getArg pid (of_nat i) s' = Ret (Some i) s' \<and>
      arg_text (Some i) s' = Ret (take 99 (ws ! i)) s') \<and>
    (20 < length ws \<longrightarrow> getArg pid 20 s' = Ret (Some 20) s' \<and> arg_text (Some 20) s' = Fault s')"
proof -
  from cmdline_init_reads [OF assms(1-5), of pid] obtain s' where
    s': "cmdline_init pid s = Ret SUCCESS s'" "inited s'" "cmdline_ok (args s')"
      "num_args s' = of_nat (min 21 (length ws))" "holds_words (args s') 0 ws"
    by (auto simp: assms(6) MAX_ARGS_def simp del: of_nat_min)
  have n: "unat (num_args s') = min 21 (length ws)" unfolding s'(4) by (rule unat_of_nat_u8) simp
  have len: "length (args s') = 20" using s'(3) by (simp add: cmdline_ok_def MAX_ARGS_def)
  have "getArg pid (of_nat i) s' = Ret (Some i) s' \<and> arg_text (Some i) s' = Ret (take 99 (ws ! i)) s'"
    if i: "i < min 20 (length ws)" for i
  proof -
    have u: "unat (of_nat i :: u8) = i" using i by (intro unat_of_nat_u8) simp
    then have "\<not> (of_nat i :: u8) \<ge> num_args s'" using i n by (auto simp: word_le_nat_alt)
    moreover have "cstr (args s' ! i) = take 99 (ws ! i)"
      using s'(5) i by (simp add: holds_words_def MAX_ARGS_def MAX_ARG_LEN_def)
    ultimately show ?thesis using s'(2) u len i by (simp add: getArg_def arg_text_def cmdline_init_again ret_def aget_def)
  qed
  moreover have "getArg pid 20 s' = Ret (Some 20) s' \<and> arg_text (Some 20) s' = Fault s'" if "20 < length ws"
  proof -
    have "\<not> (20 :: u8) \<ge> num_args s'" using that n by (simp add: word_le_nat_alt)
    then show ?thesis using s'(2) len by (simp add: getArg_def arg_text_def cmdline_init_again aget_def ret_def)
  qed
  ultimately show ?thesis using s'(1) n by blast
qed

theorem command_line_words_witness:
  "\<exists>s'. cmdline_init 42 (cmdline_start [ok_reply 3, data_reply (concat (map (\<lambda>a. a @ [NUL]) [''br'', ''-i'', ''tun0'']))]) = Ret SUCCESS s' \<and>
     getArg 42 2 s' = Ret (Some 2) s' \<and> arg_text (Some 2) s' = Ret ''tun0'' s'"
proof -
  let ?as = "[''br'', ''-i'', ''tun0'']"
  let ?s = "cmdline_start [ok_reply 3, data_reply (concat (map (\<lambda>a. a @ [NUL]) ?as))]"
  have ws: "?as = words (payload (MAX_ARGS * MAX_ARG_LEN) (data_reply (concat (map (\<lambda>a. a @ [NUL]) ?as))))"
    by (simp add: payload_def MAX_ARGS_def MAX_ARG_LEN_def)
  have "\<not> inited ?s" "cmdline_ok (args ?s)"
      "script ?s = ok_reply 3 # data_reply (concat (map (\<lambda>a. a @ [NUL]) ?as)) # []"
    by (simp_all add: cmdline_start_def cmdline_ok_def)
  from command_line_words [OF this _ _ ws, of 42] obtain s' where s': "cmdline_init 42 ?s = Ret SUCCESS s'"
      "\<forall>i < min 20 (length ?as). getArg 42 (of_nat i) s' = Ret (Some i) s' \<and> arg_text (Some i) s' = Ret (take 99 (?as ! i)) s'"
    by auto
  from s'(2) [rule_format, of 2] have "getArg 42 2 s' = Ret (Some 2) s' \<and> arg_text (Some 2) s' = Ret ''tun0'' s'" by simp
  with s'(1) show ?thesis by blast
qed

text \<open>The name of the TUN device is the argument after the first one that begins with \<open>-i\<close>, not
  counting the name of the program, and empty when there is none; it is read from the line the
  kernel keeps.\<close>

lemma tun_name_after_i:
  assumes "\<not> inited s" "cmdline_ok (args s)" "script s = f # r # rs" "\<not> failed f" "\<not> failed r"
    and "ws = words (payload (MAX_ARGS * MAX_ARG_LEN) r)" "ws \<noteq> []" "length ws \<le> MAX_ARGS"
  shows "\<exists>s'. seq (getTunName pid) name_text s = Ret (after_i (tl (map (take 99) ws))) s' \<and> script s' = rs"
proof -
  from cmdline_init_reads [OF assms(1-5), of pid] assms(6,8) obtain s' where
    s': "cmdline_init pid s = Ret SUCCESS s'" "inited s'" "cmdline_ok (args s')" "script s' = rs"
      "num_args s' = of_nat (length ws)" "holds_words (args s') 0 ws"
    by (auto simp: min_def split: if_splits)
  have "unat (num_args s') = length ws"
    using assms(8) unfolding s'(5) by (intro unat_of_nat_u8) (simp add: MAX_ARGS_def)
  then have h: "has_args (map (take 99) ws) s'"
    using s'(2,3,6) assms(8) by (simp add: has_args_def holds_words_def MAX_ARG_LEN_def)
  have "arg_count pid s = arg_count pid s'"
    using s'(1) cmdline_init_again [OF s'(2), of pid] by (simp add: arg_count_def)
  then have "seq (getTunName pid) name_text s = seq (getTunName pid) name_text s'" by (simp add: getTunName_def seq_def)
  with getTunName_has [OF h, of pid] assms(7) s'(4) show ?thesis by simp
qed

lemma tun_name_after_i_witness:
  "\<exists>s'. seq (getTunName 42) name_text
     (cmdline_start [ok_reply 3, data_reply (concat (map (\<lambda>a. a @ [NUL]) [''br'', ''-i'', ''tun0'']))]) = Ret ''tun0'' s'"
proof -
  let ?as = "[''br'', ''-i'', ''tun0'']"
  let ?s = "cmdline_start [ok_reply 3, data_reply (concat (map (\<lambda>a. a @ [NUL]) ?as))]"
  have ws: "?as = words (payload (MAX_ARGS * MAX_ARG_LEN) (data_reply (concat (map (\<lambda>a. a @ [NUL]) ?as))))"
    by (simp add: payload_def MAX_ARGS_def MAX_ARG_LEN_def)
  have "\<not> inited ?s" "cmdline_ok (args ?s)"
      "script ?s = ok_reply 3 # data_reply (concat (map (\<lambda>a. a @ [NUL]) ?as)) # []"
    by (simp_all add: cmdline_start_def cmdline_ok_def)
  from tun_name_after_i [OF this _ _ ws, of 42] show ?thesis by (auto simp: MAX_ARGS_def)
qed

end
