(* ===== verification/Rfid.thy ===== *)
theory Rfid
  imports Gpio
begin

text \<open>
  The serial port (\<open>UartP.nc\<close>) and the reader of RFID tags on it (\<open>IDrfidP.nc\<close>). What the
  serial port delivers goes to the reader with the time; the reader takes a message of 16 bytes
  apart, checks its sum and notifies the application of the code.
\<close>

section \<open>The serial port\<close>

record termios =
  ospeed :: nat
  ispeed :: nat
  c_lflag :: u32
  c_vmin :: u8
  c_vtime :: u8

record uart_config =
  baud_rate :: int
  min_return :: int

record uart = "u8 os" +
  uart_fd :: int
  uart_buf :: "u8 list"
  last_uart_len :: u32
  tty_settings :: termios
  uart_posted :: bool
  pin_regs :: gpio
  uart_events :: "(u8 list \<times> u8 \<times> u64) list"

text \<open>The rates the switch knows; \<open>Bn\<close> is written as the number.\<close>

definition baud_rates :: "int list" where
  "baud_rates = [0, 50, 75, 110, 134, 150, 200, 300, 600, 1200, 1800, 2400, 4800, 9600, 19200, 38400,
     57600, 115200, 230400]"

text \<open>\<open>configure_serial\<close>: the pin \<open>rx\<close> is switched to the UART, also when the rate is refused.\<close>

definition configure_serial :: "nat \<Rightarrow> uart_config \<Rightarrow> (error_t, 'x uart_scheme) prog" where
  "configure_serial rx c =
     seq (access (\<lambda>s. selectModuleFunc rx (pin_regs s))) (\<lambda>g.
     seq (modify (pin_regs_update (\<lambda>_. g))) (\<lambda>_.
       if baud_rate c \<notin> set baud_rates then ret ESIZE
       else seq (modify (\<lambda>s. s\<lparr>tty_settings := (tty_settings s)\<lparr>ospeed := nat (baud_rate c),
           ispeed := nat (baud_rate c), c_lflag := 0, c_vmin := of_int (min_return c), c_vtime := 0\<rparr>\<rparr>)) (\<lambda>_.
         seq (gets uart_fd) (\<lambda>fd.
         seq (syscall (Ioctl fd ''tcsetattr'')) (\<lambda>r. if failed r then ret FAIL else ret SUCCESS)))))"

definition uart_init :: "termios \<Rightarrow> (error_t, 'x uart_scheme) prog" where
  "uart_init current =
     seq (syscall (Open ''/dev/ttyAMA0'')) (\<lambda>f.
     seq (modify (uart_fd_update (\<lambda>_. if failed f then -1 else rval f))) (\<lambda>_.
       if failed f then stop 1 else
     seq (syscall (Ioctl (rval f) ''tcgetattr'')) (\<lambda>r. if failed r then stop 1 else
     seq (modify (tty_settings_update (\<lambda>_. current))) (\<lambda>_.
     seq (syscall (Register (rval f))) (\<lambda>_. ret SUCCESS)))))"

definition uart_receiveReady :: "(unit, 'x uart_scheme) prog" where
  "uart_receiveReady = seq (gets uart_fd) (\<lambda>fd.
     seq (syscall (Read fd 1024)) (\<lambda>r.
       if failed r then (if err r = Some EAGAIN then ret () else stop 1)
       else seq (access (\<lambda>s. memcpy_at (uart_buf s) 0 (payload 1024 r))) (\<lambda>b.
         seq (modify (uart_buf_update (\<lambda>_. b))) (\<lambda>_.
           if payload 1024 r = [10] then ret ()
           else modify (\<lambda>s. s\<lparr>last_uart_len := of_nat (length (payload 1024 r)), uart_posted := True\<rparr>)))))"

text \<open>The task; the event takes the length as a byte.\<close>

definition uart_recv_task :: "u64 \<Rightarrow> 'x uart_scheme \<Rightarrow> 'x uart_scheme" where
  "uart_recv_task timestamp s = s\<lparr>uart_posted := False,
     uart_events := uart_events s @ [(uart_buf s, ucast (last_uart_len s), timestamp)]\<rparr>"

definition setserial :: "nat \<Rightarrow> uart_config \<Rightarrow> (error_t, 'x uart_scheme) prog" where
  "setserial rx c = configure_serial rx c"

section \<open>The reader\<close>

record rfid =
  active :: bool
  rfid_code :: "u8 list"
  notified :: "u8 list list"

definition rfid_start :: rfid where
  "rfid_start = \<lparr>active = False, rfid_code = replicate 5 0, notified = []\<rparr>"

definition rfid_uart_conf :: uart_config where
  "rfid_uart_conf = \<lparr>baud_rate = 9600, min_return = 16\<rparr>"

text \<open>\<open>Notify.enable\<close> activates the reader and gives its settings to the serial port.\<close>

definition rfid_enable :: "rfid \<Rightarrow> rfid \<times> uart_config" where
  "rfid_enable s = (s\<lparr>active := True\<rparr>, rfid_uart_conf)"

definition rfid_disable :: "rfid \<Rightarrow> error_t \<times> rfid" where
  "rfid_disable s = (SUCCESS, s\<lparr>active := False\<rparr>)"

definition ahex2b :: "u8 \<Rightarrow> u8" where
  "ahex2b ascii =
     (if ascii > 0x2F \<and> ascii < 0x3A then ascii - 0x30
      else if ascii > 0x40 \<and> ascii < 0x47 then ascii - 0x37
      else if ascii > 0x60 \<and> ascii < 0x67 then ascii - 0x57
      else 0)"

text \<open>\<open>convert_rfid(buf + off, code)\<close>, over the indices that are left.\<close>

fun convert_rfid :: "nat list \<Rightarrow> u8 list \<Rightarrow> nat \<Rightarrow> u8 list \<Rightarrow> u8 list option" where
  "convert_rfid [] buf off code = Some code"
| "convert_rfid (i # is) buf off code = do {
     a \<leftarrow> aget buf (off + 2 * i);
     b \<leftarrow> aget buf (off + 2 * i + 1);
     code \<leftarrow> aupd code i (\<lambda>_. push_bit 4 (ahex2b a) OR ahex2b b);
     convert_rfid is buf off code }"

definition verify_checksum :: "u8 list \<Rightarrow> u8 list \<Rightarrow> nat \<Rightarrow> bool option" where
  "verify_checksum code buf off = do {
     a \<leftarrow> aget buf off;
     b \<leftarrow> aget buf (off + 1);
     let real_chksum = push_bit 4 (ahex2b a) OR ahex2b b;
     let chksum = fold (\<lambda>c x. x XOR c) code 0;
     let zero_checker = fold (\<lambda>c x. x OR c) code 0;
     Some (chksum = real_chksum \<and> zero_checker \<noteq> 0) }"

definition rfid_receive :: "u8 list \<Rightarrow> u8 \<Rightarrow> rfid \<Rightarrow> rfid option" where
  "rfid_receive buf len s =
     (if \<not> active s then Some s
      else if len \<noteq> 16 then Some s
      else do {
        code \<leftarrow> convert_rfid [0..<5] buf 1 (rfid_code s);
        let s = s\<lparr>rfid_code := code\<rparr>;
        ok \<leftarrow> verify_checksum code buf 11;
        Some (if ok then s\<lparr>notified := notified s @ [code]\<rparr> else s) })"

section \<open>Hexadecimal digits\<close>

definition hex_digit :: "nat \<Rightarrow> u8" where
  "hex_digit n = (if n < 10 then of_nat (n + 0x30) else of_nat (n + 0x37))"

definition hex_byte :: "u8 \<Rightarrow> u8 list" where
  "hex_byte b = [hex_digit (unat b div 16), hex_digit (unat b mod 16)]"

lemma hex_digit_value: "n < 16 \<Longrightarrow> ahex2b (hex_digit n) = of_nat n"
proof -
  assume "n < 16"
  then have "n = 0 \<or> n = 1 \<or> n = 2 \<or> n = 3 \<or> n = 4 \<or> n = 5 \<or> n = 6 \<or> n = 7 \<or> n = 8 \<or> n = 9 \<or> n = 10 \<or>
    n = 11 \<or> n = 12 \<or> n = 13 \<or> n = 14 \<or> n = 15" by presburger
  then show ?thesis by (elim disjE) (simp_all add: hex_digit_def ahex2b_def)
qed

lemma hex_byte_value: "push_bit 4 (ahex2b (hex_digit (unat b div 16))) OR ahex2b (hex_digit (unat b mod 16)) = (b :: u8)"
proof -
  have "unat b div 16 < 16" using unat_u8 [of b] by simp
  then have "ahex2b (hex_digit (unat b div 16)) = of_nat (unat b div 16)"
      "ahex2b (hex_digit (unat b mod 16)) = of_nat (unat b mod 16)"
    by (simp_all add: hex_digit_value)
  moreover have "unat b div 16 < 256" using unat_u8 [of b] by linarith
  then have "(of_nat (unat b div 16) :: u8) = drop_bit 4 b" "(of_nat (unat b mod 16) :: u8) = take_bit 4 b"
    by (simp_all add: word_unat_eq_iff unat_of_nat drop_bit_eq_div take_bit_eq_mod unat_div unat_mod)
  moreover have "push_bit 4 (drop_bit 4 b) OR take_bit 4 b = b"
    by (rule bit_word_eqI) (auto simp: bit_simps)
  ultimately show ?thesis by simp
qed

section \<open>Properties\<close>

text \<open>What the reader sends for a tag: a start byte, the code and its sum in hexadecimal, and three
  bytes at the end.\<close>

definition tag_frame :: "u8 list \<Rightarrow> u8 \<Rightarrow> u8 list" where
  "tag_frame tag chk = 2 # concat (map hex_byte tag) @ hex_byte chk @ [13, 10, 3]"

lemma five_elements: "length xs = 5 \<Longrightarrow> \<exists>a b c d e. xs = [a, b, c, d, e]"
  by (auto simp: numeral_eq_Suc length_Suc_conv)

lemma replicate_five: "replicate 5 (0 :: u8) = [0, 0, 0, 0, 0]"
  by (simp add: numeral_eq_Suc)

lemma or_zero: "(a :: u8) OR b = 0 \<longleftrightarrow> a = 0 \<and> b = 0"
  by (rule or_eq_0_iff)

lemma rfid_receive_frame:
  assumes "active s" "length tag = 5" "length (rfid_code s) = 5"
  shows "rfid_receive (tag_frame tag chk @ rest) 16 s = Some (s\<lparr>rfid_code := tag,
    notified := notified s @ (if fold (\<lambda>c x. x XOR c) tag 0 = chk \<and> tag \<noteq> replicate 5 0 then [tag] else [])\<rparr>)"
proof -
  obtain a b c d e where tag: "tag = [a, b, c, d, e]" using five_elements [OF assms(2)] by blast
  obtain v w x y z where old: "rfid_code s = [v, w, x, y, z]" using five_elements [OF assms(3)] by blast
  have upt: "[0..<5] = [0, 1, 2, 3, 4 :: nat]" by (simp add: upt_conv_Cons)
  have conv: "convert_rfid [0..<5] (tag_frame tag chk @ rest) 1 (rfid_code s) = Some tag"
    unfolding upt by (simp add: tag old tag_frame_def hex_byte_def aget_def aupd_def hex_byte_value)
  have chk: "verify_checksum tag (tag_frame tag chk @ rest) 11 =
      Some (fold (\<lambda>c x. x XOR c) tag 0 = chk \<and> tag \<noteq> replicate 5 0)"
    by (auto simp: verify_checksum_def tag replicate_five tag_frame_def hex_byte_def aget_def hex_byte_value or_zero)
  show ?thesis using assms(1)
    unfolding rfid_receive_def conv Option.bind.bind_lunit Let_def chk by simp
qed

text \<open>C20. A tag held before the reader reaches the application: the 16 bytes of the serial port for
  any code of five bytes give back exactly that code, and the application is notified of it,
  once, if and only if the sum is right and the code is not all zero.\<close>

theorem rfid_reads_tag:
  assumes "script u = data_reply (tag_frame tag chk) # rs" "length (uart_buf u) = 1024"
    and "active s" "length tag = 5" "length (rfid_code s) = 5"
  shows "\<exists>u' buf. uart_receiveReady u = Ret () u' \<and>
    uart_events (uart_recv_task now u') = uart_events u @ [(buf, 16, now)] \<and>
    rfid_receive buf 16 s = Some (s\<lparr>rfid_code := tag,
      notified := notified s @ (if fold (\<lambda>c x. x XOR c) tag 0 = chk \<and> tag \<noteq> replicate 5 0 then [tag] else [])\<rparr>)"
proof -
  let ?f = "tag_frame tag chk"
  have len: "length ?f = 16" using five_elements [OF assms(4)] by (auto simp: tag_frame_def hex_byte_def)
  then have f: "?f \<noteq> []" "?f \<noteq> [10]" by auto
  let ?u = "u\<lparr>script := rs, trace := trace u @ [(Read (uart_fd u) 1024, data_reply ?f)],
      uart_buf := ?f @ drop 16 (uart_buf u), last_uart_len := 16, uart_posted := True\<rparr>"
  have "uart_receiveReady u = Ret () ?u"
    using assms(1,2) len f by (simp add: uart_receiveReady_def seq_syscall payload_def memcpy_at_in modify_def)
  moreover have "uart_events (uart_recv_task now ?u) = uart_events u @ [(?f @ drop 16 (uart_buf u), 16, now)]"
    by (simp add: uart_recv_task_def)
  ultimately show ?thesis using rfid_receive_frame [OF assms(3-5), of chk "drop 16 (uart_buf u)"] by blast
qed

definition example_uart :: "u8 list \<Rightarrow> uart" where
  "example_uart f = \<lparr>script = [data_reply f], trace = [], uart_fd = 6, uart_buf = replicate 1024 0,
     last_uart_len = 0, tty_settings = \<lparr>ospeed = 9600, ispeed = 9600, c_lflag = 0, c_vmin = 16, c_vtime = 0\<rparr>,
     uart_posted = False, pin_regs = gpio_start (replicate 6 0), uart_events = []\<rparr>"

theorem rfid_reads_tag_witness:
  "\<exists>u' buf. uart_receiveReady (example_uart (tag_frame [0x44, 0, 0x9E, 0x36, 0x51] 0xBD)) = Ret () u' \<and>
     uart_events (uart_recv_task 7 u') = [(buf, 16, 7)] \<and>
     map_option notified (rfid_receive buf 16 (fst (rfid_enable rfid_start))) = Some [[0x44, 0, 0x9E, 0x36, 0x51]]"
proof -
  let ?tag = "[0x44, 0, 0x9E, 0x36, 0x51] :: u8 list"
  let ?u = "example_uart (tag_frame ?tag 0xBD)" and ?s = "fst (rfid_enable rfid_start)"
  have "script ?u = data_reply (tag_frame ?tag 0xBD) # []" "length (uart_buf ?u) = 1024" "uart_events ?u = []"
    by (simp_all add: example_uart_def)
  moreover have "active ?s" "length (rfid_code ?s) = 5" "notified ?s = []"
    by (simp_all add: rfid_enable_def rfid_start_def)
  moreover have "fold (\<lambda>c x. x XOR c) ?tag 0 = 0xBD" "?tag \<noteq> replicate 5 0"
    unfolding replicate_five by simp_all
  ultimately show ?thesis using rfid_reads_tag [of ?u ?tag "0xBD" "[]" ?s 7] by auto
qed

text \<open>A longer message is taken for one of 16 bytes when its length leaves 16 in a byte.\<close>

lemma long_message_taken_for_tag:
  assumes "last_uart_len u = 272"
  shows "uart_events (uart_recv_task now u) = uart_events u @ [(uart_buf u, 16, now)]"
  using assms by (simp add: uart_recv_task_def)

text \<open>An unknown rate is refused, but the pin has then been switched.\<close>

lemma bad_rate_switches_pin:
  assumes "baud_rate c \<notin> set baud_rates" "gpio_inv (pin_regs u)" "rx < 32"
  shows "\<exists>u'. setserial rx c u = Ret ESIZE u' \<and> field (pin_regs u') rx = 4"
proof -
  from pin_do_refines [OF assms(2,3), of Module] obtain g where
    g: "selectModuleFunc rx (pin_regs u) = Some g" "pin_of g rx = spec_op Module (pin_of (pin_regs u) rx)"
    using assms(3) by auto
  then have "fun_code (pin_of g rx) = 4" by simp
  with g(1) assms(1) show ?thesis by (simp add: setserial_def configure_serial_def ret_def pin_of_def)
qed

end
