(* ===== verification/Tun.thy ===== *)
theory Tun
  imports Posix
begin

text \<open>
  The TUN device of the border router (\<open>tos/chips/linux/tun/TunP.nc\<close>): it is created with the name
  of the command line, set up by a row of \<open>ioctl\<close> calls, and then carries IPv6 packets between
  Linux and the IP stack. The packet data of the stack is of any type \<open>'d\<close>, with the functions of
  the stack that read it as arguments. Also the LEDs of the board (\<open>LinuxLedP.nc\<close>), which are
  files as well.
\<close>

section \<open>State\<close>

definition MAX_IPV6_PACKET_LEN :: nat where "MAX_IPV6_PACKET_LEN = 4096"
definition IP6_HDR_LEN :: nat where "IP6_HDR_LEN = 40"
definition TUN_PI_LEN :: nat where "TUN_PI_LEN = 4"
definition MAX_TUN_NAME_LEN :: nat where "MAX_TUN_NAME_LEN = 100"

record send_info =
  upper_data :: nat
  link_fragments :: nat
  link_transmissions :: nat
  send_failed :: bool

record tun = "u8 os" +
  tun_fd :: int
  in_buf :: "u8 list"
  out_buf :: "u8 list"
  tun_name :: string
  send_info_struct :: send_info
  sendDone_posted :: bool
  receive_posted :: bool
  sent_up :: "send_info list"
  recv_up :: "u8 list list"

definition tun_ok :: "'x tun_scheme \<Rightarrow> bool" where
  "tun_ok s \<longleftrightarrow> length (in_buf s) = MAX_IPV6_PACKET_LEN \<and> length (out_buf s) = MAX_IPV6_PACKET_LEN"

section \<open>Sending\<close>

text \<open>\<open>iov_len\<close> gives the length of the packet data, \<open>iov_read d off n\<close> at most \<open>n\<close> bytes of it.\<close>

definition tun_send ::
  "('d \<Rightarrow> nat) \<Rightarrow> ('d \<Rightarrow> nat \<Rightarrow> nat \<Rightarrow> u8 list) \<Rightarrow> u8 list \<Rightarrow> 'd \<Rightarrow> nat \<Rightarrow> (error_t, 'x tun_scheme) prog" where
  "tun_send iov_len iov_read hdr d upper =
     (let len = iov_len d + IP6_HDR_LEN in
      seq (access (\<lambda>s. memcpy_at (out_buf s) 0 hdr)) (\<lambda>b.
      seq (access (\<lambda>s. memcpy_at b IP6_HDR_LEN (iov_read d 0 len))) (\<lambda>b.
      seq (modify (\<lambda>s. s\<lparr>out_buf := b, send_info_struct := (send_info_struct s)\<lparr>upper_data := upper,
          link_fragments := 1, link_transmissions := 1, send_failed := False\<rparr>\<rparr>)) (\<lambda>_.
      seq (gets tun_fd) (\<lambda>fd.
      seq (access (\<lambda>s. if len + TUN_PI_LEN \<le> length (out_buf s) then Some (take (len + TUN_PI_LEN) (out_buf s)) else None)) (\<lambda>w.
      seq (syscall (Write fd w)) (\<lambda>r.
        if failed r then
          seq (modify (\<lambda>s. s\<lparr>send_info_struct := (send_info_struct s)\<lparr>send_failed := True\<rparr>\<rparr>)) (\<lambda>_. ret FAIL)
        else seq (modify (sendDone_posted_update (\<lambda>_. True))) (\<lambda>_. ret SUCCESS))))))))"

definition tun_sendDone_task :: "'x tun_scheme \<Rightarrow> 'x tun_scheme" where
  "tun_sendDone_task s = s\<lparr>sendDone_posted := False, sent_up := sent_up s @ [send_info_struct s]\<rparr>"

section \<open>Receiving\<close>

definition tun_receiveReady :: "(unit, 'x tun_scheme) prog" where
  "tun_receiveReady = seq (gets tun_fd) (\<lambda>fd.
     seq (syscall (Read fd MAX_IPV6_PACKET_LEN)) (\<lambda>r.
       if failed r then (if err r = Some EAGAIN then ret () else stop 1)
       else if payload MAX_IPV6_PACKET_LEN r = [] then ret ()
       else seq (access (\<lambda>s. memcpy_at (in_buf s) 0 (payload MAX_IPV6_PACKET_LEN r))) (\<lambda>b.
         modify (\<lambda>s. s\<lparr>in_buf := b, receive_posted := True\<rparr>))))"

text \<open>The task hands the buffer up: its first 40 bytes as the header, the rest as the payload.\<close>

definition tun_receive_task :: "'x tun_scheme \<Rightarrow> 'x tun_scheme" where
  "tun_receive_task s = s\<lparr>receive_posted := False, recv_up := recv_up s @ [in_buf s]\<rparr>"

section \<open>Setting up\<close>

text \<open>Bytes of the kernel as characters. The index of the interface, which \<open>SIOCGIFINDEX\<close> delivers,
  goes into the request that sets an address.\<close>

definition chars :: "u8 list \<Rightarrow> string" where
  "chars = map (\<lambda>b. char_of (unat b))"

text \<open>An \<open>ioctl\<close> that ends the program when it fails, after closing the device.\<close>

definition ioctl_or_exit :: "int \<Rightarrow> string \<Rightarrow> (u8 reply, 'x tun_scheme) prog" where
  "ioctl_or_exit fd request =
     seq (syscall (Ioctl fd request)) (\<lambda>r.
       if failed r then seq (gets tun_fd) (\<lambda>tun. seq (syscall (Close tun)) (\<lambda>_. stop 1)) else ret r)"

text \<open>\<open>name\<close> is the name of the command line; the kernel answers with the name it chose, in an array
  of 16 bytes.\<close>

definition tun_init :: "string \<Rightarrow> (error_t, 'x tun_scheme) prog" where
  "tun_init name =
     seq (syscall (Open ''/dev/net/tun'')) (\<lambda>f.
     seq (modify (tun_fd_update (\<lambda>_. if failed f then -1 else rval f))) (\<lambda>_. if failed f then stop 1 else
     seq (ioctl_or_exit (rval f) (''TUNSETIFF '' @ take 16 name)) (\<lambda>q.
     seq (make_nonblocking (rval f)) (\<lambda>_.
     seq (modify (tun_name_update (\<lambda>_. take MAX_TUN_NAME_LEN (cstr (chars (take 16 (data q))))))) (\<lambda>_.
     seq (syscall Socket) (\<lambda>k. let fd = (if failed k then -1 else rval k) in
     seq (ioctl_or_exit fd ''SIOCGIFFLAGS'') (\<lambda>_.
     seq (ioctl_or_exit fd ''SIOCSIFFLAGS up running'') (\<lambda>_.
     seq (ioctl_or_exit fd ''SIOCSIFMTU 1280'') (\<lambda>_.
     seq (ioctl_or_exit fd ''SIOCGIFINDEX'') (\<lambda>ix.
     seq (ioctl_or_exit fd (''SIOCSIFADDR fe80::212:aaaa:bbbb:ffff/64 '' @ chars (data ix))) (\<lambda>_.
     seq (syscall (Close fd)) (\<lambda>_.
     seq (syscall (Register (rval f))) (\<lambda>_. ret SUCCESS)))))))))))))"

text \<open>\<open>IPAddress.changed\<close>: \<open>addr\<close> is the new address as text. An address that is gone stays set.\<close>

definition address_changed :: "bool \<Rightarrow> string \<Rightarrow> (unit, 'x tun_scheme) prog" where
  "address_changed valid addr =
     (if \<not> valid then ret ()
      else
        seq (gets tun_name) (\<lambda>name.
        seq (ssystem (''ip -6 route add '' @ addr @ ''/64 dev '' @ name)) (\<lambda>_.
        seq (syscall Socket) (\<lambda>k. let fd = (if failed k then -1 else rval k) in
        seq (ioctl_or_exit fd (''SIOCGIFINDEX '' @ take 16 name)) (\<lambda>ix.
        seq (syscall (Ioctl fd (''SIOCSIFADDR '' @ addr @ ''/128 '' @ chars (data ix)))) (\<lambda>_.
        seq (syscall (Close fd)) (\<lambda>_. ret ())))))))"

section \<open>LEDs\<close>

text \<open>\<open>makeOutput\<close> makes the name of the file in an array of 256 bytes; the other commands open it.\<close>

definition led_makeOutput :: "string \<Rightarrow> string" where
  "led_makeOutput led_name = take 255 (''/sys/class/leds/'' @ led_name @ ''/brightness'')"

definition led_write :: "string \<Rightarrow> u8 \<Rightarrow> (unit, (u8, 'x) os_scheme) prog" where
  "led_write filename b =
     seq (syscall (Open filename)) (\<lambda>f.
     seq (syscall (Write (if failed f then -1 else rval f) [b])) (\<lambda>_. ret ()))"

definition led_set :: "string \<Rightarrow> (unit, (u8, 'x) os_scheme) prog" where
  "led_set filename = led_write filename 49"

definition led_clr :: "string \<Rightarrow> (unit, (u8, 'x) os_scheme) prog" where
  "led_clr filename = led_write filename 48"

text \<open>\<open>old\<close> is what the array on the stack holds when nothing is read.\<close>

definition led_get :: "string \<Rightarrow> u8 \<Rightarrow> (bool, (u8, 'x) os_scheme) prog" where
  "led_get filename old =
     seq (syscall (Open filename)) (\<lambda>f.
     seq (syscall (Read (if failed f then -1 else rval f) 1)) (\<lambda>r.
       ret ((if failed r \<or> payload 1 r = [] then old else hd (payload 1 r)) = 49)))"

definition led_toggle :: "string \<Rightarrow> u8 \<Rightarrow> (unit, (u8, 'x) os_scheme) prog" where
  "led_toggle filename old =
     seq (syscall (Open filename)) (\<lambda>f.
     seq (led_get filename old) (\<lambda>on.
     seq (syscall (Write (if failed f then -1 else rval f) [if on then 48 else 49])) (\<lambda>_. ret ())))"

text \<open>The other commands do nothing or give a constant.\<close>

definition led_isInput :: bool where "led_isInput = False"
definition led_isOutput :: bool where "led_isOutput = True"

lemma led_toggle_inverts:
  assumes "script s = ok_reply fd # ok_reply fd' # data_reply [b] # w # rs"
  shows "led_toggle filename old s = Ret () (s\<lparr>script := rs, trace := trace s @ [(Open filename, ok_reply fd),
    (Open filename, ok_reply fd'), (Read fd' 1, data_reply [b]), (Write fd [if b = 49 then 48 else 49], w)]\<rparr>)"
  using assms by (simp add: led_toggle_def led_get_def seq_seq seq_syscall payload_def ret_def)

section \<open>Packets\<close>

lemma memcpy_twice:
  assumes "length hdr = n" "n + length body \<le> length b"
  shows "\<exists>b'. memcpy_at b 0 hdr = Some b' \<and> memcpy_at b' n body = Some (hdr @ body @ drop (n + length body) b)"
  using assms by (simp add: memcpy_at_def add.commute)


text \<open>A packet of the IP stack goes to Linux as one frame: its header, its body, and then four more
  bytes of whatever packet the buffer held before, since the length counts a packet information
  that the device was told to leave out. A refused frame is the only case without a report.\<close>

lemma tun_send_frame:
  assumes "length hdr = IP6_HDR_LEN" "length body + 44 \<le> MAX_IPV6_PACKET_LEN" "tun_ok s"
    and "iov_len d = length body" "iov_read d 0 (length body + 40) = body" "script s = r # rs"
  shows "\<exists>s' rest. tun_send iov_len iov_read hdr d upper s = Ret (if failed r then FAIL else SUCCESS) s' \<and>
    trace s' = trace s @ [(Write (tun_fd s) (hdr @ body @ rest), r)] \<and> rest = take 4 (drop (40 + length body) (out_buf s)) \<and>
    length rest = 4 \<and> tun_ok s' \<and> sendDone_posted s' = (sendDone_posted s \<or> \<not> failed r) \<and>
    sent_up (tun_sendDone_task s') = sent_up s @ [\<lparr>upper_data = upper, link_fragments = 1, link_transmissions = 1, send_failed = failed r\<rparr>]"
proof -
  have len: "length (out_buf s) = 4096" "length hdr = 40"
    using assms(1,3) by (simp_all add: tun_ok_def MAX_IPV6_PACKET_LEN_def IP6_HDR_LEN_def)
  with assms(2) obtain b where b: "memcpy_at (out_buf s) 0 hdr = Some b"
      "memcpy_at b 40 body = Some (hdr @ body @ drop (40 + length body) (out_buf s))"
    using memcpy_twice [of hdr 40 body "out_buf s"] by (auto simp: MAX_IPV6_PACKET_LEN_def)
  show ?thesis using assms(2-6) len b
    by (simp add: tun_send_def tun_sendDone_task_def tun_ok_def seq_syscall ret_def MAX_IPV6_PACKET_LEN_def
        IP6_HDR_LEN_def TUN_PI_LEN_def add.commute)
qed

definition example_tun :: "unit tun_scheme" where
  "example_tun = \<lparr>script = [ok_reply 46], trace = [], tun_fd = 7, in_buf = replicate 4096 0, out_buf = replicate 4096 9,
     tun_name = ''tun0'', send_info_struct = \<lparr>upper_data = 0, link_fragments = 1, link_transmissions = 1, send_failed = False\<rparr>,
     sendDone_posted = False, receive_posted = False, sent_up = [], recv_up = []\<rparr>"

lemma example_tun_simps: "script example_tun = [ok_reply 46]" "tun_ok example_tun" "out_buf example_tun = replicate 4096 9"
    "tun_fd example_tun = 7" "trace example_tun = []"
  by (simp_all add: example_tun_def tun_ok_def MAX_IPV6_PACKET_LEN_def)

lemma tun_send_frame_witness:
  "\<exists>s' r. tun_send length (\<lambda>d off n. take n (drop off d)) (replicate 40 1) [2, 3] 5 example_tun = Ret SUCCESS s' \<and>
     trace s' = [(Write 7 (replicate 40 1 @ [2, 3] @ [9, 9, 9, 9]), r)]"
  using tun_send_frame [where s = example_tun and hdr = "replicate 40 1" and body = "[2, 3]" and d = "[2, 3]"
      and iov_len = length and iov_read = "\<lambda>d off n. take n (drop off d)" and upper = 5 and r = "ok_reply 46" and rs = "[]"]
  by (auto simp: example_tun_simps IP6_HDR_LEN_def MAX_IPV6_PACKET_LEN_def numeral_eq_Suc)

text \<open>What one frame of Linux does to the device: a frame is handed up from the start of the
  receive buffer, after which come the bytes of earlier frames; an empty read and one that would
  block do nothing; any other error ends the program.\<close>

lemma tun_receive_frame:
  assumes "tun_ok s" "script s = r # rs"
  defines "p \<equiv> payload MAX_IPV6_PACKET_LEN r"
  defines "s1 \<equiv> s\<lparr>script := rs, trace := trace s @ [(Read (tun_fd s) MAX_IPV6_PACKET_LEN, r)]\<rparr>"
  shows "tun_receiveReady s =
    (if failed r \<and> err r \<noteq> Some EAGAIN then Exit 1 s1
     else if failed r \<or> p = [] then Ret () s1
     else Ret () (s1\<lparr>in_buf := p @ drop (length p) (in_buf s), receive_posted := True\<rparr>)) \<and>
    tun_ok (tun_receive_task (final (tun_receiveReady s)))"
proof -
  have "length p \<le> length (in_buf s)"
    using length_payload [of MAX_IPV6_PACKET_LEN r] assms(1) by (simp add: p_def tun_ok_def)
  then show ?thesis using assms(1,2) unfolding s1_def
    by (auto simp: tun_receiveReady_def tun_receive_task_def tun_ok_def p_def [symmetric] seq_syscall mem_simps
        ret_def stop_def modify_def)
qed

lemma tun_receive_frame_witness:
  "tun_receiveReady (example_tun\<lparr>script := [data_reply [96, 1]]\<rparr>) =
     Ret () (example_tun\<lparr>script := [], trace := [(Read 7 4096, data_reply [96, 1])],
       in_buf := [96, 1] @ replicate 4094 0, receive_posted := True\<rparr>)"
  using tun_receive_frame [where s = "example_tun\<lparr>script := [data_reply [96, 1]]\<rparr>" and r = "data_reply [96, 1]" and rs = "[]"]
  by (simp add: example_tun_def tun_ok_def MAX_IPV6_PACKET_LEN_def payload_def)

text \<open>The one buffer depends on the scheduler, which runs the task before the next wake-up: a second
  frame before the task would replace the first.\<close>

lemma second_frame_overwrites:
  assumes "tun_ok s" "script s = [data_reply p, data_reply q]" "p \<noteq> []" "q \<noteq> []"
    and "length p \<le> MAX_IPV6_PACKET_LEN" "length q \<le> MAX_IPV6_PACKET_LEN"
  shows "\<exists>s1 s2. tun_receiveReady s = Ret () s1 \<and> tun_receiveReady s1 = Ret () s2 \<and>
    recv_up (tun_receive_task s2) = recv_up s @ [q @ drop (length q) (p @ drop (length p) (in_buf s))]"
  using assms by (simp add: tun_receiveReady_def tun_receive_task_def tun_ok_def seq_syscall mem_simps payload_def modify_def)

lemma short_name: "length (take n (cstr (chars (take 16 d)))) \<le> 16"
  using length_cstr_le [of "chars (take 16 d)"] by (auto simp: chars_def)

text \<open>Setting up is all or nothing: when \<open>init\<close> returns, it returns success, with the device open,
  set up and handed to the main loop as the last thing done, the buffers whole, and the name cut
  to its array; in every other case the program has ended or a call does not return.\<close>

lemma tun_init_registers:
  "tun_ok s \<Longrightarrow> tun_init name s = Ret e s' \<Longrightarrow>
   e = SUCCESS \<and> fst (last (trace s')) = Register (tun_fd s') \<and> tun_ok s' \<and> length (Tun.tun_name s') \<le> 16 \<and>
   (\<exists>r r'. (Open ''/dev/net/tun'', r) \<in> set (trace s') \<and> \<not> failed r \<and> rval r = tun_fd s' \<and>
     (Ioctl (tun_fd s') (''TUNSETIFF '' @ take 16 name), r') \<in> set (trace s') \<and> \<not> failed r')"
proof -
  assume ok: "tun_ok s" and run: "tun_init name s = Ret e s'"
  have "wp (tun_init name) (\<lambda>e s'. e = SUCCESS \<and> fst (last (trace s')) = Register (tun_fd s') \<and> tun_ok s' \<and> length (Tun.tun_name s') \<le> 16 \<and>
   (\<exists>r r'. (Open ''/dev/net/tun'', r) \<in> set (trace s') \<and> \<not> failed r \<and> rval r = tun_fd s' \<and>
     (Ioctl (tun_fd s') (''TUNSETIFF '' @ take 16 name), r') \<in> set (trace s') \<and> \<not> failed r')) (\<lambda>_. True) s"
    unfolding tun_init_def ioctl_or_exit_def make_nonblocking_def Let_def
    using ok short_name by (auto simp: wp_simps tun_ok_def split: list.split)
  from wp_RetD [OF this run] show ?thesis .
qed


lemma tun_init_registers_witness:
  "\<exists>s'. tun_init ''tun0'' (example_tun\<lparr>script := ok_reply 7 # ok_reply 0 # ok_reply 0 # ok_reply 0 # ok_reply 8 # replicate 7 (ok_reply 0)\<rparr>)
     = Ret SUCCESS s' \<and> fst (last (trace s')) = Register 7"
proof -
  let ?s = "example_tun\<lparr>script := ok_reply 7 # ok_reply 0 # ok_reply 0 # ok_reply 0 # ok_reply 8 # replicate 7 (ok_reply 0)\<rparr>"
  have ok: "tun_ok ?s" using example_tun_simps(2) by (simp add: tun_ok_def)
  have "\<exists>s'. tun_init ''tun0'' ?s = Ret 0 s' \<and> tun_fd s' = 7"
    by (simp add: tun_init_def ioctl_or_exit_def make_nonblocking_def Let_def seq_seq seq_syscall ret_def numeral_eq_Suc)
  then obtain s' where s': "tun_init ''tun0'' ?s = Ret 0 s'" "tun_fd s' = 7" by blast
  with tun_init_registers [OF ok s'(1)] show ?thesis by simp
qed

end
