(* ===== verification/Readers.thy ===== *)
theory Readers
  imports SendDev RecvDev Sockets Rfid Tun
begin

text \<open>
  What the components that are woken by the main loop have in common: \<open>IO.receiveReady\<close> of the radio
  sender, the radio receiver, the TCP connection, the serial port and the TUN device. Each begins
  with one read of its descriptor, goes back to sleep when the wake-up was spurious, and ends the
  program on any other error. The contract is a locale; its laws are proved of the five handlers.
\<close>

section \<open>The contract\<close>

text \<open>The state after a call: the script one shorter, the trace one longer.\<close>

definition called :: "'b call \<Rightarrow> 'b reply \<Rightarrow> 'b reply list \<Rightarrow> ('b, 'x) os_scheme \<Rightarrow> ('b, 'x) os_scheme" where
  "called c r rs s = s\<lparr>script := rs, trace := trace s @ [(c, r)]\<rparr>"

text \<open>\<open>n\<close> wake-ups in a row.\<close>

fun wakeups :: "nat \<Rightarrow> (unit, ('b, 'x) os_scheme) prog \<Rightarrow> (unit, ('b, 'x) os_scheme) prog" where
  "wakeups 0 m = ret ()"
| "wakeups (Suc n) m = seq m (\<lambda>_. wakeups n m)"

locale reader =
  fixes first_call :: "('b, 'x) os_scheme \<Rightarrow> 'b call"
    and ready :: "(unit, ('b, 'x) os_scheme) prog"
  assumes first_call_kept: "first_call (called c r rs s) = first_call s"
    and ready_spurious: "script s = r # rs \<Longrightarrow> err r = Some EAGAIN \<Longrightarrow> ready s = Ret () (called (first_call s) r rs s)"
    and ready_error: "script s = r # rs \<Longrightarrow> failed r \<Longrightarrow> err r \<noteq> Some EAGAIN \<Longrightarrow> ready s = Exit 1 (called (first_call s) r rs s)"
    and ready_waits: "script s = [] \<Longrightarrow> ready s = Blocked s"
begin

lemma spurious_wakeups:
  "script s = rs @ qs \<Longrightarrow> \<forall>r \<in> set rs. err r = Some EAGAIN \<Longrightarrow>
   wakeups (length rs) ready s = Ret () (s\<lparr>script := qs, trace := trace s @ map (\<lambda>r. (first_call s, r)) rs\<rparr>)"
proof (induction rs arbitrary: s)
  case Nil
  then have "s\<lparr>script := qs\<rparr> = s" by simp
  then show ?case by (simp add: ret_def)
next
  case (Cons r rs)
  let ?s = "called (first_call s) r (rs @ qs) s"
  have "ready s = Ret () ?s" using Cons.prems by (intro ready_spurious) simp_all
  moreover have "wakeups (length rs) ready ?s =
      Ret () (?s\<lparr>script := qs, trace := trace ?s @ map (\<lambda>r. (first_call ?s, r)) rs\<rparr>)"
    using Cons.prems by (intro Cons.IH) (simp_all add: called_def)
  ultimately show ?case by (simp add: first_call_kept) (simp add: called_def)
qed

end

text \<open>A reader with an invariant of its buffers: no wake-up, whatever is read, leaves them.\<close>

locale safe_reader = reader +
  fixes inv :: "('b, 'x) os_scheme \<Rightarrow> bool"
  assumes ready_inv: "inv s \<Longrightarrow> ready s = Ret x t \<Longrightarrow> inv t"
    and ready_safe: "inv s \<Longrightarrow> ready s \<noteq> Fault u"
begin

lemma wakeups_safe: "inv s \<Longrightarrow> wakeups n ready s \<noteq> Fault u"
proof (induction n arbitrary: s)
  case (Suc n)
  then show ?case using ready_safe [OF Suc.prems] ready_inv [OF Suc.prems]
    by (cases "ready s") (auto simp: seq_def)
qed (simp add: ret_def)

lemma wakeups_inv: "inv s \<Longrightarrow> wakeups n ready s = Ret x t \<Longrightarrow> inv t"
proof (induction n arbitrary: s)
  case (Suc n)
  then show ?case using ready_inv [OF Suc.prems(1)]
    by (cases "ready s") (auto simp: seq_def)
qed (simp add: ret_def)

lemma wakeups_result:
  "inv s \<Longrightarrow> case wakeups n ready s of Fault _ \<Rightarrow> False | Ret _ t \<Rightarrow> inv t | _ \<Rightarrow> True"
  using wakeups_safe [of s n] wakeups_inv [of s n] by (auto split: outcome.split)

end

section \<open>The handlers\<close>

definition uart_ok :: "'x uart_scheme \<Rightarrow> bool" where
  "uart_ok s \<longleftrightarrow> length (uart_buf s) = 1024"

definition tcp_ok :: "'x tcp_scheme \<Rightarrow> bool" where
  "tcp_ok s \<longleftrightarrow> length (msg s) = INBUF_SIZE \<and> msglen s \<le> INBUF_SIZE"

definition send_ok :: "'x send_dev_scheme \<Rightarrow> bool" where
  "send_ok s \<longleftrightarrow> length (send_hdr s) = RHDR_SIZE"

lemmas receive_defs = send_receiveReady_def recv_receiveReady_def tcp_receiveReady_def
  uart_receiveReady_def tun_receiveReady_def

lemmas reader_defs = receive_defs called_def seq_syscall ret_def stop_def failed_def

lemma memcpy_payload:
  "length b = n \<Longrightarrow> memcpy_at b 0 (payload n r) = Some (payload n r @ drop (length (payload n r)) b)"
  using length_payload [of n r] by (simp add: memcpy_at_def)

lemmas reader_simps = reader_defs memcpy_payload modify_def length_payload

interpretation send_reader: safe_reader "\<lambda>s. Read (cc2520_read s) RHDR_SIZE" send_receiveReady send_ok
  by unfold_locales (auto simp: reader_simps send_ok_def split: list.splits if_splits)

interpretation recv_reader: reader "\<lambda>s. Read (cc2520_pipe s) 1" recv_receiveReady
  by unfold_locales (auto simp: reader_defs)

interpretation tcp_reader: safe_reader "\<lambda>s. Recv (sock s) INBUF_SIZE" tcp_receiveReady tcp_ok
  by unfold_locales (auto simp: reader_simps tcp_ok_def split: list.splits if_splits)

interpretation uart_reader: safe_reader "\<lambda>s. Read (uart_fd s) 1024" uart_receiveReady uart_ok
  by unfold_locales (auto simp: reader_simps uart_ok_def split: list.splits if_splits)

interpretation tun_reader: safe_reader "\<lambda>s. Read (tun_fd s) MAX_IPV6_PACKET_LEN" tun_receiveReady tun_ok
  by unfold_locales (auto simp: reader_simps tun_ok_def split: list.splits if_splits)

section \<open>Properties\<close>

text \<open>A wake-up of the main loop without input is harmless to every component that reads: however many
  of them come, each costs one read of the component's descriptor, and nothing else of its state
  changes.\<close>

lemma spurious_wakeups_harmless:
  assumes "\<forall>r \<in> set rs. err r = Some EAGAIN"
    and "script s1 = rs @ qs" "script s2 = rs @ qs" "script s3 = rs @ qs" "script s4 = rs @ qs" "script s5 = rs @ qs"
  shows
    "wakeups (length rs) send_receiveReady s1 =
       Ret () (s1\<lparr>script := qs, trace := trace s1 @ map (\<lambda>r. (Read (cc2520_read s1) RHDR_SIZE, r)) rs\<rparr>) \<and>
     wakeups (length rs) recv_receiveReady s2 =
       Ret () (s2\<lparr>script := qs, trace := trace s2 @ map (\<lambda>r. (Read (cc2520_pipe s2) 1, r)) rs\<rparr>) \<and>
     wakeups (length rs) tcp_receiveReady s3 =
       Ret () (s3\<lparr>script := qs, trace := trace s3 @ map (\<lambda>r. (Recv (sock s3) INBUF_SIZE, r)) rs\<rparr>) \<and>
     wakeups (length rs) uart_receiveReady s4 =
       Ret () (s4\<lparr>script := qs, trace := trace s4 @ map (\<lambda>r. (Read (uart_fd s4) 1024, r)) rs\<rparr>) \<and>
     wakeups (length rs) tun_receiveReady s5 =
       Ret () (s5\<lparr>script := qs, trace := trace s5 @ map (\<lambda>r. (Read (tun_fd s5) MAX_IPV6_PACKET_LEN, r)) rs\<rparr>)"
  using send_reader.spurious_wakeups [OF assms(2,1)] recv_reader.spurious_wakeups [OF assms(3,1)]
    tcp_reader.spurious_wakeups [OF assms(4,1)] uart_reader.spurious_wakeups [OF assms(5,1)]
    tun_reader.spurious_wakeups [OF assms(6,1)]
  by blast

lemma spurious_wakeups_harmless_witness:
  "wakeups 2 send_receiveReady (example_dev [err_reply 11, err_reply 11]) =
     Ret () ((example_dev [])\<lparr>trace := [(Read (cc2520_read (example_dev [])) 12, err_reply 11), (Read (cc2520_read (example_dev [])) 12, err_reply 11)]\<rparr>)"
  using spurious_wakeups_harmless [where rs = "[err_reply 11, err_reply 11]" and qs = "[]"
      and ?s1.0 = "example_dev [err_reply 11, err_reply 11]" and ?s2.0 = "example_recv [err_reply 11, err_reply 11]"
      and ?s3.0 = "tcp_init [err_reply 11, err_reply 11]" and ?s4.0 = "example_uart []\<lparr>script := [err_reply 11, err_reply 11]\<rparr>"
      and ?s5.0 = "example_tun\<lparr>script := [err_reply 11, err_reply 11]\<rparr>"]
  by (simp add: example_dev_def example_recv_def tcp_init_def EAGAIN_def RHDR_SIZE_def numeral_2_eq_2)

text \<open>C40. Whatever arrives, and however often, the components with buffers of their own stay inside
  them: no wake-up of the radio sender, the TCP connection, the serial port or the TUN device
  writes past the end of a buffer, and each leaves the buffers at their sizes.\<close>

theorem readers_stay_in_buffers:
  assumes "send_ok s1" "tcp_ok s2" "uart_ok s3" "tun_ok s4"
  shows
    "(case wakeups n send_receiveReady s1 of Fault _ \<Rightarrow> False | Ret _ t \<Rightarrow> send_ok t | _ \<Rightarrow> True) \<and>
     (case wakeups n tcp_receiveReady s2 of Fault _ \<Rightarrow> False | Ret _ t \<Rightarrow> tcp_ok t | _ \<Rightarrow> True) \<and>
     (case wakeups n uart_receiveReady s3 of Fault _ \<Rightarrow> False | Ret _ t \<Rightarrow> uart_ok t | _ \<Rightarrow> True) \<and>
     (case wakeups n tun_receiveReady s4 of Fault _ \<Rightarrow> False | Ret _ t \<Rightarrow> tun_ok t | _ \<Rightarrow> True)"
  using send_reader.wakeups_result [OF assms(1)] tcp_reader.wakeups_result [OF assms(2)]
    uart_reader.wakeups_result [OF assms(3)] tun_reader.wakeups_result [OF assms(4)]
  by blast

theorem readers_stay_in_buffers_witness:
  "\<exists>t. wakeups 1 tun_receiveReady (example_tun\<lparr>script := [data_reply (replicate 5000 1)]\<rparr>) = Ret () t \<and> tun_ok t"
proof -
  let ?s = "example_tun\<lparr>script := [data_reply (replicate 5000 1)]\<rparr>"
  have "send_ok (example_dev [])" "tcp_ok (tcp_init [])" "uart_ok (example_uart [])" "tun_ok ?s"
    by (simp_all add: send_ok_def example_dev_def tcp_ok_def tcp_init_def uart_ok_def example_uart_def RHDR_SIZE_def
        tun_ok_def example_tun_def MAX_IPV6_PACKET_LEN_def)
  from readers_stay_in_buffers [OF this, of 1]
  have "case wakeups 1 tun_receiveReady ?s of Fault _ \<Rightarrow> False | Ret _ t \<Rightarrow> tun_ok t | _ \<Rightarrow> True" by blast
  moreover have "\<exists>t. wakeups 1 tun_receiveReady ?s = Ret () t"
    by (simp add: reader_simps seq_seq payload_def memcpy_at_def example_tun_def MAX_IPV6_PACKET_LEN_def)
  ultimately show ?thesis by auto
qed

end
