(* ===== verification/MainLoop.thy ===== *)
theory MainLoop
  imports IOManager Readers
begin

text \<open>
  The components under the main loop: what \<open>IOManagerP\<close> keeps of the descriptors that a component
  registers during its life, and that \<open>select\<close> then wakes exactly this component, whose handler
  reads the descriptor that was ready. Each component has an instance of \<open>IOFileC\<close>, whose number
  is its entry in the map.
\<close>

section \<open>What the manager is told\<close>

fun io_step :: "nat \<Rightarrow> 'b call \<times> 'b reply \<Rightarrow> io_manager \<Rightarrow> io_manager" where
  "io_step i (Register fd, r) m = snd (registerFileDescriptor i fd m)"
| "io_step i (Unregister fd, r) m = snd (unregisterFileDescriptor i fd m)"
| "io_step i _ m = m"

definition io_after :: "nat \<Rightarrow> ('b call \<times> 'b reply) list \<Rightarrow> io_manager \<Rightarrow> io_manager" where
  "io_after i tr m = fold (io_step i) tr m"

text \<open>The map as the first registration makes it.\<close>

definition io_ready :: "io_manager \<Rightarrow> io_manager" where
  "io_ready m = (if is_init m then m else m\<lparr>fd_map := replicate (length (fd_map m)) 1, is_init := True\<rparr>)"

lemma io_ready_init [simp]: "is_init m \<Longrightarrow> io_ready m = m"
  by (simp add: io_ready_def)

lemma length_io_ready [simp]: "length (fd_map (io_ready m)) = length (fd_map m)"
  by (simp add: io_ready_def)

lemma register_ready: "snd (registerFileDescriptor i fd m) = (io_ready m)\<lparr>fd_map := (fd_map (io_ready m))[i := of_int fd]\<rparr>"
  by (simp add: registerFileDescriptor_def io_ready_def Let_def)

definition entry :: "nat \<Rightarrow> u8 \<Rightarrow> io_manager \<Rightarrow> io_manager" where
  "entry i v m = (io_ready m)\<lparr>fd_map := (fd_map (io_ready m))[i := v]\<rparr>"

lemma entry_simps [simp]: "is_init (entry i v m)" "entry i v (entry i w m) = entry i v m"
  by (simp_all add: entry_def io_ready_def)

lemma io_after_snoc [simp]: "io_after i (tr @ [x]) m = io_step i x (io_after i tr m)"
  by (simp add: io_after_def)

lemma register_entry: "k \<in> {m, entry i v m} \<Longrightarrow> snd (registerFileDescriptor i fd k) = entry i (of_int fd) m"
  by (auto simp: register_ready entry_def io_ready_def)

lemma unregister_entry: "k \<in> {m, entry i v m} \<Longrightarrow> snd (unregisterFileDescriptor i fd k) \<in> {m, entry i 1 m}"
  by (auto simp: unregisterFileDescriptor_def entry_def io_ready_def)

lemma io_after_entry:
  "case registration tr of Some fd \<Rightarrow> io_after i tr m = entry i (of_int fd) m
   | None \<Rightarrow> io_after i tr m \<in> {m, entry i 1 m}"
proof (induction tr rule: rev_induct)
  case Nil
  then show ?case by (simp add: registration_def io_after_def)
next
  case (snoc x tr)
  obtain c r where x: "x = (c, r)" by (cases x)
  obtain v where k: "io_after i tr m \<in> {m, entry i v m}" using snoc.IH by (auto split: option.splits)
  show ?case
  proof (cases c)
    case (Register fd)
    then show ?thesis using register_entry [OF k] by (simp add: x)
  next
    case (Unregister fd)
    then show ?thesis using unregister_entry [OF k] by (simp add: x)
  qed (use snoc.IH in \<open>simp_all add: x split: option.splits\<close>)
qed

section \<open>Who is woken\<close>

lemma entry_wakes:
  assumes "i < length (fd_map m)" "0 \<le> fd" "fd < 255" "fd \<noteq> 1" "255 \<notin> set (fd_map (entry i (of_int fd) m))"
  shows "i \<in> set (waitForIO inputs (entry i (of_int fd) m)) \<longleftrightarrow> nat fd \<in> inputs"
proof -
  let ?m = "entry i (of_int fd) m"
  have u: "unat (of_int fd :: u8) = nat fd"
    using assms(2,3) by (simp add: unat_eq_nat_uint uint_word_of_int)
  have at: "fd_map ?m ! i = of_int fd" "i < length (fd_map ?m)" using assms(1) by (simp_all add: entry_def)
  have "(of_int fd :: u8) \<noteq> 1" using u assms(2,4) by (auto simp: nat_eq_iff)
  then have "nat fd \<in> watched ?m" using at u by (force simp: watched_def in_set_conv_nth)
  then show ?thesis using at u by (simp add: waitForIO_def selected_ready [OF assms(5)])
qed

lemma empty_sleeps:
  assumes "i < length (fd_map m)" "m' \<in> {m, entry i 1 m}" "is_init m \<longrightarrow> fd_map m ! i = 1" "is_init m'"
    and "255 \<notin> set (fd_map m')"
  shows "i \<notin> set (waitForIO inputs m')"
proof -
  have "fd_map m' ! i = 1" using assms(1-4) by (auto simp: entry_def)
  then show ?thesis by (auto simp: waitForIO_def selected_ready [OF assms(5)] watched_def word_unat_eq_iff)
qed

section \<open>A component from its start to its reading\<close>

fun call_fd :: "'b call \<Rightarrow> int" where
  "call_fd (Read fd n) = fd" | "call_fd (Recv fd n) = fd" | "call_fd _ = -1"

text \<open>\<open>started\<close> tells of the result of the start whether the component is up.\<close>

locale woken_reader = reader first_call wake
  for first_call :: "('b, 'x) os_scheme \<Rightarrow> 'b call" and wake :: "(unit, ('b, 'x) os_scheme) prog" +
  fixes start :: "('e, ('b, 'x) os_scheme) prog" and started :: "'e \<Rightarrow> bool"
  assumes start_registers: "start s = Ret e s' \<Longrightarrow> started e \<Longrightarrow> registration (trace s') = Some (call_fd (first_call s'))"
begin

lemma woken:
  assumes "start s = Ret e s'" "started e" "i < length (fd_map m)" "io = io_after i (trace s') m"
    and "fd = call_fd (first_call s')" "0 \<le> fd" "fd < 255" "fd \<noteq> 1" "255 \<notin> set (fd_map io)"
  shows "i \<in> set (waitForIO inputs io) \<longleftrightarrow> nat fd \<in> inputs"
proof -
  have "io = entry i (of_int fd) m"
    using io_after_entry [where i = i and m = m and tr = "trace s'"] start_registers [OF assms(1,2)] assms(4,5) by simp
  with entry_wakes [OF assms(3,6,7,8)] assms(9) show ?thesis by simp
qed

end

text \<open>The starts end with the registration, whatever was in the trace before.\<close>

lemmas start_defs = uart_init_def tun_init_def recv_init_def send_init_def send_init_parent_def
  tcp_connect_def make_nonblocking_def ioctl_or_exit_def Let_def

lemma starts_register:
  "wp (uart_init tio) (\<lambda>_ s'. registration (trace s') = Some (uart_fd s')) (\<lambda>_. True) s1"
  "wp (tun_init name) (\<lambda>_ s'. registration (trace s') = Some (tun_fd s')) (\<lambda>_. True) s2"
  "wp (recv_init path p) (\<lambda>e s'. isl e \<longrightarrow> registration (trace s') = Some (cc2520_pipe s')) (\<lambda>_. True) s3"
  "wp (send_init path) (\<lambda>e s'. isl e \<longrightarrow> registration (trace s') = Some (cc2520_read s')) (\<lambda>_. True) s4"
  "wp (tcp_connect host port) (\<lambda>e s'. e = SUCCESS \<longrightarrow> registration (trace s') = Some (sock s')) (\<lambda>_. True) s5"
  unfolding start_defs
  by (auto simp: wp_simps split: list.split)

interpretation uart_woken: woken_reader "\<lambda>s. Read (uart_fd s) 1024" uart_receiveReady "uart_init tio" "\<lambda>e. True"
  by unfold_locales (auto dest: wp_RetD [OF starts_register(1)])

interpretation tun_woken: woken_reader "\<lambda>s. Read (tun_fd s) MAX_IPV6_PACKET_LEN" tun_receiveReady "tun_init name" "\<lambda>e. True"
  by unfold_locales (auto dest: wp_RetD [OF starts_register(2)])

interpretation recv_woken: woken_reader "\<lambda>s. Read (cc2520_pipe s) 1" recv_receiveReady "recv_init path p" isl
  by unfold_locales (auto dest: wp_RetD [OF starts_register(3)])

interpretation send_woken: woken_reader "\<lambda>s. Read (cc2520_read s) RHDR_SIZE" send_receiveReady "send_init path" isl
  by unfold_locales (auto dest: wp_RetD [OF starts_register(4)])

interpretation tcp_woken: woken_reader "\<lambda>s. Recv (sock s) INBUF_SIZE" tcp_receiveReady "tcp_connect host port" "\<lambda>e. e = SUCCESS"
  by unfold_locales (auto dest: wp_RetD [OF starts_register(5)])

section \<open>Properties\<close>

text \<open>C8. A component that has started is woken by its input and by nothing else: after the start of
  the serial port, the TUN device, the radio receiver or the radio sender, whatever the main
  loop knew before, a wake-up signals the component's entry exactly when the descriptor that
  its handler is going to read has input. The descriptor must be one that the map of bytes
  can hold.\<close>

theorem started_readers_wake:
  assumes "uart_init tio s1 = Ret e1 t1" "tun_init name s2 = Ret e2 t2"
    and "recv_init path p s3 = Ret (Inl e3) t3" "send_init path s4 = Ret (Inl e4) t4"
    and "i < length (fd_map m)" "\<forall>fd \<in> {uart_fd t1, tun_fd t2, cc2520_pipe t3, cc2520_read t4}. 0 \<le> fd \<and> fd < 255 \<and> fd \<noteq> 1"
    and "\<forall>tr \<in> {trace t1, trace t2, trace t3, trace t4}. 255 \<notin> set (fd_map (io_after i tr m))"
  shows "(i \<in> set (waitForIO inputs (io_after i (trace t1) m)) \<longleftrightarrow> nat (uart_fd t1) \<in> inputs) \<and>
    (i \<in> set (waitForIO inputs (io_after i (trace t2) m)) \<longleftrightarrow> nat (tun_fd t2) \<in> inputs) \<and>
    (i \<in> set (waitForIO inputs (io_after i (trace t3) m)) \<longleftrightarrow> nat (cc2520_pipe t3) \<in> inputs) \<and>
    (i \<in> set (waitForIO inputs (io_after i (trace t4) m)) \<longleftrightarrow> nat (cc2520_read t4) \<in> inputs)"
  using uart_woken.woken [OF assms(1) _ assms(5) refl refl, of inputs]
    tun_woken.woken [OF assms(2) _ assms(5) refl refl, of inputs]
    recv_woken.woken [OF assms(3) _ assms(5) refl refl, of inputs]
    send_woken.woken [OF assms(4) _ assms(5) refl refl, of inputs] assms(6,7)
  by simp

text \<open>C7. A TCP connection in the main loop: in every state the connection can reach, whatever the
  network did before, the main loop wakes it exactly when its socket has input while it is up;
  after a loss it is still woken for the old socket until the task that opens it again has run, and
  from then on, as when there is no connection, it is never woken. No other component's entry
  is touched.\<close>

theorem tcp_wakes:
  assumes "tcp_reach s" "is_init m" "i < length (fd_map m)" "fd_map m ! i = 1" "io = io_after i (trace s) m"
    and "255 \<notin> set (fd_map io)" "0 \<le> sock s \<longrightarrow> sock s < 255 \<and> sock s \<noteq> 1"
    and "\<forall>fd. conn (trace s) \<in> {Up fd, Lost fd} \<longrightarrow> 0 \<le> fd"
  shows "(i \<in> set (waitForIO inputs io) \<longleftrightarrow>
      (case conn (trace s) of Down \<Rightarrow> False | Up fd \<Rightarrow> nat fd \<in> inputs
       | Lost fd \<Rightarrow> reconnect_timer s = None \<and> nat fd \<in> inputs)) \<and>
    (\<forall>j < length (fd_map m). j \<noteq> i \<longrightarrow> fd_map io ! j = fd_map m ! j)"
proof -
  have inv: "tcp_inv s" by (rule tcp_reach_inv [OF assms(1)])
  then have r: "registration (trace s) = (if registered (trace s) = {} then None else Some (sock s))"
    by (simp add: tcp_inv_def stored_def)
  note e = io_after_entry [where i = i and m = m and tr = "trace s", unfolded r]
  have other: "\<forall>j < length (fd_map m). j \<noteq> i \<longrightarrow> fd_map io ! j = fd_map m ! j"
    using e assms(2,5) by (auto simp: entry_def split: if_splits)
  show ?thesis
  proof (cases "registered (trace s) = {}")
    case True
    then have io: "io \<in> {m, entry i 1 m}" using e assms(5) by simp
    then have "is_init io" using assms(2) by auto
    then have "i \<notin> set (waitForIO inputs io)" using empty_sleeps [OF assms(3) io _ _ assms(6)] assms(4) by simp
    with True inv other show ?thesis by (auto simp: tcp_inv_defs split: conn.splits)
  next
    case False
    then have io: "io = entry i (of_int (sock s)) m" using e assms(5) by simp
    from False inv have c: "conn (trace s) \<in> {Up (sock s), Lost (sock s)}" "reconnect_timer s = None"
      by (auto simp: tcp_inv_defs split: conn.splits)
    with assms(7,8) have "0 \<le> sock s" "sock s < 255" "sock s \<noteq> 1" by auto
    from entry_wakes [OF assms(3) this, of inputs] assms(6) io
    have "i \<in> set (waitForIO inputs io) \<longleftrightarrow> nat (sock s) \<in> inputs" by simp
    with c other show ?thesis by auto
  qed
qed

definition example_replies :: "u8 reply list" where
  "example_replies = [ok_reply 7, (ok_reply 5)\<lparr>rval2 := 6\<rparr>, (ok_reply 3)\<lparr>rval2 := 4\<rparr>, ok_reply 9, ok_reply 9, ok_reply 9,
     ok_reply 9, ok_reply 9, ok_reply 9, ok_reply 9, ok_reply 9, ok_reply 9]"

lemma example_starts:
  "\<exists>t. uart_init \<lparr>ospeed = 0, ispeed = 0, c_lflag = 0, c_vmin = 0, c_vtime = 0\<rparr> ((example_uart [])\<lparr>script := example_replies\<rparr>) = Ret SUCCESS t \<and>
    uart_fd t = 7 \<and> registration (trace t) = Some 7"
  "\<exists>t. tun_init ''tun0'' (example_tun\<lparr>script := example_replies\<rparr>) = Ret SUCCESS t \<and> tun_fd t = 7 \<and> registration (trace t) = Some 7"
  "\<exists>t. recv_init ''/dev/radio0'' 3 (example_recv example_replies) = Ret (Inl SUCCESS) t \<and> cc2520_pipe t = 5 \<and> registration (trace t) = Some 5"
  "\<exists>t. send_init ''/dev/radio0'' (example_dev example_replies) = Ret (Inl SUCCESS) t \<and> cc2520_read t = 3 \<and> registration (trace t) = Some 3"
  unfolding start_defs example_replies_def
  by (simp_all add: seq_seq seq_syscall ret_def example_tun_simps example_uart_def example_recv_def
      example_dev_def registration_def)

theorem started_readers_wake_witness:
  "\<exists>t. tun_init ''tun0'' (example_tun\<lparr>script := example_replies\<rparr>) = Ret SUCCESS t \<and>
     1 \<in> set (waitForIO {7} (io_after 1 (trace t) \<lparr>fd_map = [1, 1], is_init = True\<rparr>)) \<and>
     1 \<notin> set (waitForIO {8} (io_after 1 (trace t) \<lparr>fd_map = [1, 1], is_init = True\<rparr>))"
proof -
  let ?m = "\<lparr>fd_map = [1, 1], is_init = True\<rparr>"
  obtain t1 t2 t3 t4 where t: "uart_init \<lparr>ospeed = 0, ispeed = 0, c_lflag = 0, c_vmin = 0, c_vtime = 0\<rparr> ((example_uart [])\<lparr>script := example_replies\<rparr>) = Ret SUCCESS t1"
      "tun_init ''tun0'' (example_tun\<lparr>script := example_replies\<rparr>) = Ret SUCCESS t2"
      "recv_init ''/dev/radio0'' 3 (example_recv example_replies) = Ret (Inl SUCCESS) t3"
      "send_init ''/dev/radio0'' (example_dev example_replies) = Ret (Inl SUCCESS) t4"
    and fd: "uart_fd t1 = 7" "tun_fd t2 = 7" "cc2520_pipe t3 = 5" "cc2520_read t4 = 3"
    and r: "registration (trace t1) = Some 7" "registration (trace t2) = Some 7" "registration (trace t3) = Some 5" "registration (trace t4) = Some 3"
    using example_starts by metis
  have e: "io_after 1 tr ?m = entry 1 (of_int fd) ?m" if "registration tr = Some fd" for tr :: "(u8 call \<times> u8 reply) list" and fd
    using io_after_entry [where i = 1 and m = ?m and tr = tr] that by simp
  have "\<forall>tr \<in> {trace t1, trace t2, trace t3, trace t4}. 255 \<notin> set (fd_map (io_after 1 tr ?m))"
    using r [THEN e] by (simp add: entry_def)
  from started_readers_wake [OF t _ _ this, of "{7}"] started_readers_wake [OF t _ _ this, of "{8}"] fd t(2)
  show ?thesis by auto
qed

theorem tcp_wakes_witness:
  "\<exists>s. tcp_reach s \<and> conn (trace s) = Up 5 \<and>
     0 \<in> set (waitForIO {5} (io_after 0 (trace s) \<lparr>fd_map = [1, 9], is_init = True\<rparr>)) \<and>
     0 \<notin> set (waitForIO {7} (io_after 0 (trace s) \<lparr>fd_map = [1, 9], is_init = True\<rparr>))"
proof -
  let ?m = "\<lparr>fd_map = [1, 9], is_init = True\<rparr>"
  obtain s where s: "tcp_reach s" "sock s = 5" "conn (trace s) = Up 5" "registered (trace s) = {5}"
    using example_tcp_up by blast
  have "registration (trace s) = Some 5" using tcp_reach_inv [OF s(1)] s by (simp add: tcp_inv_def stored_def)
  then have "255 \<notin> set (fd_map (io_after 0 (trace s) ?m))"
    using io_after_entry [where i = 0 and m = ?m and tr = "trace s"] by (simp add: entry_def)
  with tcp_wakes [OF s(1), of ?m 0 _ "{5}"] tcp_wakes [OF s(1), of ?m 0 _ "{7}"] s show ?thesis by auto
qed

end
