(* ===== verification/Eui64.thy ===== *)
theory Eui64
  imports Posix Radio
begin

text \<open>
  The identifier of a node on the gap platform (\<open>platforms/gap/LocalIeeeEui64C.nc\<close>): the MAC
  address of its Ethernet interface, read as text, scanned, and extended to 64 bits.
\<close>

section \<open>Scanning\<close>

text \<open>\<open>sscanf\<close> as far as the component uses it: \<open>%hhx\<close> skips white space, takes a sign and \<open>0x\<close> when they
  are there, then all hexadecimal digits that follow. Their value is converted as \<open>strtoul\<close> does, to an
  \<open>unsigned long\<close> of 32 bits (the ARM of the board) or its largest value when it does not fit; its
  lowest byte is stored.\<close>

definition hex_val :: "char \<Rightarrow> nat option" where
  "hex_val c =
     (let n = of_char c :: nat in
      if 48 \<le> n \<and> n \<le> 57 then Some (n - 48)
      else if 97 \<le> n \<and> n \<le> 102 then Some (n - 87)
      else if 65 \<le> n \<and> n \<le> 70 then Some (n - 55)
      else None)"

definition is_hex :: "char \<Rightarrow> bool" where
  "is_hex c \<longleftrightarrow> hex_val c \<noteq> None"

definition white :: "char \<Rightarrow> bool" where
  "white c \<longleftrightarrow> c = CHR '' '' \<or> (9 \<le> (of_char c :: nat) \<and> (of_char c :: nat) \<le> 13)"

definition hex_value :: "nat \<Rightarrow> string \<Rightarrow> nat" where
  "hex_value acc ds = foldl (\<lambda>v c. v * 16 + the (hex_val c)) acc ds"

fun scan_prefix :: "string \<Rightarrow> string" where
  "scan_prefix (a # b # c # s) =
     (if a = CHR ''0'' \<and> (b = CHR ''x'' \<or> b = CHR ''X'') \<and> is_hex c then c # s else a # b # c # s)"
| "scan_prefix s = s"

definition scan_digits :: "string \<Rightarrow> (nat \<times> string) option" where
  "scan_digits s0 =
     (let s = scan_prefix s0; ds = takeWhile is_hex s in
      if ds = [] then None else Some (hex_value 0 ds, dropWhile is_hex s))"

definition ulong_byte :: "bool \<Rightarrow> nat \<Rightarrow> u8" where
  "ulong_byte neg v = (if 2 ^ 32 \<le> v then 0xFF else if neg then - of_nat v else of_nat v)"

definition scan_hhx :: "string \<Rightarrow> (u8 \<times> string) option" where
  "scan_hhx s0 =
     (case dropWhile white s0 of
        [] \<Rightarrow> None
      | c # s \<Rightarrow>
          if c = CHR ''-'' then map_option (\<lambda>(v, r). (ulong_byte True v, r)) (scan_digits s)
          else if c = CHR ''+'' then map_option (\<lambda>(v, r). (ulong_byte False v, r)) (scan_digits s)
          else map_option (\<lambda>(v, r). (ulong_byte False v, r)) (scan_digits (c # s)))"

text \<open>\<open>n\<close> conversions with colons between them; it stops at the first that does not match.\<close>

fun scan_mac :: "nat \<Rightarrow> string \<Rightarrow> u8 list" where
  "scan_mac 0 s = []"
| "scan_mac (Suc n) s =
     (case scan_hhx s of
        None \<Rightarrow> []
      | Some (b, r) \<Rightarrow>
          b # (case r of c # r' \<Rightarrow> if c = CHR '':'' then scan_mac n r' else [] | [] \<Rightarrow> []))"

section \<open>The identifier\<close>

text \<open>\<open>buf\<close> and \<open>eui\<close> are what the two arrays on the stack hold before, \<open>beyond\<close> the memory after the
  buffer: the buffer has room for the 17 characters of an address and none for a terminator,
  which \<open>sscanf\<close> looks for. The results of \<open>open\<close> and \<open>read\<close> are not looked at.\<close>

definition mac_positions :: "nat list" where
  "mac_positions = [0, 1, 2, 5, 6, 7]"

definition store_mac :: "u8 list \<Rightarrow> u8 list \<Rightarrow> u8 list" where
  "store_mac eui bs = fold (\<lambda>(i, b) e. e[i := b]) (zip mac_positions bs) eui"

definition finish_eui :: "u8 list \<Rightarrow> u8 list" where
  "finish_eui e0 = (let e = e0[3 := 0xFF, 4 := 0xFE] in e[0 := e ! 0 XOR 2])"

definition getId :: "string \<Rightarrow> u8 list \<Rightarrow> string \<Rightarrow> (u8 list, (char, 'x) os_scheme) prog" where
  "getId buf eui beyond =
     seq (syscall (Open ''/sys/class/net/eth0/address'')) (\<lambda>f.
     seq (syscall (Read (if failed f then -1 else rval f) 17)) (\<lambda>r.
     seq (access (\<lambda>s. if failed r then Some buf else memcpy_at buf 0 (payload 17 r))) (\<lambda>b.
     seq (access (\<lambda>s. if NUL \<in> set (b @ beyond) then Some (cstr (b @ beyond)) else None)) (\<lambda>text.
       ret (finish_eui (store_mac eui (scan_mac 6 text)))))))"

section \<open>Addresses as text\<close>

definition hex_char :: "nat \<Rightarrow> char" where
  "hex_char n = (if n < 10 then char_of (n + 48) else char_of (n + 87))"

definition print_byte :: "u8 \<Rightarrow> string" where
  "print_byte b = [hex_char (unat b div 16), hex_char (unat b mod 16)]"

fun print_mac :: "u8 list \<Rightarrow> string" where
  "print_mac [] = []"
| "print_mac [b] = print_byte b"
| "print_mac (b # bs) = print_byte b @ CHR '':'' # print_mac bs"

lemma of_hex_char: "n < 16 \<Longrightarrow> of_char (hex_char n) = (if n < 10 then n + 48 else n + 87)"
  by (simp add: hex_char_def)

lemma hex_val_char [simp]: "n < 16 \<Longrightarrow> hex_val (hex_char n) = Some n"
  by (auto simp: hex_val_def of_hex_char Let_def)

lemma hex_char_hex [simp]: "n < 16 \<Longrightarrow> is_hex (hex_char n)"
  by (simp add: is_hex_def)

lemma hex_not_special:
  assumes "is_hex c"
  shows "\<not> white c" "c \<noteq> CHR ''-''" "c \<noteq> CHR ''+''" "c \<noteq> CHR '':''" "c \<noteq> CHR ''x''" "c \<noteq> CHR ''X''" "c \<noteq> NUL"
  using assms by (auto simp: is_hex_def hex_val_def white_def Let_def split: if_splits)

lemma nibbles: "unat (b :: u8) div 16 < 16" "unat b mod 16 < 16"
  using unat_u8 [of b] by simp_all

text \<open>A byte in front of \<open>rest\<close>: all digits that follow are taken for digits of the byte.\<close>

lemma scan_hhx_byte:
  "scan_hhx (print_byte b @ rest) =
     Some (ulong_byte False (hex_value (unat b) (takeWhile is_hex rest)), dropWhile is_hex rest)"
proof -
  let ?h = "hex_char (unat b div 16)" and ?l = "hex_char (unat b mod 16)"
  have h: "is_hex ?h" "is_hex ?l" using nibbles [of b] by simp_all
  have p: "scan_prefix (?h # ?l # rest) = ?h # ?l # rest"
    using hex_not_special(5,6) [OF h(2)] by (cases rest) simp_all
  have v: "hex_value 0 (?h # ?l # ds) = hex_value (unat b) ds" for ds
    using nibbles [of b] by (simp add: hex_value_def)
  show ?thesis
    using h hex_not_special [OF h(1)]
    by (simp add: print_byte_def scan_hhx_def scan_digits_def p Let_def v)
qed

lemma ulong_byte_unat: "ulong_byte False (unat b) = b"
  using unat_u8 [of b] by (simp add: ulong_byte_def)

lemma scan_hhx_last: "\<not> (rest \<noteq> [] \<and> is_hex (hd rest)) \<Longrightarrow> scan_hhx (print_byte b @ rest) = Some (b, rest)"
  using scan_hhx_byte [of b rest] by (cases rest) (simp_all add: hex_value_def ulong_byte_unat)

lemma colon_not_hex [simp]: "\<not> is_hex CHR '':''"
  using hex_not_special(4) by blast

lemma scan_hhx_colon: "scan_hhx (print_byte b @ CHR '':'' # rest) = Some (b, CHR '':'' # rest)"
  by (rule scan_hhx_last) simp

lemma scan_print_mac:
  "scan_mac (Suc (length bs)) (print_mac (bs @ [b]) @ rest) =
     bs @ [ulong_byte False (hex_value (unat b) (takeWhile is_hex rest))]"
proof (induction bs)
  case Nil
  then show ?case by (auto simp: scan_hhx_byte split: list.splits)
next
  case (Cons a bs)
  have "print_mac ((a # bs) @ [b]) = print_byte a @ CHR '':'' # print_mac (bs @ [b])"
    by (cases bs) simp_all
  then show ?case using Cons.IH by (simp add: scan_hhx_colon)
qed

lemma length_print_mac: "bs \<noteq> [] \<Longrightarrow> length (print_mac bs) = 3 * length bs - 1"
  by (induction bs rule: print_mac.induct) (auto simp: print_byte_def)

lemma NUL_print_mac: "NUL \<notin> set (print_mac bs)"
proof -
  have "hex_char n \<noteq> NUL" "NUL \<noteq> hex_char n" if "n < 16" for n
    using hex_not_special(7) [OF hex_char_hex [OF that]] by simp_all
  then have "NUL \<notin> set (print_byte b)" for b using nibbles [of b] by (simp add: print_byte_def)
  then show ?thesis by (induction bs rule: print_mac.induct) auto
qed

section \<open>Properties\<close>

text \<open>C24. A node takes its identity from its MAC address: the six bytes of the address, extended by
  \<open>FF FE\<close> in the middle and with the second bit of the first byte inverted, become its
  identifier, and starting the radio gives the driver this identifier, last byte first. But
  the scanner does not stop at the end of the buffer: hexadecimal digits that happen to follow
  it in memory are taken for digits of the last byte.\<close>

theorem eui64_from_mac:
  assumes "length mac = 5" "length buf = 17" "length eui = 8" "NUL \<in> set beyond"
    and "script s = ok_reply fd # data_reply (print_mac (mac @ [m])) # rs"
    and "lst = ulong_byte False (hex_value (unat m) (takeWhile is_hex (cstr beyond)))"
  shows "\<exists>s' r. getId buf eui beyond s =
      Ret [mac ! 0 XOR 2, mac ! 1, mac ! 2, 0xFF, 0xFE, mac ! 3, mac ! 4, lst] s' \<and>
    radio_start True node [[mac ! 0 XOR 2, mac ! 1, mac ! 2, 0xFF, 0xFE, mac ! 3, mac ! 4, lst]] (radio_init pan h) = Some r \<and>
    told addr_cmd (ioctls r) = Some \<lparr>short_addr = node,
      extended_addr = [lst, mac ! 4, mac ! 3, 0xFE, 0xFF, mac ! 2, mac ! 1, mac ! 0 XOR 2], pan_id = pan\<rparr> \<and>
    (\<not> is_hex (hd (cstr beyond @ [NUL])) \<longrightarrow> lst = m)"
proof -
  obtain a b c d e where mac: "mac = [a, b, c, d, e]"
    using assms(1) by (auto simp: length_Suc_conv eval_nat_numeral)
  obtain x0 x1 x2 x3 x4 x5 x6 x7 where eui: "eui = [x0, x1, x2, x3, x4, x5, x6, x7]"
    using assms(3) by (auto simp: length_Suc_conv eval_nat_numeral)
  let ?t = "print_mac (mac @ [m])"
  have len: "length ?t = 17" using length_print_mac [of "mac @ [m]"] assms(1) by simp
  have str: "cstr (?t @ beyond) = ?t @ cstr beyond"
    using NUL_print_mac [of "mac @ [m]"] unfolding cstr_def by (subst takeWhile_append2) auto
  have scan: "scan_mac 6 (?t @ cstr beyond) = mac @ [lst]"
    using scan_print_mac [of mac m "cstr beyond"] assms(1,6) by (simp add: numeral_eq_Suc)
  have "memcpy_at buf 0 (payload 17 (data_reply ?t)) = Some ?t"
    using assms(2) len by (simp add: memcpy_at_def payload_def)
  then have "\<exists>s'. getId buf eui beyond s = Ret (finish_eui (store_mac eui (mac @ [lst]))) s'"
    using assms(4,5) str scan by (simp add: getId_def seq_syscall ret_def)
  moreover have "finish_eui (store_mac eui (mac @ [lst])) = [a XOR 2, b, c, 0xFF, 0xFE, d, e, lst]"
    by (simp add: mac eui store_mac_def mac_positions_def finish_eui_def Let_def)
  moreover have "lst = m" if "\<not> is_hex (hd (cstr beyond @ [NUL]))"
    using that assms(6) by (cases "cstr beyond") (simp_all add: hex_value_def ulong_byte_unat)
  moreover have "get_id [[a XOR 2, b, c, 0xFF, 0xFE, d, e, lst]] 0 = Some [a XOR 2, b, c, 0xFF, 0xFE, d, e, lst]"
    using sum_zero [of "[a XOR 2, b, c, 0xFF, 0xFE, d, e, lst]"] by (simp add: Let_def)
  ultimately show ?thesis
    by (simp add: mac radio_start_def radio_init_def Let_def told_append ioctl_def upt_rec)
qed

theorem eui64_from_mac_witness:
  "\<exists>s'. getId (replicate 17 NUL) (replicate 8 0) [CHR ''7'', NUL]
     \<lparr>script = [ok_reply 3, data_reply ''b8:27:eb:01:02:0c''], trace = []\<rparr> =
     Ret [0xBA, 0x27, 0xEB, 0xFF, 0xFE, 1, 2, 0xC7] s'"
proof -
  let ?s = "\<lparr>script = [ok_reply 3, data_reply ''b8:27:eb:01:02:0c''], trace = []\<rparr> :: (char, unit) os_scheme"
  have p: "script ?s = ok_reply 3 # data_reply (print_mac ([0xB8, 0x27, 0xEB, 1, 2] @ [0xC])) # []"
    by (simp, code_simp)
  have l: "(0xC7 :: u8) = ulong_byte False (hex_value (unat (0xC :: u8)) (takeWhile is_hex (cstr [CHR ''7'', NUL])))"
    by (simp add: cstr_def is_hex_def hex_val_def hex_value_def ulong_byte_def)
  have n: "NUL \<in> set [CHR ''7'', NUL]" by simp
  from eui64_from_mac [OF _ _ _ n p l, where buf = "replicate 17 NUL" and eui = "replicate 8 0"]
  show ?thesis by auto
qed

end
