(* ===== verification/Board.thy ===== *)
theory Board
  imports Interrupts Gpio Tun IOManager "HOL-Library.Sublist"
begin

text \<open>
  The pins of the Raspberry Pi: the numbers of the header pins (\<open>gpio.h\<close>), the ports the
  configurations make of them (\<open>Bcm2835InterruptC.nc\<close>, \<open>HplBcm2835GeneralIOC.nc\<close>), and the
  interrupts of a port from the command of the application through both processes back to its
  event, by way of a signal that the kernel keeps only once while it is blocked; the start and the end of the program (\<open>PlatformP.nc\<close> of both boards); and the random
  numbers (\<open>RandomLinuxP.nc\<close>).
\<close>

section \<open>Header pins\<close>

datatype header_pin =
    P1_03 | P1_05 | P1_07 | P1_08 | P1_10 | P1_11 | P1_12 | P1_13 | P1_15 | P1_16 | P1_18
  | P1_19 | P1_21 | P1_22 | P1_23 | P1_24 | P1_26 | P5_03 | P5_04 | P5_05 | P5_06

fun RPI_V2_GPIO :: "header_pin \<Rightarrow> nat" where
  "RPI_V2_GPIO P1_03 = 2"
| "RPI_V2_GPIO P1_05 = 3"
| "RPI_V2_GPIO P1_07 = 4"
| "RPI_V2_GPIO P1_08 = 14"
| "RPI_V2_GPIO P1_10 = 15"
| "RPI_V2_GPIO P1_11 = 17"
| "RPI_V2_GPIO P1_12 = 18"
| "RPI_V2_GPIO P1_13 = 27"
| "RPI_V2_GPIO P1_15 = 22"
| "RPI_V2_GPIO P1_16 = 23"
| "RPI_V2_GPIO P1_18 = 24"
| "RPI_V2_GPIO P1_19 = 10"
| "RPI_V2_GPIO P1_21 = 9"
| "RPI_V2_GPIO P1_22 = 25"
| "RPI_V2_GPIO P1_23 = 11"
| "RPI_V2_GPIO P1_24 = 8"
| "RPI_V2_GPIO P1_26 = 7"
| "RPI_V2_GPIO P5_03 = 28"
| "RPI_V2_GPIO P5_04 = 29"
| "RPI_V2_GPIO P5_05 = 30"
| "RPI_V2_GPIO P5_06 = 31"

text \<open>The ports with an interface for interrupts, and those with one for input and output.\<close>

definition interrupt_ports :: "header_pin list" where
  "interrupt_ports = [P1_03, P1_08, P1_10, P1_12, P1_13, P1_19, P1_21, P1_23, P1_24, P1_26]"

definition gpio_ports :: "header_pin list" where
  "gpio_ports = [P1_03, P1_05, P1_07, P1_08, P1_10, P1_11, P1_12, P1_13, P1_15, P1_16, P1_18,
     P1_19, P1_21, P1_22, P1_23, P1_24, P1_26, P5_03, P5_04, P5_05, P5_06]"

lemma RPI_V2_GPIO_inj: "inj RPI_V2_GPIO"
proof (rule injI)
  fix p q assume "RPI_V2_GPIO p = RPI_V2_GPIO q"
  then show "p = q" by (cases p; cases q) simp_all
qed

lemma RPI_V2_GPIO_less: "RPI_V2_GPIO p < 32"
  by (cases p) simp_all

lemma gpio_ports_all: "p \<in> set gpio_ports"
  by (cases p) (simp_all add: gpio_ports_def)

text \<open>The two lists of pins, in the configuration and in the child, are kept by hand: they are the same.\<close>

lemma interrupt_ports_pins: "sort (map RPI_V2_GPIO interrupt_ports) = pins"
  by (simp add: interrupt_ports_def pins_def)

text \<open>Commands on the ports: each port is a pin of its own.\<close>

lemma ports_independent:
  assumes "gpio_inv s" "\<forall>op \<in> set ops. snd op \<noteq> p"
  shows "\<exists>s'. pins_do (map (\<lambda>(op, q). (op, RPI_V2_GPIO q)) ops) s = Some s' \<and>
    pin_of s' (RPI_V2_GPIO p) = pin_of s (RPI_V2_GPIO p)"
proof -
  let ?ops = "map (\<lambda>(op, q). (op, RPI_V2_GPIO q)) ops"
  have "\<forall>op \<in> set ?ops. snd op < 32" using RPI_V2_GPIO_less by auto
  from pins_do_refines [OF assms(1) this] obtain s' where
    s': "pins_do ?ops s = Some s'" "pin_of s' (RPI_V2_GPIO p) = fold spec_op (ops_of (RPI_V2_GPIO p) ?ops) (pin_of s (RPI_V2_GPIO p))"
    using RPI_V2_GPIO_less by blast
  have "ops_of (RPI_V2_GPIO p) ?ops = []"
    using assms(2) RPI_V2_GPIO_inj by (auto simp: ops_of_def filter_empty_conv inj_eq)
  with s' show ?thesis by auto
qed

section \<open>Interrupts of a port\<close>

definition port_index :: "header_pin \<Rightarrow> nat" where
  "port_index p = nat (get_pin_index (RPI_V2_GPIO p))"

lemma port_index_pin:
  assumes "p \<in> set interrupt_ports"
  shows "port_index p < 10" "pins ! port_index p = RPI_V2_GPIO p"
  using assms by (auto simp: interrupt_ports_def port_index_def get_pin_index_def pins_def)

lemma port_index_inj:
  "p \<in> set interrupt_ports \<Longrightarrow> q \<in> set interrupt_ports \<Longrightarrow> port_index p = port_index q \<longleftrightarrow> p = q"
  using port_index_pin(2) RPI_V2_GPIO_inj by (metis inj_eq)

text \<open>What an application does: it sets ports, one command after the other.\<close>

definition port_command :: "u8 list \<Rightarrow> header_pin \<times> setting \<Rightarrow> (error_t, 'x int_main_scheme) prog" where
  "port_command pad c =
     (let pin = of_nat (RPI_V2_GPIO (fst c)) in
      case snd c of
        INTERRUPT_RISING \<Rightarrow> enableRisingEdge pad pin
      | INTERRUPT_FALLING \<Rightarrow> enableFallingEdge pad pin
      | INTERRUPT_NONE \<Rightarrow> disable_interrupt pad pin)"

fun port_commands :: "u8 list \<Rightarrow> (header_pin \<times> setting) list \<Rightarrow> (unit, 'x int_main_scheme) prog" where
  "port_commands pad [] = ret ()"
| "port_commands pad (c # cs) = seq (port_command pad c) (\<lambda>_. port_commands pad cs)"

text \<open>The setting a port has after the commands.\<close>

definition asked :: "(header_pin \<times> setting) list \<Rightarrow> header_pin \<Rightarrow> setting" where
  "asked cs p = fold (\<lambda>(q, st) c. if q = p then st else c) cs INTERRUPT_NONE"

text \<open>The messages of the pipe between the processes that the child reads for its events.\<close>

fun messages :: "u8 list \<Rightarrow> int_event list \<Rightarrow> u8 list list" where
  "messages pad [] = []"
| "messages pad (Config i st # evs) = put_iset pad (of_nat (pins ! i)) st # messages pad evs"
| "messages pad (Edge i # evs) = messages pad evs"

lemma port_command_message:
  assumes "port_command pad c s = Ret e s'"
  shows "int_settings_pipe s' = int_settings_pipe s \<and> fired s' = fired s \<and>
    written (int_settings_pipe s) (trace s') =
      written (int_settings_pipe s) (trace s) @ [put_iset pad (of_nat (RPI_V2_GPIO (fst c))) (snd c)]"
proof -
  have st: "port_command pad c s = seq (configure_interrupt pad (of_nat (RPI_V2_GPIO (fst c))) (snd c)) (\<lambda>_. ret SUCCESS) s"
    by (cases "snd c") (auto simp: port_command_def enableRisingEdge_def enableFallingEdge_def disable_interrupt_def Let_def)
  show ?thesis
    using assms unfolding st configure_interrupt_def
    by (auto simp: seq_syscall seq_seq ret_def gets_def seq_def stop_def syscall_def written_def
        split: list.splits if_splits outcome.splits)
qed

lemma port_commands_messages:
  "port_commands pad cs s = Ret () s' \<Longrightarrow>
    int_settings_pipe s' = int_settings_pipe s \<and> fired s' = fired s \<and>
    written (int_settings_pipe s) (trace s') = written (int_settings_pipe s) (trace s) @
      map (\<lambda>(p, st). put_iset pad (of_nat (RPI_V2_GPIO p)) st) cs"
proof (induction cs arbitrary: s)
  case Nil
  then show ?case by (simp add: ret_def)
next
  case (Cons c cs)
  from Cons.prems obtain e t where t: "port_command pad c s = Ret e t" "port_commands pad cs t = Ret () s'"
    by (auto simp: seq_def split: outcome.splits)
  from Cons.IH [OF t(2)] port_command_message [OF t(1)] show ?case by (auto split: prod.splits)
qed

lemma put_iset_eq:
  assumes "i < 10" "p \<in> set interrupt_ports"
    and "put_iset pad (of_nat (pins ! i)) st = put_iset pad (of_nat (RPI_V2_GPIO p)) st'"
  shows "i = port_index p" "st = st'"
proof -
  let ?a = "put_iset pad (of_nat (pins ! i)) st" and ?b = "put_iset pad (of_nat (RPI_V2_GPIO p)) st'"
  note p = port_index_pin [OF assms(2)]
  have "iset_pin ?a = pins ! i" by (simp only: put_iset_roundtrip pin_byte [OF assms(1)])
  moreover have "iset_pin ?b = pins ! port_index p" by (simp only: put_iset_roundtrip pin_byte [OF p(1)] p(2) [symmetric])
  ultimately have i: "pins ! i = pins ! port_index p" by (simp only: assms(3))
  have "iset_setting ?a = iset_setting ?b" by (simp only: assms(3))
  then have s: "setting_nr st = setting_nr st'" by (simp only: put_iset_roundtrip)
  show "i = port_index p"
    using get_pin_index_pin [OF assms(1)] get_pin_index_pin [OF p(1)] unfolding i by (metis of_nat_eq_iff)
  show "st = st'" using s by (cases st; cases st') simp_all
qed

text \<open>The child ends up with what was asked, whatever interrupts came in between.\<close>

lemma messages_asked:
  assumes "messages pad evs = map (\<lambda>(p, st). put_iset pad (of_nat (RPI_V2_GPIO p)) st) cs"
    and "\<forall>ev \<in> set evs. event_index ev < 10" "fst ` set cs \<subseteq> set interrupt_ports" "p \<in> set interrupt_ports"
  shows "fold set_cur evs cur (port_index p) = fold (\<lambda>(q, st) c. if q = p then st else c) cs (cur (port_index p))"
  using assms
proof (induction evs arbitrary: cs cur)
  case Nil
  then show ?case by simp
next
  case (Cons ev evs)
  show ?case
  proof (cases ev)
    case (Edge i)
    then show ?thesis using Cons by simp
  next
    case (Config i st)
    with Cons.prems(1) obtain q st' cs' where cs: "cs = (q, st') # cs'"
      "put_iset pad (of_nat (pins ! i)) st = put_iset pad (of_nat (RPI_V2_GPIO q)) st'"
      "messages pad evs = map (\<lambda>(p, st). put_iset pad (of_nat (RPI_V2_GPIO p)) st) cs'"
      by (auto simp: map_eq_Cons_conv Cons_eq_map_conv)
    have i: "i < 10" and q: "q \<in> set interrupt_ports"
      using Cons.prems(2,3) Config cs(1) by (auto simp: event_index_def)
    then have e: "i = port_index q" "st = st'" using put_iset_eq [OF i q cs(2)] by auto
    have "fold set_cur evs (cur(i := st)) (port_index p) =
        fold (\<lambda>(q, st) c. if q = p then st else c) cs' ((cur(i := st)) (port_index p))"
      by (rule Cons.IH) (use Cons.prems(2-4) cs(1,3) in auto)
    then show ?thesis
      using Config cs(1) e port_index_inj [OF q Cons.prems(4)] by auto
  qed
qed

lemma count_edges:
  assumes "\<forall>ev \<in> set evs. event_index ev < 10" "p \<in> set interrupt_ports"
  shows "count_list (map nat (edge_pins evs)) (RPI_V2_GPIO p) = count_list evs (Edge (port_index p))"
  using assms(1)
proof (induction evs rule: edge_pins.induct)
  case (3 i evs)
  have "pins ! i = RPI_V2_GPIO p \<longleftrightarrow> i = port_index p"
    using 3(2) port_index_pin [OF assms(2)] get_pin_index_pin [of i] get_pin_index_pin [of "port_index p"]
    by (auto simp: event_index_def)
  then show ?case using 3 by simp
qed simp_all

section \<open>The signal\<close>

text \<open>The child sends \<open>SIGUSR1\<close> to the main process, whose atomic sections block it, and while the
  handler runs it is blocked as well. It is a standard signal, of which \<open>signal(7)\<close> says: a
  blocked one is kept pending once, with the value of the first instance, and instances
  that come while it is pending are dropped. The state has the masks (\<open>linux_atomic.h\<close>), the
  pending instance, the mask the running handler goes back to, and the application.\<close>

definition SIGUSR1 :: nat where "SIGUSR1 = 10"

record signal_sys =
  sig_mask :: interrupts
  waiting :: "int option"
  resume :: "nat set option"
  app :: int_main

datatype sig_event = Arrive int | Disable | Enable | Return

definition deliver :: "signal_sys \<Rightarrow> signal_sys" where
  "deliver s = (case waiting s of None \<Rightarrow> s | Some pin \<Rightarrow>
     if SIGUSR1 \<in> blocked (sig_mask s) then s
     else s\<lparr>waiting := None, resume := Some (blocked (sig_mask s)),
       sig_mask := (sig_mask s)\<lparr>blocked := insert SIGUSR1 (blocked (sig_mask s))\<rparr>,
       app := InterruptSignal pin (app s)\<rparr>)"

fun main_step :: "sig_event \<Rightarrow> signal_sys \<Rightarrow> signal_sys" where
  "main_step (Arrive pin) s = deliver (s\<lparr>waiting := (case waiting s of None \<Rightarrow> Some pin | Some p \<Rightarrow> Some p)\<rparr>)"
| "main_step Disable s = s\<lparr>sig_mask := nesc_disable_interrupt (sig_mask s)\<rparr>"
| "main_step Enable s = deliver (s\<lparr>sig_mask := nesc_enable_interrupt (sig_mask s)\<rparr>)"
| "main_step Return s = (case resume s of None \<Rightarrow> s | Some b \<Rightarrow>
     deliver (s\<lparr>sig_mask := (sig_mask s)\<lparr>blocked := b\<rparr>, resume := None\<rparr>))"

definition signal_start :: "int_main \<Rightarrow> signal_sys" where
  "signal_start m = \<lparr>sig_mask = \<lparr>blocked = {}, global_sigmask = {}, interrupts_enabled = True\<rparr>,
     waiting = None, resume = None, app = m\<rparr>"

text \<open>The signals that were sent, those that the kernel dropped, and the one it still holds.\<close>

fun arrivals :: "sig_event list \<Rightarrow> int list" where
  "arrivals [] = []"
| "arrivals (Arrive pin # sts) = pin # arrivals sts"
| "arrivals (_ # sts) = arrivals sts"

fun dropped :: "sig_event list \<Rightarrow> signal_sys \<Rightarrow> int list" where
  "dropped [] s = []"
| "dropped (st # sts) s =
     (case st of Arrive pin \<Rightarrow> (if waiting s = None then [] else [pin]) | _ \<Rightarrow> []) @ dropped sts (main_step st s)"

definition held :: "signal_sys \<Rightarrow> int list" where
  "held s = (case waiting s of None \<Rightarrow> [] | Some pin \<Rightarrow> [pin])"

definition port_of :: "int \<Rightarrow> nat" where
  "port_of pin = nat (pin mod 256)"

text \<open>What was fired and what is still held; delivering moves one to the other.\<close>

definition answered :: "signal_sys \<Rightarrow> nat list" where
  "answered s = fired (app s) @ map port_of (held s)"

lemma answered_deliver [simp]: "answered (deliver s) = answered s"
  by (simp add: answered_def deliver_def held_def InterruptSignal_def port_of_def split: option.split)

lemma answered_step:
  "answered (main_step st s) = answered s @ (case st of
     Arrive pin \<Rightarrow> if waiting s = None then [port_of pin] else [] | _ \<Rightarrow> [])"
  by (cases st) (simp_all split: option.split, simp_all add: answered_def held_def split: option.split)

lemma answered_run:
  "count_list (answered (fold main_step sts s)) p + count_list (map port_of (dropped sts s)) p =
     count_list (answered s) p + count_list (map port_of (arrivals sts)) p"
proof (induction sts arbitrary: s)
  case (Cons st sts)
  show ?case using Cons.IH [of "main_step st s"] by (cases st) (simp_all add: answered_step del: main_step.simps)
qed simp

lemma answered_subseq: "\<exists>ys. answered (fold main_step sts s) = answered s @ ys \<and> subseq ys (map port_of (arrivals sts))"
proof (induction sts arbitrary: s)
  case (Cons st sts)
  obtain ys where "answered (fold main_step sts (main_step st s)) = answered (main_step st s) @ ys"
      "subseq ys (map port_of (arrivals sts))" using Cons.IH by blast
  then show ?case by (cases st) (auto simp: answered_step intro: list_emb_Cons simp del: main_step.simps)
qed simp

lemma fired_grows: "\<exists>zs. fired (app (fold main_step sts s)) = fired (app s) @ zs"
proof (induction sts arbitrary: s)
  case (Cons st sts)
  have "\<exists>zs. fired (app (main_step st s)) = fired (app s) @ zs"
    by (cases st) (auto simp: deliver_def InterruptSignal_def split: option.split)
  with Cons.IH [of "main_step st s"] show ?case by auto
qed simp

text \<open>A signal is dropped only while it is blocked, in an atomic section or a handler.\<close>

lemma waiting_blocked_step:
  "(waiting s \<noteq> None \<longrightarrow> SIGUSR1 \<in> blocked (sig_mask s)) \<Longrightarrow>
   waiting (main_step st s) \<noteq> None \<longrightarrow> SIGUSR1 \<in> blocked (sig_mask (main_step st s))"
  by (cases st) (auto simp: deliver_def nesc_disable_interrupt_def Let_def split: option.splits)

lemma waiting_blocked:
  "(waiting s \<noteq> None \<longrightarrow> SIGUSR1 \<in> blocked (sig_mask s)) \<Longrightarrow>
   waiting (fold main_step sts s) \<noteq> None \<longrightarrow> SIGUSR1 \<in> blocked (sig_mask (fold main_step sts s))"
  by (induction sts arbitrary: s) (simp_all add: waiting_blocked_step)

text \<open>So of two interrupts in one atomic section the second is lost, whatever their ports.\<close>

lemma second_interrupt_lost:
  "fired (app (fold main_step [Disable, Arrive a, Arrive b, Enable, Return] (signal_start m))) = fired m @ [port_of a]"
  by (simp add: signal_start_def deliver_def InterruptSignal_def port_of_def nesc_disable_interrupt_def
      nesc_enable_interrupt_def Let_def)

lemma signals_answered:
  assumes "u = fold main_step sts (signal_start m)"
  shows "count_list (fired (app u)) p + count_list (map port_of (held u)) p +
      count_list (map port_of (dropped sts (signal_start m))) p =
      count_list (fired m) p + count_list (map port_of (arrivals sts)) p"
    and "held u \<noteq> [] \<longrightarrow> SIGUSR1 \<in> blocked (sig_mask u)"
    and "\<exists>ys. fired (app u) = fired m @ ys \<and> subseq ys (map port_of (arrivals sts))"
proof -
  have s: "answered (signal_start m) = fired m" "waiting (signal_start m) = None"
    by (simp_all add: answered_def held_def signal_start_def)
  show "count_list (fired (app u)) p + count_list (map port_of (held u)) p +
      count_list (map port_of (dropped sts (signal_start m))) p =
      count_list (fired m) p + count_list (map port_of (arrivals sts)) p"
  proof -
    have "count_list (answered u) p + count_list (map port_of (dropped sts (signal_start m))) p =
        count_list (fired m) p + count_list (map port_of (arrivals sts)) p"
      using answered_run [of sts "signal_start m" p] by (simp only: assms s)
    then show ?thesis by (simp add: answered_def)
  qed
  show "held u \<noteq> [] \<longrightarrow> SIGUSR1 \<in> blocked (sig_mask u)"
    using waiting_blocked [of "signal_start m" sts] assms s by (simp add: held_def split: option.splits)
  obtain ys where ys: "answered u = fired m @ ys" "subseq ys (map port_of (arrivals sts))"
    using answered_subseq [of sts "signal_start m"] assms s by auto
  moreover obtain zs where "fired (app u) = fired m @ zs"
    using fired_grows [of sts "signal_start m"] assms by (auto simp: signal_start_def)
  ultimately have "ys = zs @ map port_of (held u)" by (simp add: answered_def)
  then have "subseq zs ys" by (simp add: prefix_imp_subseq)
  with ys \<open>fired (app u) = fired m @ zs\<close> show "\<exists>ys. fired (app u) = fired m @ ys \<and> subseq ys (map port_of (arrivals sts))"
    using subseq_order.trans by blast
qed

lemma edge_ports: "\<forall>ev \<in> set evs. event_index ev < 10 \<Longrightarrow> map port_of (edge_pins evs) = map nat (edge_pins evs)"
proof (induction evs rule: edge_pins.induct)
  case (3 i evs)
  then have "i < 10" by (simp add: event_index_def)
  then have "pins ! i < 256" by (auto dest!: pins_less simp: pins_def)
  with 3 show ?case by (simp add: port_of_def)
qed simp_all

section \<open>Properties\<close>

text \<open>C12. Interrupts from the application and back: the application gives any commands to its ports, and the
  child reads the messages they made from the pipe, with any interrupts of any ports before,
  between and after them. Then the edge file of each port holds the setting that was asked for
  last, and the child waits for exactly the ports that are on. The signals it sent come to
  the main process between atomic sections and handlers in any way: the events fired are those
  of the interrupts, in their order and none twice, and for each port every interrupt has
  been fired, is held until the signal is unblocked, or was dropped because one was held then.\<close>

theorem interrupts_at_ports:
  assumes "port_commands pad cs m = Ret () m'" "trace m = []" "fst ` set cs \<subseteq> set interrupt_ports"
    and "messages pad evs = written (int_settings_pipe m') (trace m')" "\<forall>ev \<in> set evs. event_index ev < 10"
    and "inj_on E {..<10}" "inj_on V {..<10}" "\<forall>i < 10. V i \<noteq> rd" "length b = ISET_SIZE" "p \<in> set interrupt_ports"
  shows "\<exists>s'. seq (int_child_start rd wr) (\<lambda>ep. int_child_main ep rd)
        (int_child_init (start_replies x ep E V @ event_replies rd V pad (\<lambda>_. INTERRUPT_NONE) evs) b) = Blocked s' \<and>
      edges (trace s') (E (port_index p)) = Some (bytes (setting_str ! setting_nr (asked cs p))) \<and>
      (V (port_index p) \<in> interest (trace s') \<longleftrightarrow> asked cs p \<noteq> INTERRUPT_NONE) \<and>
      (\<forall>sts. arrivals sts = signals (trace s') \<longrightarrow>
        (let u = fold main_step sts (signal_start m') in
          count_list (fired (app u)) (RPI_V2_GPIO p) + count_list (map port_of (held u)) (RPI_V2_GPIO p) +
            count_list (map port_of (dropped sts (signal_start m'))) (RPI_V2_GPIO p) =
          count_list (fired m) (RPI_V2_GPIO p) + count_list evs (Edge (port_index p)) \<and>
          (held u \<noteq> [] \<longrightarrow> SIGUSR1 \<in> blocked (sig_mask u)) \<and>
          (\<exists>ys. fired (app u) = fired m @ ys \<and> subseq ys (map port_of (signals (trace s'))))))"
proof -
  let ?cur = "fold set_cur evs (\<lambda>_. INTERRUPT_NONE)"
  have m: "int_settings_pipe m' = int_settings_pipe m" "fired m' = fired m"
      "messages pad evs = map (\<lambda>(p, st). put_iset pad (of_nat (RPI_V2_GPIO p)) st) cs"
    using port_commands_messages [OF assms(1)] assms(2,4) by (simp_all add: written_def)
  have i: "port_index p < 10" using port_index_pin(1) [OF assms(10)] .
  have cur: "?cur (port_index p) = asked cs p"
    using messages_asked [OF m(3) assms(5,3,10)] by (simp add: asked_def)
  from child_runs_events [OF assms(6-9,5), of wr x ep pad] obtain s' where
    s': "seq (int_child_start rd wr) (\<lambda>ep. int_child_main ep rd)
        (int_child_init (start_replies x ep E V @ event_replies rd V pad (\<lambda>_. INTERRUPT_NONE) evs) b) = Blocked s'"
      "child_inv rd E V ?cur s'" "signals (trace s') = edge_pins evs" by blast
  then have "edges (trace s') (E (port_index p)) = Some (bytes (setting_str ! setting_nr (asked cs p)))"
      "V (port_index p) \<in> interest (trace s') \<longleftrightarrow> asked cs p \<noteq> INTERRUPT_NONE"
    using i cur assms(8) on_files_iff [OF i assms(7), of ?cur] by (auto simp: child_inv_def)
  moreover have "let u = fold main_step sts (signal_start m') in
      count_list (fired (app u)) (RPI_V2_GPIO p) + count_list (map port_of (held u)) (RPI_V2_GPIO p) +
        count_list (map port_of (dropped sts (signal_start m'))) (RPI_V2_GPIO p) =
      count_list (fired m) (RPI_V2_GPIO p) + count_list evs (Edge (port_index p)) \<and>
      (held u \<noteq> [] \<longrightarrow> SIGUSR1 \<in> blocked (sig_mask u)) \<and>
      (\<exists>ys. fired (app u) = fired m @ ys \<and> subseq ys (map port_of (signals (trace s'))))"
    if a: "arrivals sts = signals (trace s')" for sts
  proof -
    have "count_list (map port_of (arrivals sts)) (RPI_V2_GPIO p) = count_list evs (Edge (port_index p))"
      using count_edges [OF assms(5,10)] by (simp only: a s'(3) edge_ports [OF assms(5)])
    with signals_answered [OF refl, of sts m'] show ?thesis by (simp add: Let_def a m(2))
  qed
  ultimately show ?thesis using s'(1) by blast
qed

text \<open>Rising edges of P1-08 and falling edges of P1-26, with two interrupts of P1-08, the second of
  which comes in an atomic section.\<close>

definition example_main :: int_main where
  "example_main = \<lparr>script = [ok_reply 8, ok_reply 8], trace = [], int_settings_pipe = 5, fired = []\<rparr>"

theorem interrupts_at_ports_witness:
  "\<exists>m' (s' :: int_child). port_commands [0, 0, 0] [(P1_08, INTERRUPT_RISING), (P1_26, INTERRUPT_FALLING)] example_main = Ret () m' \<and>
     seq (int_child_start 7 8) (\<lambda>ep. int_child_main ep 7)
       (int_child_init (start_replies 3 4 (\<lambda>i. 20 + int i) (\<lambda>i. 40 + int i) @
         event_replies 7 (\<lambda>i. 40 + int i) [0, 0, 0] (\<lambda>_. INTERRUPT_NONE)
           [Edge 6, Config 6 INTERRUPT_RISING, Edge 6, Config 1 INTERRUPT_FALLING]) (replicate 8 0)) = Blocked s' \<and>
     edges (trace s') (20 + int 6) = Some (bytes ''rising'') \<and>
     count_list (fired (app (fold main_step [Arrive 14, Return, Disable, Arrive 14, Enable] (signal_start m')))) 14 = 2"
proof -
  let ?cs = "[(P1_08, INTERRUPT_RISING), (P1_26, INTERRUPT_FALLING)]"
    and ?evs = "[Edge 6, Config 6 INTERRUPT_RISING, Edge 6, Config 1 INTERRUPT_FALLING]"
    and ?sts = "[Arrive 14, Return, Disable, Arrive 14, Enable]"
  let ?E = "\<lambda>i. 20 + int i" and ?V = "\<lambda>i. 40 + int i"
  let ?m = "example_main\<lparr>script := [], trace := [(Write 5 (put_iset [0, 0, 0] 14 INTERRUPT_RISING), ok_reply 8),
    (Write 5 (put_iset [0, 0, 0] 7 INTERRUPT_FALLING), ok_reply 8)]\<rparr>"
  have run: "port_commands [0, 0, 0] ?cs example_main = Ret () ?m"
    by (simp add: port_command_def enableRisingEdge_def enableFallingEdge_def configure_interrupt_def
        example_main_def seq_seq seq_syscall ret_def gets_def seq_def)
  have msgs: "messages [0, 0, 0] ?evs = written (int_settings_pipe ?m) (trace ?m)"
    by (simp add: written_def example_main_def pins_def)
  have inj: "inj_on ?E {..<10}" "inj_on ?V {..<10}" by (simp_all add: inj_on_def)
  have V: "\<forall>i < 10. ?V i \<noteq> 7" and evs: "\<forall>ev \<in> set ?evs. event_index ev < 10"
    and b: "length (replicate 8 (0 :: u8)) = ISET_SIZE" and t: "trace example_main = []"
    and ports: "fst ` set ?cs \<subseteq> set interrupt_ports" and p1: "P1_08 \<in> set interrupt_ports"
    by (auto simp: event_index_def ISET_SIZE_def example_main_def interrupt_ports_def)
  have p: "port_index P1_08 = 6" by (simp add: port_index_def get_pin_index_def pins_def)
  obtain s' where s': "seq (int_child_start 7 8) (\<lambda>ep. int_child_main ep 7)
        (int_child_init (start_replies 3 4 ?E ?V @ event_replies 7 ?V [0, 0, 0] (\<lambda>_. INTERRUPT_NONE) ?evs) (replicate 8 0)) = Blocked s'"
      "edges (trace s') (?E (port_index P1_08)) = Some (bytes (setting_str ! setting_nr (asked ?cs P1_08)))"
    using interrupts_at_ports [OF run t ports msgs evs inj V b p1, where wr = 8 and x = 3 and ep = 4] by blast
  have "edges (trace s') (20 + int 6) = Some (bytes ''rising'')"
    using s'(2) unfolding p by (simp add: asked_def setting_str_def)
  moreover have "count_list (fired (app (fold main_step ?sts (signal_start ?m)))) 14 = 2"
    by (simp add: signal_start_def deliver_def InterruptSignal_def nesc_disable_interrupt_def
        nesc_enable_interrupt_def example_main_def Let_def)
  ultimately show ?thesis using run s'(1) by blast
qed

section \<open>Start and end of the program\<close>

text \<open>\<open>Init.init\<close> of the Raspberry Pi; the board gap leaves the pins out. The initialisation of the
  LEDs is an argument: it belongs to whoever uses them. Each result is ignored. The initialisation of the
  interrupts returns twice, in the child with the ends of its pipe. The buffering of the
  standard output and the signal handler, which are set here, are left out.\<close>

definition platform_init :: "(error_t, 'x int_main_scheme) prog \<Rightarrow> (error_t + int \<times> int, 'x int_main_scheme) prog" where
  "platform_init leds_init =
     seq gpio_init (\<lambda>_.
     seq leds_init (\<lambda>_.
     seq int_init (\<lambda>r. ret (case r of Inl _ \<Rightarrow> Inl SUCCESS | Inr child \<Rightarrow> Inr child))))"

definition gap_init :: "(error_t, 'x int_main_scheme) prog \<Rightarrow> (error_t + int \<times> int, 'x int_main_scheme) prog" where
  "gap_init leds_init =
     seq leds_init (\<lambda>_.
     seq int_init (\<lambda>r. ret (case r of Inl _ \<Rightarrow> Inl SUCCESS | Inr child \<Rightarrow> Inr child)))"

text \<open>The handler of \<open>SIGINT\<close>; the commands of the three LEDs are an argument.\<close>

definition sigint_handler :: "(nat \<Rightarrow> (unit, 's) prog) \<Rightarrow> (unit, 's) prog" where
  "sigint_handler led_off = seq (led_off 0) (\<lambda>_. seq (led_off 1) (\<lambda>_. seq (led_off 2) (\<lambda>_. stop 0)))"

text \<open>The names of the LEDs of the board gap (\<open>PlatformLedsC.nc\<close>).\<close>

definition gap_led :: "nat \<Rightarrow> string" where
  "gap_led i = [''gap:green:usr0'', ''gap:red:usr1'', ''gap:blue:usr2''] ! i"

text \<open>The start opens the pins before it forks, so the child inherits the registers, and a start
  that returns in the main process has the write end of the pipe.\<close>

lemma platform_starts:
  assumes "script s = f # m # c # p # k # c' # rs" "\<not> failed f" "\<not> failed m" "\<not> failed p" "failed k \<or> rval k \<noteq> 0"
  shows "\<exists>s'. platform_init (ret SUCCESS) s = Ret (Inl SUCCESS) s' \<and> int_settings_pipe s' = rval2 p \<and>
    trace s' = trace s @ [(Open ''/dev/mem'', f), (Mmap (rval f) GPIO_BASE, m), (Close (rval f), c), (Pipe, p), (Fork, k),
      (Close (rval p), c')]"
  using assms by (auto simp: platform_init_def gpio_init_def int_init_def seq_seq seq_syscall ret_def seq_def modify_def)

text \<open>However the LEDs are wired, high or low for off, the handler writes that level to all three and ends
  the program with success, even when the files cannot be opened.\<close>

lemma sigint_writes_leds:
  assumes "script s = f0 # w0 # f1 # w1 # f2 # w2 # rs"
    and "off = (if high then led_set else led_clr)" "b = (if high then 49 else 48)"
    and "fd = (\<lambda>f. if failed f then -1 else rval f)"
  shows "\<exists>s'. sigint_handler (\<lambda>i. off (led_makeOutput (gap_led i))) s = Exit 0 s' \<and>
    trace s' = trace s @ [(Open ''/sys/class/leds/gap:green:usr0/brightness'', f0), (Write (fd f0) [b], w0),
      (Open ''/sys/class/leds/gap:red:usr1/brightness'', f1), (Write (fd f1) [b], w1),
      (Open ''/sys/class/leds/gap:blue:usr2/brightness'', f2), (Write (fd f2) [b], w2)]"
  using assms
  by (cases high; simp add: sigint_handler_def led_set_def led_clr_def led_write_def led_makeOutput_def gap_led_def
      seq_seq seq_syscall ret_def stop_def)

section \<open>Random numbers\<close>

text \<open>\<open>srand\<close> and \<open>rand\<close> of the C library are arguments, on a state of their own.\<close>

definition random_init :: "(u32 \<Rightarrow> 'g \<Rightarrow> 'g) \<Rightarrow> int \<Rightarrow> 'g \<Rightarrow> error_t \<times> 'g" where
  "random_init srand now g = (SUCCESS, srand (of_int now) g)"

definition seed_init :: "(u32 \<Rightarrow> 'g \<Rightarrow> 'g) \<Rightarrow> u16 \<Rightarrow> 'g \<Rightarrow> error_t \<times> 'g" where
  "seed_init srand s g = (SUCCESS, srand (ucast s) g)"

definition rand32 :: "('g \<Rightarrow> int \<times> 'g) \<Rightarrow> 'g \<Rightarrow> u32 \<times> 'g" where
  "rand32 rand g = (let (r, g') = rand g in (of_int r, g'))"

definition rand16 :: "('g \<Rightarrow> int \<times> 'g) \<Rightarrow> 'g \<Rightarrow> u16 \<times> 'g" where
  "rand16 rand g = (let (r, g') = rand g in (of_int r, g'))"

text \<open>The C library promises numbers up to \<open>RAND_MAX\<close>, which is at most the largest \<open>int\<close>: the top bit
  of the random number of 32 bits is never set.\<close>

lemma rand32_top_bit:
  assumes "0 \<le> fst (rand g)" "fst (rand g) < 2 ^ 31"
  shows "uint (fst (rand32 rand g)) = fst (rand g)" "uint (fst (rand32 rand g)) < 2 ^ 31"
  using assms by (auto simp: rand32_def uint_word_of_int_eq take_bit_int_eq_self split: prod.split)

text \<open>Both functions take one number of the same sequence, and the short one is the low half of the long one.\<close>

lemma rand16_low: "fst (rand16 rand g) = ucast (fst (rand32 rand g))" "snd (rand16 rand g) = snd (rand32 rand g)"
  by (auto simp: rand16_def rand32_def split: prod.split intro!: bit_word_eqI simp: bit_simps)

end
