(* ===== verification/ClientMain.thy ===== *)
theory ClientMain
  imports TunnelClient
begin

text \<open>
  The tunnel client from its start to its end (\<open>main\<close> of \<open>software/ipv6_tunnel/client.c\<close>): each
  stage of the start as what it does with the replies it needs, and the stages together.
\<close>

section \<open>The stages\<close>

lemma cstr_cmd_print: "NUL \<notin> set t \<Longrightarrow> length t \<le> 4095 \<Longrightarrow> cstr (cmd_print t buf) = t"
  using cstr_append_NUL [of t] by (simp add: cmd_print_def Let_def)

lemma seq_ssystem:
  "CHR ''%'' \<notin> set t \<Longrightarrow> length t \<le> 127 \<Longrightarrow> seq (ssystem t) k s =
    (case script s of [] \<Rightarrow> Blocked s | r # rs \<Rightarrow> k (rval r) (s\<lparr>script := rs, trace := trace s @ [(System t, r)]\<rparr>))"
  by (simp add: ssystem_def seq_seq seq_syscall format_noargs_plain split: list.split)

text \<open>The TUN interface: opened, named, non-blocking, up, and the default route.\<close>

lemma open_tun_run:
  assumes "script s = op # i # g # f # u # d # rs" "\<not> failed op" "\<not> failed i" "\<not> failed g"
  shows "\<exists>buf. open_tun cmdbuf s = Ret buf (s\<lparr>script := rs, tun_file := rval op, trace := trace s @
    [(Open ''/dev/net/tun'', op), (Ioctl (rval op) ''ipv6-umich'', i), (Fcntl_get (rval op), g),
     (Fcntl_set (rval op) (rval g OR O_NONBLOCK), f), (System ''ifconfig ipv6-umich up'', u),
     (System ''ip -6 route add default via fe80::1 dev ipv6-umich'', d)]\<rparr>)"
proof -
  have c: "cstr (cmd_print ''ifconfig ipv6-umich up'' buf) = ''ifconfig ipv6-umich up''"
      "cstr (cmd_print ''ip -6 route add default via fe80::1 dev ipv6-umich'' buf) =
        ''ip -6 route add default via fe80::1 dev ipv6-umich''" for buf
    by (rule cstr_cmd_print; simp)+
  show ?thesis
    using assms by (simp add: open_tun_def make_nonblocking_def seq_seq seq_syscall ret_def Let_def ifname_def c seq_ssystem)
qed

lemma read_mac_run:
  assumes "script s = f # data_reply mac # c # rs" "\<not> failed f" "length mac \<le> 128" "length (macbuf s) = 128"
  shows "read_mac s = Ret () (s\<lparr>script := rs, macbuf := mac @ drop (length mac) (macbuf s), trace := trace s @
    [(Open ''/sys/class/net/eth0/address'', f), (Read (rval f) 128, data_reply mac), (Close (rval f), c)]\<rparr>)"
  using assms by (simp add: read_mac_def seq_syscall payload_def memcpy_at_def ret_def)

lemma connect_tcp_run:
  assumes "script s = c # a # so # concat (replicate k [e, z]) @ ok # rs" "remotehost (cfg s) = Some h"
    and "\<not> failed a" "\<not> failed so" "failed e" "\<not> failed ok"
  shows "connect_tcp s = Ret 0 (s\<lparr>script := rs, tcp_socket := rval so, trace := trace s @
    [(Close (tcp_socket s), c), (Getaddrinfo h (take 5 (show_nat (unat (remoteport (cfg s))))), a), (Socket, so)] @
    concat (replicate k [(Connect (rval so), e), (Sleep 2, z)]) @ [(Connect (rval so), ok)]\<rparr>)"
proof -
  let ?s = "s\<lparr>script := concat (replicate k [e, z]) @ ok # rs, trace := trace s @
    [(Close (tcp_socket s), c), (Getaddrinfo h (take 5 (show_nat (unat (remoteport (cfg s))))), a), (Socket, so)],
    tcp_socket := rval so\<rparr>"
  have "connect_loop ?s = Ret () (?s\<lparr>script := rs, trace := trace ?s @
      concat (replicate k [(Connect (rval so), e), (Sleep 2, z)]) @ [(Connect (rval so), ok)]\<rparr>)"
    using connect_loop_retries_run [of ?s k e z ok rs] assms(5,6) by simp
  then show ?thesis using assms by (simp add: connect_tcp_def seq_syscall ret_def)
qed

text \<open>As long as the name of the server cannot be found, the client asks again.\<close>

lemma reconnect_lookups:
  assumes "failed e"
  shows "script s = concat (replicate g [c, e, z]) @ rs \<Longrightarrow> remotehost (cfg s) = Some h \<Longrightarrow>
    reconnect s = reconnect (s\<lparr>script := rs, trace := trace s @ concat (replicate g [(Close (tcp_socket s), c),
      (Getaddrinfo h (take 5 (show_nat (unat (remoteport (cfg s))))), e), (Sleep 2, z)])\<rparr>)"
proof (induction g arbitrary: s)
  case 0
  then have "s\<lparr>script := rs\<rparr> = s" by (cases s) auto
  then show ?case by simp
next
  case (Suc g)
  let ?t = "s\<lparr>script := concat (replicate g [c, e, z]) @ rs, trace := trace s @ [(Close (tcp_socket s), c),
    (Getaddrinfo h (take 5 (show_nat (unat (remoteport (cfg s))))), e), (Sleep 2, z)]\<rparr>"
  have "reconnect_round s = Ret None ?t"
    using Suc.prems assms by (simp add: reconnect_round_def connect_tcp_def seq_seq seq_syscall ret_def)
  then have "reconnect s = reconnect ?t" by (subst reconnect_unfold) simp
  also note Suc.IH [of ?t]
  finally show ?case using Suc.prems by simp
qed

lemma reconnect_done:
  assumes "connect_tcp s = Ret 0 t" "get_prefix t = Ret 0 u"
  shows "reconnect s = Ret () u"
  using assms by (subst reconnect_unfold) (simp add: reconnect_round_def ret_def)

section \<open>The start\<close>

text \<open>The whole conversation with the system up to the main loop: \<open>g\<close> times the name of the server is
  not found, \<open>k\<close> times it refuses the connection, and at last it answers with the prefix \<open>a/64\<close>.\<close>

definition hello :: "string \<Rightarrow> string" where
  "hello mac = [CHR ''{'', CHR 0x22, CHR ''I'', CHR ''d'', CHR 0x22, CHR '':'', CHR 0x22] @ take 17 mac @ [CHR 0x22, CHR ''}'']"

definition connect_talk :: "string \<Rightarrow> nat \<Rightarrow> int \<Rightarrow> nat \<Rightarrow> nat \<Rightarrow> string \<Rightarrow> string \<Rightarrow> (char call \<times> char reply) list" where
  "connect_talk h n sock g k mac answer =
     concat (replicate g [(Close (-1), err_reply 9), (Getaddrinfo h (show_nat n), err_reply 2), (Sleep 2, ok_reply 0)]) @
     [(Close (-1), err_reply 9), (Getaddrinfo h (show_nat n), ok_reply 0), (Socket, ok_reply sock)] @
     concat (replicate k [(Connect sock, err_reply 111), (Sleep 2, ok_reply 0)]) @
     [(Connect sock, ok_reply 0), (Send sock (hello mac), ok_reply 26), (Recv sock 4095, data_reply answer)]"

definition start_talk ::
  "string \<Rightarrow> nat \<Rightarrow> int \<Rightarrow> int \<Rightarrow> nat \<Rightarrow> nat \<Rightarrow> string \<Rightarrow> string \<Rightarrow> (string \<times> string) list \<Rightarrow> (char call \<times> char reply) list" where
  "start_talk h n tun sock g k mac a rest =
     [(Open ''/dev/net/tun'', ok_reply tun), (Ioctl tun ''ipv6-umich'', ok_reply 0), (Fcntl_get tun, ok_reply 2),
      (Fcntl_set tun (2 OR O_NONBLOCK), ok_reply 0), (System ''ifconfig ipv6-umich up'', ok_reply 0),
      (System ''ip -6 route add default via fe80::1 dev ipv6-umich'', ok_reply 0),
      (Open ''/sys/class/net/eth0/address'', ok_reply 5), (Read 5 128, data_reply mac), (Close 5, ok_reply 0)] @
     connect_talk h n sock g k mac (prefix_answer (a @ ''/64'') rest) @
     [(System (''ifconfig ipv6-umich inet6 add '' @ a @ ''1  ''), ok_reply 0)]"

lemma map_snd_replicate: "map snd (concat (replicate k [x, y])) = concat (replicate k [snd x, snd y])"
    "map snd (concat (replicate k [x, y, w])) = concat (replicate k [snd x, snd y, snd w])"
  by (induction k) simp_all

lemma hello_sent:
  assumes "json_id s = json_id_init" "macbuf s = mac @ drop (length mac) buf" "17 \<le> length mac" "NUL \<notin> set (take 17 mac)"
  shows "cstr (hello_buf s) = hello mac"
proof -
  have "hello_buf s = hello mac @ [NUL]"
    using assms(1-3) by (simp add: hello_buf_def hello_def json_id_init_def)
  moreover have "NUL \<notin> set (hello mac)" using assms(4) by (auto simp: hello_def)
  ultimately show ?thesis by (simp add: cstr_append_NUL)
qed

lemma port_text:
  assumes "n < 65536"
  shows "take 5 (show_nat (unat (of_nat n :: u16))) = show_nat n"
  using assms length_show_nat [of 5 n] by (simp add: unsigned_of_nat take_bit_nat_eq_self)

lemma client_init_simps [simp]:
  "script (client_init rs sb st) = rs" "trace (client_init rs sb st) = []" "tcp_socket (client_init rs sb st) = -1"
  "json_id (client_init rs sb st) = json_id_init" "prefix (client_init rs sb st) = replicate 48 NUL"
  "macbuf (client_init rs sb st) = replicate 128 NUL" "stack_buf (client_init rs sb st) = sb" "stack_tok (client_init rs sb st) = st"
  by (simp_all add: client_init_def)

lemma reconnect_start:
  assumes "script s = map snd (connect_talk h n sock g k mac (prefix_answer v rest)) @ rs"
    and "cfg s = \<lparr>remotehost = Some h, remoteport = of_nat n\<rparr>" "n < 65536" "tcp_socket s = -1"
    and "client_ok s" "json_id s = json_id_init" "macbuf s = mac @ drop (length mac) buf" "17 \<le> length mac" "NUL \<notin> set (take 17 mac)"
    and "answer_ok v rest" "v \<noteq> []" "length v < 48" "prefix s = replicate 48 NUL"
  shows "reconnect s = Ret () (s\<lparr>script := rs, trace := trace s @ connect_talk h n sock g k mac (prefix_answer v rest),
      tcp_socket := sock, json_id := hello_buf s, prefix := v @ replicate (48 - length v) NUL\<rparr>)"
proof -
  let ?no = "err_reply 2" and ?port = "take 5 (show_nat (unat (remoteport (cfg s))))"
  have port: "?port = show_nat n" using port_text [OF assms(3)] assms(2) by simp
  define qs where "qs = err_reply 9 # ok_reply 0 # ok_reply sock # concat (replicate k [err_reply 111, ok_reply 0]) @
    ok_reply 0 # ok_reply 26 # data_reply (prefix_answer v rest) # rs"
  define tr where "tr = trace s @ concat (replicate g [(Close (-1), err_reply 9), (Getaddrinfo h (show_nat n), ?no), (Sleep 2, ok_reply 0)])"
  let ?s = "s\<lparr>script := qs, trace := tr\<rparr>"
  have "script s = concat (replicate g [err_reply 9, ?no, ok_reply 0]) @ qs"
    using assms(1) by (simp add: connect_talk_def map_snd_replicate qs_def)
  then have "reconnect s = reconnect ?s"
    using reconnect_lookups [of ?no s g "err_reply 9" "ok_reply 0" qs h] assms(2,4) port by (simp add: tr_def)
  also have "reconnect ?s = Ret () (?s\<lparr>script := rs, trace := tr @
       [(Close (-1), err_reply 9), (Getaddrinfo h (show_nat n), ok_reply 0), (Socket, ok_reply sock)] @
       concat (replicate k [(Connect sock, err_reply 111), (Sleep 2, ok_reply 0)]) @
       [(Connect sock, ok_reply 0), (Send sock (hello mac), ok_reply 26),
        (Recv sock 4095, data_reply (prefix_answer v rest))],
      tcp_socket := sock, json_id := hello_buf s, prefix := v @ replicate (48 - length v) NUL\<rparr>)" (is "_ = Ret () ?u")
  proof (rule reconnect_done)
    let ?rs = "ok_reply 26 # data_reply (prefix_answer v rest) # rs"
    let ?t = "?s\<lparr>script := ?rs, tcp_socket := sock, trace := tr @
       [(Close (-1), err_reply 9), (Getaddrinfo h (show_nat n), ok_reply 0), (Socket, ok_reply sock)] @
       concat (replicate k [(Connect sock, err_reply 111), (Sleep 2, ok_reply 0)]) @ [(Connect sock, ok_reply 0)]\<rparr>"
    show "connect_tcp ?s = Ret 0 ?t"
      using connect_tcp_run [of ?s "err_reply 9" "ok_reply 0" "ok_reply sock" k "err_reply 111" "ok_reply 0" "ok_reply 0" ?rs h]
        assms(2,4) port by (simp add: qs_def)
    have hb: "hello_buf ?t = hello_buf s" by (simp add: hello_buf_def)
    have "client_ok ?t" using assms(5) by (simp add: client_ok_def)
    then show "get_prefix ?t = Ret 0 ?u"
      using get_prefix_run [of ?t v rest "ok_reply 26" rs] assms(10-13) hello_sent [OF assms(6-9)] hb by simp
  qed
  finally show ?thesis by (simp add: connect_talk_def tr_def)
qed

section \<open>Properties\<close>

definition client_file :: "string \<Rightarrow> nat \<Rightarrow> string" where
  "client_file h n = print_ini [Section ''client'', Entry ''remotehost'' h, Entry ''remoteport'' (show_nat n)]"

lemma client_start_run:
  assumes "clean_item (Entry ''remotehost'' h)" "0 < n" "n < 65536"
    and "17 \<le> length mac" "length mac \<le> 128" "NUL \<notin> set (take 17 mac)"
    and "answer_ok (a @ ''/64'') rest" "length a < 45" "CHR ''/'' \<notin> set a" "CHR ''%'' \<notin> set a" "NUL \<notin> set a"
    and "length sb = 4096" "length st = 10"
    and "s0 = client_init (map snd (start_talk h n tun sock g k mac a rest) @ rs) sb st"
  shows "\<exists>s. main (Some (client_file h n)) cmdbuf s0 = forever shuttle s \<and> script s = rs \<and>
    trace s = start_talk h n tun sock g k mac a rest \<and> tun_file s = tun \<and> tcp_socket s = sock \<and> cstr (hello_buf s) = hello mac \<and> client_ok s"
proof -
  let ?c = "connect_talk h n sock g k mac (prefix_answer (a @ ''/64'') rest)"
  let ?add = "(System (''ifconfig ipv6-umich inet6 add '' @ a @ ''1  ''), ok_reply 0) :: char call \<times> char reply"
  define s1 where "s1 = s0\<lparr>cfg := \<lparr>remotehost = Some h, remoteport = of_nat n\<rparr>\<rparr>"
  have "read_config (Some (client_file h n)) s0 = Ret () s1"
    using read_config_run [OF assms(1), of n s0] assms(2,3) by (simp add: client_file_def s1_def Let_def)
  moreover obtain buf s2 where s2: "open_tun cmdbuf s1 = Ret buf s2"
      "s2 = s1\<lparr>script := ok_reply 5 # data_reply mac # ok_reply 0 # map snd ?c @ ok_reply 0 # rs, tun_file := tun,
        trace := take 6 (start_talk h n tun sock g k mac a rest)\<rparr>"
    using open_tun_run [of s1 "ok_reply tun" "ok_reply 0" "ok_reply 2" "ok_reply 0" "ok_reply 0" "ok_reply 0"
        "ok_reply 5 # data_reply mac # ok_reply 0 # map snd ?c @ ok_reply 0 # rs" cmdbuf]
    by (auto simp: s1_def assms(14) start_talk_def)
  moreover define s3 where "s3 = s2\<lparr>script := map snd ?c @ ok_reply 0 # rs, macbuf := mac @ drop (length mac) (macbuf s2),
      trace := take 9 (start_talk h n tun sock g k mac a rest)\<rparr>"
  have "read_mac s2 = Ret () s3"
    using read_mac_run [of s2 "ok_reply 5" mac "ok_reply 0" "map snd ?c @ ok_reply 0 # rs"] assms(5)
    by (simp add: s3_def s2(2) s1_def assms(14) start_talk_def)
  moreover define s4 where "s4 = s3\<lparr>script := ok_reply 0 # rs, trace := trace s3 @ ?c,
      tcp_socket := sock, json_id := hello_buf s3, prefix := (a @ ''/64'') @ replicate (48 - length (a @ ''/64'')) NUL\<rparr>"
  have ok: "client_ok s3" "json_id s3 = json_id_init" "macbuf s3 = mac @ drop (length mac) (replicate 128 NUL)"
    using assms(5,12,13) by (simp_all add: s3_def s2(2) s1_def assms(14) client_ok_def json_id_init_def)
  have "reconnect s3 = Ret () s4" unfolding s4_def
    by (rule reconnect_start [OF _ _ assms(3) _ ok assms(4,6,7)])
      (use assms(8) in \<open>simp_all add: s3_def s2(2) s1_def assms(14)\<close>)
  moreover define s5 where "s5 = s4\<lparr>script := rs, trace := trace s4 @ [?add]\<rparr>"
  have "cstr (prefix s4) = a @ ''/64''"
    using assms(11) cstr_id [of "a @ ''/64''"] by (simp add: s4_def cstr_append cstr_id cstr_Cons)
  then have "add_address buf s4 = Ret 0 s5"
    using add_address_host [of s4 a "ok_reply 0" rs buf] assms(8-10) by (simp add: s5_def s4_def)
  ultimately have main: "main (Some (client_file h n)) cmdbuf s0 = forever shuttle s5"
    by (simp add: main_def)
  have tr: "trace s5 = start_talk h n tun sock g k mac a rest"
    by (simp add: s5_def s4_def s3_def start_talk_def)
  have hb: "hello_buf s5 = hello_buf s3" using ok by (simp add: s5_def s4_def hello_buf_def client_ok_def)
  have ok5: "client_ok s5" using ok(1) assms(8) by (simp add: s5_def s4_def client_ok_def hello_buf_def)
  have fds: "tun_file s5 = tun" "tcp_socket s5 = sock" by (simp_all add: s5_def s4_def s3_def s2(2))
  have "cstr (hello_buf s5) = hello mac" unfolding hb by (rule hello_sent [OF ok(2,3) assms(4,6)])
  then show ?thesis using main tr fds ok5 by (intro exI [of _ s5]) (simp add: s5_def)
qed

text \<open>C2. The client comes up and stays up: from a configuration file with a host and a port it sets up its
  interface, asks for the server until its name is found and it accepts the connection, sends
  the hello with its MAC address, and configures host number 1 of the prefix of the answer, by
  exactly these calls in this order. Then it is in its main loop, on these two descriptors,
  and from there on a faithful relay, whatever the system replies.\<close>

theorem client_comes_up:
  assumes "clean_item (Entry ''remotehost'' h)" "0 < n" "n < 65536"
    and "17 \<le> length mac" "length mac \<le> 128" "NUL \<notin> set (take 17 mac)"
    and "answer_ok (a @ ''/64'') rest" "length a < 45" "CHR ''/'' \<notin> set a" "CHR ''%'' \<notin> set a" "NUL \<notin> set a"
    and "length sb = 4096" "length st = 10"
    and "s0 = client_init (map snd (start_talk h n tun sock g k mac a rest) @ rs) sb st"
  shows "\<exists>s. main (Some (client_file h n)) cmdbuf s0 = forever shuttle s \<and> script s = rs \<and>
    trace s = start_talk h n tun sock g k mac a rest \<and> tun_file s = tun \<and> tcp_socket s = sock \<and> cstr (hello_buf s) = hello mac \<and>
    relayed tun (hello_buf s) (start_talk h n tun sock g k mac a rest) sock (final (main (Some (client_file h n)) cmdbuf s0))"
proof -
  obtain s where s: "main (Some (client_file h n)) cmdbuf s0 = forever shuttle s" "script s = rs" "tun_file s = tun"
      "trace s = start_talk h n tun sock g k mac a rest" "tcp_socket s = sock" "cstr (hello_buf s) = hello mac" "client_ok s"
    using client_start_run [OF assms] by blast
  have "relayed tun (hello_buf s) (trace s) sock (final (forever shuttle s))"
    by (rule wp_final [OF relay_forever]) (use s in \<open>simp add: relay_at_def\<close>)
  with s show ?thesis by auto
qed

theorem client_comes_up_witness:
  "\<exists>s. main (Some (client_file ''a.b'' 80)) [] (client_init (map snd (start_talk ''a.b'' 80 4 7 1 2 ''b8:27:eb:01:02:03'' ''fd00::'' []) @ [])
     (replicate 4096 NUL) (replicate 10 tok0)) = forever shuttle s \<and>
     last (trace s) = (System ''ifconfig ipv6-umich inet6 add fd00::1  '', ok_reply 0) \<and> tcp_socket s = 7"
proof -
  have p: "clean_item (Entry ''remotehost'' ''a.b'')" "(0::nat) < 80" "(80::nat) < 65536" by (simp_all add: isspace_def)
  have m: "17 \<le> length ''b8:27:eb:01:02:03''" "length ''b8:27:eb:01:02:03'' \<le> 128" "NUL \<notin> set (take 17 ''b8:27:eb:01:02:03'')"
    by simp_all
  have a: "answer_ok (''fd00::'' @ ''/64'') []" "length ''fd00::'' < 45" "CHR ''/'' \<notin> set ''fd00::''"
      "CHR ''%'' \<notin> set ''fd00::''" "NUL \<notin> set ''fd00::''"
    using example_answer by simp_all
  have l: "length (replicate 4096 NUL) = 4096" "length (replicate 10 tok0) = 10" by (simp_all only: length_replicate)
  from client_comes_up [OF p m a l refl, where tun = 4 and sock = 7 and g = 1 and k = 2 and rs = "[]" and cmdbuf = "[]"] show ?thesis
    by (auto simp: start_talk_def)
qed

end
