(* ===== verification/Stack.thy ===== *)
theory Stack
  imports Link SendDev
begin

text \<open>
  The link layer on the sender of the radio: the task of \<open>CC2520LinuxLinkP.nc\<close>, the main process and
  the child of \<open>CC2520LinuxSendP.nc\<close> and the pipes between them as one system that runs, try by
  try, with the results of the driver as its input.
\<close>

section \<open>The system\<close>

text \<open>What the link layer does for one try, up to the packet it passes down: the task, and the task again
  when it was put off by the timer.\<close>

definition link_work :: "link_sys \<Rightarrow> link_sys" where
  "link_work s =
     (let s = send_task SUCCESS (s\<lparr>posted := False\<rparr>)
      in if timer s = None then s
         else send_task SUCCESS ((timer_fired (s\<lparr>timer := None\<rparr>))\<lparr>posted := False\<rparr>))"

lemma link_round_work:
  "link_round b s =
     (if \<not> posted s then s
      else case sub (link_work s) of
        [] \<Rightarrow> link_work s
      | m # ms \<Rightarrow> sub_sendDone m SUCCESS ((link_work s)\<lparr>sub := ms, mem := setWasAcked m b (mem (link_work s))\<rparr>))"
  by (simp only: link_round_def link_work_def Let_def)

text \<open>The main process and the child share nothing but the pipes; the link layer and the sender share
  the memory of the main process. \<open>frames\<close> are the packets the driver got.\<close>

record node =
  lnk :: link_sys
  sender :: send_dev
  child :: send_child
  frames :: "u8 list list"

text \<open>One try with the result \<open>q\<close> of the driver. Each pipe delivers what was written to it, message by
  message. \<open>BareSend.send\<close> returns success whenever it returns, which is what the link layer is
  run with.\<close>

definition stack_round :: "int \<Rightarrow> int \<Rightarrow> int \<Rightarrow> u8 reply \<Rightarrow> node \<Rightarrow> node option" where
  "stack_round inp outp dev q N =
     (if \<not> posted (lnk N) then Some N
      else let s = link_work (lnk N) in
        case sub s of
          [] \<Rightarrow> Some (N\<lparr>lnk := s\<rparr>)
        | p # ps \<Rightarrow>
            (case bare_send p ((sender N)\<lparr>script := [ok_reply 8, ok_reply 0], trace := [], send_mem := mem s\<rparr>) of
               Ret e d \<Rightarrow>
                 (case send_child_round inp outp dev ((child N)
                     \<lparr>script := map (\<lambda>b. data_reply b) (written (cc2520_write d) (trace d)) @ [q, ok_reply 12], trace := []\<rparr>) of
                    Ret x c \<Rightarrow>
                      (case send_receiveReady (d\<lparr>script := map (\<lambda>b. data_reply b) (written outp (trace c))\<rparr>) of
                         Ret y d' \<Rightarrow>
                           (let d'' = sendDone_task d'; (m, err) = last (signalled d'')
                            in Some \<lparr>lnk = sub_sendDone m err (s\<lparr>sub := ps, mem := send_mem d''\<rparr>), sender = d'',
                                 child = c, frames = frames N @ written dev (trace c)\<rparr>)
                       | _ \<Rightarrow> None)
                  | _ \<Rightarrow> None)
             | _ \<Rightarrow> None))"

fun stack_run :: "int \<Rightarrow> int \<Rightarrow> int \<Rightarrow> u8 reply list \<Rightarrow> node \<Rightarrow> node option" where
  "stack_run inp outp dev [] N = Some N"
| "stack_run inp outp dev (q # qs) N = Option.bind (stack_round inp outp dev q N) (stack_run inp outp dev qs)"

definition node_ok :: "node \<Rightarrow> bool" where
  "node_ok N \<longleftrightarrow> length (send_hdr (sender N)) = RHDR_SIZE \<and> send_child_ok (child N)"

section \<open>One try\<close>

text \<open>A packet that is passed down reaches the driver as one frame, and the result comes back as the
  acknowledgement the link layer sees.\<close>

lemma stack_try:
  assumes ok: "node_ok N" and fds: "outp \<noteq> dev" and up: "posted (lnk N)" "sub (link_work (lnk N)) = [p]" "p < 2 ^ 32"
    and m: "sendable (mem (link_work (lnk N)) p)" "3 \<le> unat (hdr_length (mem (link_work (lnk N)) p))"
    and q: "\<not> failed q" "0 \<le> rval q" "rval q < 2 ^ 31"
    and acked: "tx_acked (rval q) (hdr_length (mem (link_work (lnk N)) p)) = Some b"
  shows "\<exists>N'. stack_round inp outp dev q N = Some N' \<and> node_ok N' \<and> lnk N' = link_round b (lnk N) \<and>
    frames N' = frames N @ [on_air (mem (link_work (lnk N)) p)]"
proof -
  let ?s = "link_work (lnk N)"
  let ?m = "mem ?s p" and ?d = "(sender N)\<lparr>script := [ok_reply 8, ok_reply 0], trace := [], send_mem := mem ?s\<rparr>"
  let ?w = "put_whdr p (hdr_length ?m)" and ?b = "tl (on_air ?m)" and ?r = "put_rhdr p (rval q) (hdr_length ?m)"
  define d where "d = ?d\<lparr>script := [], trace := [(Write (cc2520_write ?d) ?w, ok_reply 8), (Write (cc2520_write ?d) ?b, ok_reply 0)]\<rparr>"
  have send: "bare_send p ?d = Ret SUCCESS d"
    using bare_send_writes [of ?d p "ok_reply 8" "ok_reply 0" "[]"] m(1) by (simp add: d_def)
  have w: "written (cc2520_write d) (trace d) = [?w, ?b]" by (simp add: d_def written_def)
  let ?c = "(child N)\<lparr>script := [data_reply ?w, data_reply ?b, q, ok_reply 12], trace := []\<rparr>"
  have body: "?b \<noteq> []" using m length_on_air [OF m(1)] by (cases "on_air ?m") auto
  have "send_child_ok ?c" using ok by (simp add: node_ok_def send_child_ok_def)
  from child_writes [OF this m(1) up(3) _ body, of q "ok_reply 12" "[]" inp outp dev] obtain c where
    c: "send_child_round inp outp dev ?c = Ret None c" "send_child_ok c"
      "written outp (trace c) = [?r]" "written dev (trace c) = [on_air ?m]"
    using q(1) fds by (auto simp: written_def failed_def)
  define d' where "d' = d\<lparr>script := [], trace := trace d @ [(Read (cc2520_read d) RHDR_SIZE, data_reply ?r)], send_hdr := ?r, done_posted := True\<rparr>"
  have recv: "send_receiveReady (d\<lparr>script := [data_reply ?r]\<rparr>) = Ret () d'"
    using receiveReady_result [of "d\<lparr>script := [data_reply ?r]\<rparr>" p "rval q" "hdr_length ?m" "[]"] ok
    by (simp add: d'_def d_def node_ok_def)
  have r: "rhdr_ptr ?r = p" "rhdr_ret ?r = rval q" "rhdr_len ?r = hdr_length ?m"
    using rhdr_roundtrip [OF up(3), of "rval q"] q by auto
  have fin: "signalled (sendDone_task d') = signalled d @ [(p, SUCCESS)]"
      "send_mem (sendDone_task d') = setWasAcked p b (mem ?s)"
    using sendDone_signals [of d'] r acked by (simp_all add: d'_def d_def report_def)
  have hdr: "length (send_hdr (sendDone_task d')) = RHDR_SIZE"
    by (simp add: sendDone_task_def d'_def Let_def put_rhdr_def RHDR_SIZE_def)
  have "stack_round inp outp dev q N = Some \<lparr>lnk = link_round b (lnk N), sender = sendDone_task d', child = c,
      frames = frames N @ [on_air ?m]\<rparr>"
    using up(1,2) send w c recv fin by (simp add: stack_round_def link_round_work Let_def)
  then show ?thesis using hdr c(2) by (simp add: node_ok_def)
qed

section \<open>All tries\<close>

definition sent :: "ptr \<Rightarrow> link_event list \<Rightarrow> nat" where
  "sent m es = count_list es (SubSent m)"

text \<open>The work of the link layer leaves the bytes of the packet alone and passes it down at most once.\<close>

definition passes_once :: "ptr \<Rightarrow> link_sys \<Rightarrow> link_sys \<Rightarrow> bool" where
  "passes_once m s s' \<longleftrightarrow> currentMsg s' = m \<and> air (mem s' m) = air (mem s m) \<and>
     (sub s' = [] \<and> sent m (events s') = sent m (events s) \<or>
      sub s' = [m] \<and> timer s' = timer s \<and> sent m (events s') = Suc (sent m (events s)))"

lemma after_sendDone_quiet:
  "after_sendDone s = (s', w) \<Longrightarrow> currentMsg s' = currentMsg s \<and> mem s' = mem s \<and> sub s' = sub s \<and> events s' = events s \<and>
    (\<not> w \<longrightarrow> timer s' = timer s)"
  by (auto simp: after_sendDone_def Let_def split: if_splits)

lemma send_task_passes:
  assumes "sub s = []" "currentMsg s = m"
  shows "passes_once m s (send_task SUCCESS s)"
proof -
  obtain t w where t: "after_sendDone s = (t, w)" by fastforce
  from after_sendDone_quiet [OF t] assms show ?thesis
    by (simp add: send_task_def t passes_once_def sub_send_def signal_done_def sent_def Let_def setRetries_def msg_upd_def)
qed

lemma second_task_timer: "timer s = None \<Longrightarrow> state s \<noteq> STATE_SENDDONE \<Longrightarrow> timer (send_task SUCCESS s) = None"
  by (simp add: send_task_def after_sendDone_def sub_send_def signal_done_def Let_def)

lemma timer_waits:
  assumes "timer s = None" "timer (send_task SUCCESS s) \<noteq> None"
  shows "state (send_task SUCCESS s) = STATE_SENDING"
proof (cases "after_sendDone s")
  case (Pair t w)
  with assms after_sendDone_quiet [OF Pair] have w
    by (cases w) (simp_all add: send_task_def sub_send_def signal_done_def Let_def split: if_splits)
  with Pair show ?thesis
    by (auto simp: send_task_def after_sendDone_def Let_def split: if_splits)
qed

lemma link_work_passes:
  assumes "sub s = []" "timer s = None" "currentMsg s = m"
  shows "passes_once m s (link_work s)" "timer (link_work s) = None"
proof -
  let ?t = "send_task SUCCESS (s\<lparr>posted := False\<rparr>)"
  let ?u = "(timer_fired (?t\<lparr>timer := None\<rparr>))\<lparr>posted := False\<rparr>"
  have t: "passes_once m s ?t"
    using send_task_passes [of "s\<lparr>posted := False\<rparr>" m] assms by (simp add: passes_once_def)
  have w: "link_work s = (if timer ?t = None then ?t else send_task SUCCESS ?u)"
    by (simp only: link_work_def Let_def)
  have "passes_once m s (link_work s) \<and> timer (link_work s) = None"
  proof (cases "timer ?t = None")
    case False
    then have "sub ?t = []" "state ?t = STATE_SENDING"
      using t assms(2) timer_waits [of "s\<lparr>posted := False\<rparr>"] by (auto simp: passes_once_def)
    moreover from this t have "passes_once m ?u (send_task SUCCESS ?u)"
      by (intro send_task_passes) (simp_all add: timer_fired_def passes_once_def)
    moreover have "timer (send_task SUCCESS ?u) = None"
      by (rule second_task_timer) (use calculation in \<open>simp_all add: timer_fired_def state_defs\<close>)
    ultimately show ?thesis using False t assms(2) unfolding w
      by (simp add: passes_once_def timer_fired_def)
  qed (use t w in simp)
  then show "passes_once m s (link_work s)" "timer (link_work s) = None" by simp_all
qed

text \<open>While a packet is handled: \<open>f\<close> is its frame.\<close>

definition handling :: "ptr \<Rightarrow> u8 list \<Rightarrow> node \<Rightarrow> bool" where
  "handling m f N \<longleftrightarrow> node_ok N \<and> sub (lnk N) = [] \<and> timer (lnk N) = None \<and> currentMsg (lnk N) = m \<and>
     sendable (mem (lnk N) m) \<and> on_air (mem (lnk N) m) = f \<and> 2 \<le> length f"

lemma air_frame:
  "air x = air y \<Longrightarrow> hdr_length x = hdr_length y" "air x = air y \<Longrightarrow> sendable x = sendable y" "air x = air y \<Longrightarrow> on_air x = on_air y"
  by (simp_all add: hdr_length_def sendable_def on_air_def)

lemma stack_round_link:
  assumes N: "handling m f N" and fds: "outp \<noteq> dev" and m: "m < 2 ^ 32"
    and q: "\<not> failed q" "0 \<le> rval q" "rval q < 2 ^ 31" "tx_acked (rval q) (of_nat (length f + 1)) = Some b"
  shows "\<exists>N' k. stack_round inp outp dev q N = Some N' \<and> handling m f N' \<and> lnk N' = link_round b (lnk N) \<and>
    sent m (events (lnk N')) = sent m (events (lnk N)) + k \<and> frames N' = frames N @ replicate k f"
proof (cases "posted (lnk N)")
  case False
  then have "stack_round inp outp dev q N = Some N" "link_round b (lnk N) = lnk N"
    by (simp_all add: stack_round_def link_round_def)
  then show ?thesis using N by (intro exI [of _ N] exI [of _ 0]) simp
next
  case True
  let ?w = "link_work (lnk N)"
  have h: "sub (lnk N) = []" "timer (lnk N) = None" "currentMsg (lnk N) = m" using N by (auto simp: handling_def)
  note w = link_work_passes [OF h]
  have air: "air (mem ?w m) = air (mem (lnk N) m)" using w(1) by (simp add: passes_once_def)
  have f: "sendable (mem ?w m)" "on_air (mem ?w m) = f" "2 \<le> length f" "node_ok N"
    using N air_frame [OF air] by (simp_all add: handling_def)
  show ?thesis
  proof (cases "sub ?w")
    case Nil
    then have "stack_round inp outp dev q N = Some (N\<lparr>lnk := ?w\<rparr>)" "link_round b (lnk N) = ?w"
      using True by (simp_all add: stack_round_def link_round_work Let_def)
    moreover have "handling m f (N\<lparr>lnk := ?w\<rparr>)" "sent m (events ?w) = sent m (events (lnk N))"
      using f w Nil by (auto simp: handling_def passes_once_def node_ok_def)
    ultimately show ?thesis by (intro exI [of _ "N\<lparr>lnk := ?w\<rparr>"] exI [of _ 0]) simp
  next
    case (Cons p ps)
    then have s: "sub ?w = [m]" "sent m (events ?w) = Suc (sent m (events (lnk N)))"
      using w(1) by (auto simp: passes_once_def)
    have len: "unat (hdr_length (mem ?w m)) = length f + 1" using length_on_air [OF f(1)] f by (simp add: sendable_def)
    have "hdr_length (mem ?w m) = of_nat (length f + 1)" by (subst len [symmetric]) simp
    from stack_try [OF f(4) fds True s(1) m f(1) _ q(1-3), of b inp] len f(3) q(4) this obtain N' where
      N': "stack_round inp outp dev q N = Some N'" "node_ok N'" "lnk N' = link_round b (lnk N)" "frames N' = frames N @ [f]"
      using f(2) by auto
    have r: "link_round b (lnk N) = sub_sendDone m SUCCESS (?w\<lparr>sub := [], mem := setWasAcked m b (mem ?w)\<rparr>)"
      using True s(1) by (simp add: link_round_work)
    have "air (setWasAcked m b (mem ?w) m) = air (mem ?w m)" by (simp add: setWasAcked_def msg_upd_def)
    from air_frame [OF this] have "handling m f N'"
      using N'(2,3) f w by (simp add: handling_def r sub_sendDone_def passes_once_def)
    moreover have "sent m (events (lnk N')) = sent m (events (lnk N)) + 1" using N'(3) s(2) by (simp add: r sub_sendDone_def)
    ultimately show ?thesis using N' by (intro exI [of _ N'] exI [of _ 1]) simp
  qed
qed

lemma stack_run_link:
  assumes "outp \<noteq> dev" "m < 2 ^ 32"
    and "\<And>q. q \<in> set qs \<Longrightarrow> \<not> failed q \<and> 0 \<le> rval q \<and> rval q < 2 ^ 31 \<and> tx_acked (rval q) (of_nat (length f + 1)) = Some (good q)"
    and "handling m f N"
  shows "\<exists>N' k. stack_run inp outp dev qs N = Some N' \<and> lnk N' = link_run (map good qs) (lnk N) \<and>
    sent m (events (lnk N')) = sent m (events (lnk N)) + k \<and> frames N' = frames N @ replicate k f"
  using assms(3,4)
proof (induction qs arbitrary: N)
  case Nil
  then show ?case by (intro exI [of _ N] exI [of _ 0]) (simp add: link_run_def)
next
  case (Cons q qs)
  from stack_round_link [OF Cons.prems(2) assms(1,2), of q "good q" inp] Cons.prems(1) [of q]
  obtain N1 j where 1: "stack_round inp outp dev q N = Some N1" "handling m f N1" "lnk N1 = link_round (good q) (lnk N)"
      "sent m (events (lnk N1)) = sent m (events (lnk N)) + j" "frames N1 = frames N @ replicate j f" by auto
  from Cons.IH [OF Cons.prems(1) 1(2)] obtain N2 k where
    2: "stack_run inp outp dev qs N1 = Some N2" "lnk N2 = link_run (map good qs) (lnk N1)"
      "sent m (events (lnk N2)) = sent m (events (lnk N1)) + k" "frames N2 = frames N1 @ replicate k f" by auto
  show ?case
    using 1 2 by (intro exI [of _ N2] exI [of _ "j + k"]) (simp add: link_run_Cons replicate_add)
qed

section \<open>Properties\<close>

text \<open>What the driver says of a try: acknowledged, or not. For the other results the sender leaves the
  acknowledgement of the buffer as it was before.\<close>

definition answers :: "u8 \<Rightarrow> u8 reply \<Rightarrow> bool" where
  "answers len q \<longleftrightarrow> \<not> failed q \<and>
     rval q \<in> {CC2520_TX_SUCCESS, uint len - 1, CC2520_TX_BUSY, CC2520_TX_ACK_TIMEOUT, CC2520_TX_FAILED}"

definition good :: "u8 \<Rightarrow> u8 reply \<Rightarrow> bool" where
  "good len q \<longleftrightarrow> rval q = CC2520_TX_SUCCESS \<or> rval q = uint len - 1"

lemma answers_acked:
  assumes "answers len q" "3 \<le> unat len" "unat len < 253"
  shows "\<not> failed q" "0 \<le> rval q" "rval q < 2 ^ 31" "tx_acked (rval q) len = Some (good len q)"
proof -
  have "3 \<le> uint len" "uint len < 253" using assms(2,3) by (simp_all only: uint_nat)
  with assms(1) show "\<not> failed q" "0 \<le> rval q" "rval q < 2 ^ 31" "tx_acked (rval q) len = Some (good len q)"
    by (auto simp: answers_def good_def tx_acked_def tx_defs)
qed

text \<open>C4. A packet from the link layer over the radio and back: the link layer, the two processes of the sender
  and the pipes between them give the driver the packet as the same frame, with the request for
  an acknowledgement in it when there is more than one try, until the driver reports an
  acknowledgement or the tries are used up, exactly that often, and then report it once with
  the right result.\<close>

theorem stack_delivers:
  assumes "link_reach False s" "state s = STATE_READY" "n = getRetries (mem s) m" "m < 2 ^ 32" "message_ok (mem s m)"
    and "len = hdr_length (mem s m)" "3 \<le> unat len" "unat len < 253" "unat len \<le> length (air (mem s m))"
    and "node_ok N" "outp \<noteq> dev" "lnk N = snd (link_send m s)" "frames N = []"
    and "\<And>q. q \<in> set qs \<Longrightarrow> answers len q" "max 1 (unat n) < length qs"
    and "acked = (if n = 0 then good len (hd qs) else \<exists>q \<in> set (take (unat n) qs). good len q)"
    and "k = (if n = 0 then 1 else if acked then Suc (length (takeWhile (\<lambda>q. \<not> good len q) qs)) else unat n)"
  shows "\<exists>N'. stack_run inp outp dev qs N = Some N' \<and> state (lnk N') = STATE_READY \<and>
    events (lnk N') = events s @ Accepted m n # replicate k (SubSent m) @ [Done m (if n = 0 \<or> acked then SUCCESS else FAIL) acked] \<and>
    frames N' = replicate k (on_air (if n = 0 then mem s m else snd (requestAck m (mem s)) m))"
proof -
  let ?h = "if n = 0 then mem s else snd (requestAck m (mem s))"
  let ?f = "on_air (?h m)"
  have l: "lnk N = s\<lparr>mem := ?h, currentMsg := m, totalRetries := 0, state := STATE_SENDING, posted := True,
      events := events s @ [Accepted m n]\<rparr>"
    using assms(2,3,12) by (auto simp: link_send_def Let_def word_gt_0 pm.laws)
  have "under_way s" by (rule link_reach_under_way [OF assms(1)])
  then have idle: "sub s = []" "timer s = None" using assms(2) by (simp_all add: under_way_def)
  have requested: "\<exists>v. snd (requestAck m (mem s)) m = set_fcf v (mem s m)" by (auto simp: requestAck_def msg_upd_def)
  have air: "length (air (?h m)) = length (air (mem s m))" "air (?h m) ! 0 = air (mem s m) ! 0"
    using requested by (auto simp: set_fcf_rest)
  have ok: "sendable (?h m)" "hdr_length (?h m) = len"
    using air assms(6,7,9) by (auto simp: sendable_def hdr_length_def)
  have lf: "length ?f = unat len - 1" using length_on_air [OF ok(1)] unfolding ok(2) .
  then have "length ?f + 1 = unat len" using assms(7) by linarith
  then have ll: "of_nat (length ?f + 1) = len" by simp
  have "handling m ?f N"
    using assms(10) l idle ok(1) lf assms(7) by (simp add: handling_def)
  from stack_run_link [OF assms(11,4) _ this, of qs "good len" inp] answers_acked [OF assms(14) assms(7,8)]
  obtain N' j where N': "stack_run inp outp dev qs N = Some N'" "lnk N' = link_run (map (good len) qs) (lnk N)"
      "sent m (events (lnk N')) = sent m (events (lnk N)) + j" "frames N' = replicate j ?f"
    unfolding ll using assms(13) by auto
  have "hd (map (good len) qs) = good len (hd qs)" using assms(15) by (cases qs) auto
  then have a: "acked = (if n = 0 then hd (map (good len) qs) else True \<in> set (take (unat n) (map (good len) qs)))"
    using assms(16) by (auto simp: take_map)
  have "length (takeWhile Not (map (good len) qs)) = length (takeWhile (\<lambda>q. \<not> good len q) qs)"
    by (simp add: takeWhile_map comp_def)
  with link_delivers_run [OF assms(1-3), of "map (good len) qs" acked k] a assms(15,17) N'(2) assms(12)
  have fin: "state (lnk N') = STATE_READY" "events (lnk N') = events s @ Accepted m n # replicate k (SubSent m) @
      [Done m (if n = 0 \<or> acked then SUCCESS else FAIL) acked]"
    by (simp_all add: Let_def)
  have "count_list (replicate k (SubSent m)) (SubSent m) = k" by (induction k) simp_all
  then have "j = k" using N'(3) fin(2) l by (simp add: sent_def)
  with N' fin show ?thesis by (auto split: if_splits)
qed

text \<open>Two tries: the first is not acknowledged, the second is.\<close>

definition example_node :: node where
  "example_node = \<lparr>lnk = snd (link_send 64 (link_init (\<lambda>_. blank\<lparr>max_retries := 2, air := [5, 0x41, 0x88, 1, 9, 0, 0]\<rparr>))),
     sender = example_dev [], child = example_child [], frames = []\<rparr>"

theorem stack_delivers_witness:
  "\<exists>N'. stack_run 7 8 9 [ok_reply CC2520_TX_ACK_TIMEOUT, ok_reply CC2520_TX_SUCCESS, ok_reply 4] example_node = Some N' \<and>
     frames N' = [[5, 0x61, 0x88, 1], [5, 0x61, 0x88, 1]] \<and> last (events (lnk N')) = Done 64 SUCCESS True"
proof -
  let ?h = "(\<lambda>_. blank\<lparr>max_retries := 2, air := [5, 0x41, 0x88, 1, 9, 0, 0]\<rparr>) :: heap"
  let ?s = "link_init ?h" and ?qs = "[ok_reply CC2520_TX_ACK_TIMEOUT, ok_reply CC2520_TX_SUCCESS, ok_reply 4] :: u8 reply list"
  have s: "link_reach False ?s" "state ?s = STATE_READY" "2 = getRetries (mem ?s) 64" "(64 :: nat) < 2 ^ 32" "message_ok (mem ?s 64)"
      "5 = hdr_length (mem ?s 64)" "3 \<le> unat (5 :: u8)" "unat (5 :: u8) < 253" "unat (5 :: u8) \<le> length (air (mem ?s 64))"
    by (rule link_reach.init) (simp_all add: link_init_def getRetries_def message_ok_def hdr_length_def)
  have N: "node_ok example_node" "(8 :: int) \<noteq> 9" "lnk example_node = snd (link_send 64 ?s)" "frames example_node = []"
    by (simp_all add: example_node_def node_ok_def example_dev_def example_child_def send_child_ok_def
        WHDR_SIZE_def RHDR_SIZE_def PACKET_BUFFER_LEN_def)
  have q: "\<And>q. q \<in> set ?qs \<Longrightarrow> answers 5 q" "max 1 (unat (2 :: u16)) < length ?qs"
    by (auto simp: answers_def tx_defs)
  have a: "True = (if (2 :: u16) = 0 then good 5 (hd ?qs) else \<exists>q \<in> set (take (unat (2 :: u16)) ?qs). good 5 q)"
      "2 = (if (2 :: u16) = 0 then 1 else if True then Suc (length (takeWhile (\<lambda>q. \<not> good 5 q) ?qs)) else unat (2 :: u16))"
    by (simp_all add: good_def tx_defs)
  have f: "on_air (snd (requestAck 64 (mem ?s)) 64) = [5, 0x61, 0x88, 1]"
    by (simp add: on_air_def requestAck_def msg_upd_def set_fcf_def fcf_def link_init_def hdr_length_def IEEE154_FCF_ACK_REQ_def)
  from stack_delivers [OF s N q a, of 7] f show ?thesis by (auto simp: numeral_2_eq_2)
qed

end
