(* ===== verification/Spec2Isabelle.thy ===== *)
theory Spec2Isabelle
  imports TunnelClient SendDev RecvDev Radio Timers IOManager Interrupts Gpio Border
    Sockets CommandLine Rfid Tun Readers MainLoop Eui64 Board
    ClientMain Stack
begin

text \<open>
  A verification library of the Linux side of the raspberrypi-cc2520 repository: the TinyOS
  components that make a Raspberry Pi with a CC2520 radio a node or a border router of a 6LoWPAN
  network, and the tunnel client that connects such a border router to the IPv6 internet. Paths
  below are relative to \<open>src/\<close>; \<open>tos\<close> is \<open>tinyos/tos\<close>.

  \<^bold>\<open>The parts and how they work together.\<close> An application hands a packet to the radio
  (\<open>CC2520LinuxRadioP\<close>), which numbers it and sets its length; the link layer
  (\<open>CC2520LinuxLinkP\<close>) repeats it until it is acknowledged; the sender (\<open>CC2520LinuxSendP\<close>) writes
  it into a pipe, from which a child process moves it to the kernel driver and the result back.
  The receiver (\<open>CC2520LinuxReceiveP\<close>) has a child for the other direction. The main loop sleeps in
  \<open>select\<close> (\<open>IOManagerP\<close>, \<open>McuSleepP\<close>) on the descriptors of all components and calls
  \<open>IO.receiveReady\<close> of the ready ones; signals stand for interrupts and atomic sections mask them
  (\<open>linux_atomic.h\<close>). The border router passes packets between the radio and Linux through a TUN
  device (\<open>TunP\<close>) and strips the hop-by-hop header of those that leave (\<open>RplBorderRouterP\<close>). The
  tunnel client (\<open>software/ipv6_tunnel/client.c\<close>) moves packets between such a device and a TCP
  connection to a server, which tells it the prefix of the network.

  \<^bold>\<open>Theories.\<close>
  \<^item> \<open>Prelude\<close>: widths, error codes, C arrays and strings with their bounds, and what \<open>select\<close> leaves
    in its set (\<open>select_bit\<close>).
  \<^item> \<open>Posix\<close>: the operating system as a script of replies and a trace of calls; programs, their
    weakest preconditions, loops without an end; \<open>file_helpers.c\<close> and \<open>ssystem\<close>.
  \<^item> \<open>Jsmn\<close> (\<open>lib/jsmn/jsmn.c\<close>) and \<open>Ini\<close> (\<open>lib/ini/ini.c\<close>): the two parsers of the client, one
    definition per function and per loop.
  \<^item> \<open>TunnelClient\<close> (\<open>client.c\<close>): every function of the client, on a record of its global variables.
  \<^item> \<open>ClientMain\<close> (\<open>main\<close> of \<open>client.c\<close>): the stages of the start of the client one by one, and together
    as one conversation with the system.
  \<^item> \<open>Message\<close>: the packet buffer \<open>message_t\<close> (\<open>CC2520LinuxRadio.h\<close>), the metadata and packet
    interfaces over a memory of buffers, and the locale \<open>packet_metadata\<close> of what the link layer
    needs of them.
  \<^item> \<open>Link\<close> (\<open>CC2520LinuxLinkP.nc\<close>): state, task and commands, the step relation \<open>link_step\<close> of the
    layer between its users and the radio, the same steps with what can be observed of them
    (\<open>link_hist\<close>), a monitor of these observations (\<open>lmon_run\<close>), and the locale \<open>bare_sender\<close> of the layer below.
  \<^item> \<open>SendDev\<close>, \<open>RecvDev\<close> (\<open>CC2520LinuxSendP.nc\<close>, \<open>CC2520LinuxReceiveP.nc\<close>): main process and child.
  \<^item> \<open>Stack\<close>: the link layer, both processes of the sender and their pipes as one system, which takes
    the results of the driver one by one (\<open>stack_round\<close>).
  \<^item> \<open>Radio\<close> (\<open>CC2520LinuxRadioP.nc\<close>, \<open>CC2520LinuxDriver.h\<close>): starting, addresses, low power
    listening, framing.
  \<^item> \<open>Timers\<close>: alarm, clocks and busy wait (\<open>chips/linux/timer\<close>, \<open>time\<close>, \<open>BusyWaitMicroP.nc\<close>).
  \<^item> \<open>IOManager\<close>: \<open>IOManagerP.nc\<close>, \<open>linux_atomic.h\<close>, \<open>McuSleepP.nc\<close>.
  \<^item> \<open>Interrupts\<close>, \<open>Gpio\<close>: \<open>Bcm2835InterruptP.nc\<close>, \<open>HplBcm2835GeneralIOP.nc\<close>.
  \<^item> \<open>Border\<close>: \<open>RplBorderRouterP.nc\<close>, \<open>DumpHopHopP.nc\<close>, \<open>BorderP.nc\<close>, \<open>BRConfigP.nc\<close>.
  \<^item> \<open>Sockets\<close>: \<open>PersistentTcpConnectionP.nc\<close> with the steps of its life and how the connection
    stands by its calls (\<open>conn\<close>), and \<open>LinuxUdpSocketP.nc\<close>.
  \<^item> \<open>CommandLine\<close>: \<open>CommandLineP.nc\<close> and \<open>apps/BorderRouter/TunNameP.nc\<close>.
  \<^item> \<open>Rfid\<close>: the serial port \<open>UartP.nc\<close> and the tag reader \<open>IDrfidP.nc\<close> on it.
  \<^item> \<open>Tun\<close>: \<open>TunP.nc\<close> and the LEDs \<open>LinuxLedP.nc\<close>.
  \<^item> \<open>Readers\<close>: the contract \<open>reader\<close> of \<open>IO.receiveReady\<close>, with its extension \<open>safe_reader\<close>, and
    the five components that keep it.
  \<^item> \<open>MainLoop\<close>: what \<open>IOManagerP\<close> keeps while a component registers and unregisters descriptors,
    and the locale \<open>woken_reader\<close>, by which a component that has started is woken by its input.
  \<^item> \<open>Eui64\<close> (\<open>platforms/gap/LocalIeeeEui64C.nc\<close>): the identifier of a node from its MAC address.
  \<^item> \<open>Board\<close>: header pins (\<open>gpio.h\<close>) and ports, the interrupts of a port through both processes and
    the signal between them, which the kernel keeps once while it is blocked (\<open>main_step\<close>),
    \<open>PlatformP.nc\<close> of both boards, and \<open>RandomLinuxP.nc\<close>.
  \<^item> this theory: properties of several layers together, up to the packet that goes from the
    application of one node to that of another, and the packet that goes from the radio network
    through the border router to Linux.

  \<^bold>\<open>State and effects.\<close> A component's variables are the fields of a record; where it calls the
  system, the record extends \<open>os\<close>. A posted task and a started timer are fields, and what a
  component signals upwards is appended to one. A command that cannot fail and makes no system
  call is a function on the state; one that reads memory by index is an option; all others are
  programs. Integers that wrap in the code are words.

  \<^bold>\<open>What the lemmas show.\<close> Of the parsers: termination, that every access
  is inside its array, that reading what was printed gives what was printed, and which lines
  of a configuration are errors, said of their text. Of the
  client: it comes up by the calls it should make and from then on packets go through once and
  in order, whatever the system replies. Of the link layer: each packet accepted is reported
  exactly once, with the result and the number of tries it should have, cancelled exactly when it
  was cancelled, also when it runs on the real sender. Of the radio stack: the bytes the driver gets are the ones the application
  wrote, with length and number. Of the main loop: a started component is woken exactly by its
  descriptor, a TCP connection by its socket as long as it is up, and descriptors beyond a byte by
  another one or not at all. Of pins and interrupts: refinements of a specification per pin, the
  settings the ports asked for, and for every interrupt that it is fired once at its port, is
  held while the signal is blocked, or is dropped because another one was held. Of sockets, command line, serial port and TUN device:
  functional behaviour, and the places where the code does something else than it means to;
  those are listed as findings beside the theorem that shows them.

  \<^bold>\<open>Bounds.\<close> A loop \<open>while (1)\<close> is \<open>forever\<close>. Each of its rounds makes a system call, so the length of
  the script bounds the rounds, and \<open>forever_unfold\<close> shows that the bound never ends the loop; the
  loops of \<open>tcp_send\<close> and \<open>udp_build_packet\<close> are bounded in the same way (\<open>tcp_send_rounds_returns\<close>).
  The loops of the parsers end by measures, or by the length of the text, and need no bound.
  Positions in the text of the JSON parser are natural numbers where the code has 32-bit ones: the
  client parses at most 4096 bytes.

  \<^bold>\<open>Not modelled.\<close> Terminal output and the debug macros; the kernel, the driver of the radio, the IP
  stack and the tree routing, which are not in the repository (their replies are the script, their
  functions arguments; of \<open>select\<close>, signals and \<open>MSG_MORE\<close> the manual pages are followed, and what they
  leave open, such as the data a failed \<open>sendto\<close> leaves behind, is left open); the signal a child gets at the death of its parent; the SPI drivers and
  the pins of the am3358, whose code is commented out or names modules that do not exist;
  board constants that nothing modelled uses, wiring and interfaces, beyond the ports of the pins; the
  example applications and tests; the older active message stack beyond its packet and numbering
  layers, whose header files are missing; and the server in Go, the Python scripts and the hardware
  files, which are other languages. The copy of the INI reader under \<open>tinyos/support\<close>, which the
  border router uses, is the same file as the one of the client and has no model of its own.
\<close>

section \<open>The radio stack\<close>

text \<open>What the buffer holds after \<open>CC2520LinuxRadioP\<close> passed it down.\<close>

lemma radio_send_on_air:
  assumes m: "message_ok (radio_mem s m)" and len: "1 \<le> unat len" "unat len < 255"
    and fits: "unat len + 1 \<le> length (air (radio_mem s m))"
  shows "sendable (radio_mem (radio_send m len s) m) \<and>
    on_air (radio_mem (radio_send m len s) m) =
      take (unat len) ((air (radio_mem s m))[0 := len + 1, 3 := sequence_number s])"
proof -
  have "unat len + 1 < 2 ^ LENGTH(8)" using len by simp
  then have u: "unat (len + 1) = unat len + 1" by (simp add: unat_word_ariths)
  have h: "hdr_length (radio_mem (radio_send m len s) m) = len + 1"
    using m by (simp add: radio_send_def)
  have a: "air (radio_mem (radio_send m len s) m) = (air (radio_mem s m))[0 := len + 1, 3 := sequence_number s]"
    by (simp add: radio_send_def set_dsn_def set_hdr_length_def)
  show ?thesis using len fits by (simp add: sendable_def on_air_def h a u)
qed

section \<open>Properties across components\<close>

lemma stack_transmits:
  assumes "message_ok (radio_mem s m)" "m < 2 ^ 32" "2 \<le> unat len" "unat len < 255"
    and "unat len + 1 \<le> length (air (radio_mem s m))"
    and "send_mem d = radio_mem (radio_send m len s)" "script d = r1 # r2 # rs" "send_child_ok c"
    and "script c = data_reply (put_whdr m (len + 1)) # data_reply (tl (on_air (send_mem d m))) # q # r # cs"
  shows "\<exists>d' c' pkt. bare_send m d = Ret SUCCESS d' \<and>
    map fst (trace d') = map fst (trace d) @ [Write (cc2520_write d) (put_whdr m (len + 1)), Write (cc2520_write d) (tl pkt)] \<and>
    send_child_round inp outp dev c = Ret None c' \<and> Write dev pkt \<in> set (map fst (trace c')) \<and>
    pkt = take (unat len) ((air (radio_mem s m))[0 := len + 1, 3 := sequence_number s])"
proof -
  have on: "sendable (send_mem d m)"
      "on_air (send_mem d m) = take (unat len) ((air (radio_mem s m))[0 := len + 1, 3 := sequence_number s])"
    using radio_send_on_air [OF assms(1) _ assms(4,5)] assms(3,6) by simp_all
  have h: "hdr_length (send_mem d m) = len + 1" using assms(1,6) by (simp add: radio_send_def)
  have "length (tl (on_air (send_mem d m))) = unat len - 1" using assms(5) by (simp add: on(2))
  then have "0 < length (tl (on_air (send_mem d m)))" using assms(3) by linarith
  then have ne: "tl (on_air (send_mem d m)) \<noteq> []" by (simp only: length_greater_0_conv not_False_eq_True)
  from child_writes [OF assms(8) on(1) assms(2), of q r cs inp outp dev] assms(9) h ne
  obtain c' where "send_child_round inp outp dev c = Ret None c'" "Write dev (on_air (send_mem d m)) \<in> set (map fst (trace c'))"
    by auto
  with bare_send_writes [OF on(1) assms(7)] h on(2) show ?thesis by auto
qed

text \<open>The other way: a frame that the driver of the receiving node delivers for a packet.\<close>

lemma stack_receives:
  assumes pkt: "length pkt = unat len" "pkt \<noteq> []" "pkt ! 0 = len + 1" "unat len < 254"
    and f: "f = driver_frame (tl pkt) rs c" and crc: "bit c 7"
    and fits: "unat len + 2 \<le> length (air (rx_mem b (rx_ptr b)))"
    and scr: "script b = data_reply [hd f] # data_reply (tl f) # qs"
  shows "\<exists>b1 b2 m. recv_receiveReady b = Ret () b1 \<and> receive_task now up b1 = Some b2 \<and>
    received b2 = received b @ [(rx_ptr b, m)] \<and> rx_mem b2 (rx_ptr b) = m \<and> rx_ptr b2 = up (rx_ptr b) \<and>
    take (unat len) (air m) = pkt \<and> radio_receive_len (rx_mem b2) (rx_ptr b) = len"
proof -
  have body: "length (tl pkt) + 3 = unat len + 2" "length (tl pkt) + 2 < 256" "length (tl pkt) + 2 = Suc (unat len)"
    using pkt by (cases pkt; simp)+
  have "(of_nat (Suc (unat len)) :: u8) = len + 1" by (simp add: add.commute)
  then have frame: "f = pkt @ [rs, c]"
    using pkt(2,3) body(3) f by (cases pkt) (simp_all add: driver_frame_def)
  have first: "(pkt @ xs) ! 0 = len + 1" for xs using pkt(2,3) by (cases pkt) simp_all
  obtain b1 where b1: "recv_receiveReady b = Ret () b1" "rx_ptr b1 = rx_ptr b" "received b1 = received b"
    "rx_mem b1 = msg_upd (rx_ptr b) (air_update (\<lambda>a. f @ drop (length f) a)) (rx_mem b)"
    using receiveReady_frame [OF fits [folded body(1)] body(2) f scr] by blast
  then have a: "air (rx_mem b1 (rx_ptr b1)) = driver_frame (tl pkt) rs c @ drop (length f) (air (rx_mem b (rx_ptr b)))"
    by (simp add: f)
  have c: "drop_bit 7 c \<noteq> 0" using crc by (simp add: top_bit_u8)
  from receive_task_frame [OF a body(2), of now up] c b1 pkt(1) frame first show ?thesis
    by (auto simp: Let_def metadata_defs msg_upd_def radio_receive_len_def hdr_length_def)
qed

text \<open>C5. From the application of one node to that of another: a packet of \<open>len\<close> bytes that is handed
  to the radio arrives at the driver, through the pipe and the child process, as exactly \<open>len\<close>
  bytes: the length byte (which counts the CRC), the next sequence number in its place, and all
  other bytes as the application wrote them. When the driver of another node delivers the frame
  of this packet with a good CRC, that node's child and main process hand it up once, with the
  same bytes and the same length.\<close>

theorem node_to_node:
  assumes "message_ok (radio_mem s m)" "m < 2 ^ 32" "2 \<le> unat len" "unat len < 254"
    and "unat len + 1 \<le> length (air (radio_mem s m))"
    and "send_mem d = radio_mem (radio_send m len s)" "script d = r1 # r2 # rs" "send_child_ok c"
    and "script c = data_reply (put_whdr m (len + 1)) # data_reply (tl (on_air (send_mem d m))) # q # r # cs"
    and "pkt = take (unat len) ((air (radio_mem s m))[0 := len + 1, 3 := sequence_number s])"
    and "f = driver_frame (tl pkt) rssi_byte crc_lqi" "bit crc_lqi 7"
    and "script e = data_reply f # r' # es" "script b = data_reply [hd f] # data_reply (tl f) # bs"
    and "unat len + 2 \<le> length (air (rx_mem b (rx_ptr b)))"
  shows "(\<exists>d' c'. bare_send m d = Ret SUCCESS d' \<and>
      map fst (trace d') = map fst (trace d) @ [Write (cc2520_write d) (put_whdr m (len + 1)), Write (cc2520_write d) (tl pkt)] \<and>
      send_child_round inp outp dev c = Ret None c' \<and> Write dev pkt \<in> set (map fst (trace c'))) \<and>
    (\<exists>e' b1 b2 m'. recv_child_round dev2 outp2 e = Ret None e' \<and> trace e' = trace e @ [(Read dev2 256, data_reply f), (Write outp2 f, r')] \<and>
      recv_receiveReady b = Ret () b1 \<and> receive_task now up b1 = Some b2 \<and> received b2 = received b @ [(rx_ptr b, m')] \<and>
      take (unat len) (air m') = pkt \<and> radio_receive_len (rx_mem b2) (rx_ptr b) = len)"
proof -
  have pkt: "length pkt = unat len" "pkt \<noteq> []" "pkt ! 0 = len + 1"
    using assms(3,5) unfolding assms(10) by (cases "air (radio_mem s m)"; auto)+
  have f: "f \<noteq> []" "length f \<le> 256" using assms(4,11) pkt(1) by (simp_all add: driver_frame_def)
  from assms(4) have len: "unat len < 255" by simp
  note sent = stack_transmits [OF assms(1-3) len assms(5-9), of inp outp dev, folded assms(10)]
  note got = stack_receives [OF pkt assms(4,11,12,15,14), of now up]
  from child_copies [OF assms(13) f, of dev2 outp2] sent got show ?thesis by auto
qed

definition example_radio :: radio where
  "example_radio = (radio_init 22 (\<lambda>_. blank\<lparr>air := [0, 0x41, 0x88, 0, 10, 11, 12]\<rparr>))\<lparr>sequence_number := 9\<rparr>"

theorem node_to_node_witness:
  "\<exists>c' b1 b2 m'. send_child_round 7 8 9 (example_child [data_reply (put_whdr 64 7), data_reply [0x41, 0x88, 9, 10, 11], ok_reply 0, ok_reply 12]) = Ret None c' \<and>
     Write 9 [7, 0x41, 0x88, 9, 10, 11] \<in> set (map fst (trace c')) \<and>
     recv_receiveReady (example_recv [data_reply [7], data_reply [0x41, 0x88, 9, 10, 11, 30, 0x85]]) = Ret () b1 \<and>
     receive_task 1000 (\<lambda>p. p) b1 = Some b2 \<and> received b2 = [(3, m')] \<and> take 6 (air m') = [7, 0x41, 0x88, 9, 10, 11]"
proof -
  let ?d = "(example_dev [ok_reply 8, ok_reply 5])\<lparr>send_mem := radio_mem (radio_send 64 6 example_radio)\<rparr>"
  let ?c = "example_child [data_reply (put_whdr 64 7), data_reply [0x41, 0x88, 9, 10, 11], ok_reply 0, ok_reply 12]"
  let ?f = "[7, 0x41, 0x88, 9, 10, 11, 30, 0x85]"
  let ?e = "example_child [data_reply ?f, ok_reply 8]"
  let ?b = "example_recv [data_reply [7], data_reply (tl ?f)]"
  have r: "message_ok (radio_mem example_radio 64)" "air (radio_mem example_radio 64) = [0, 0x41, 0x88, 0, 10, 11, 12]"
      "sequence_number example_radio = 9"
    by (simp_all add: example_radio_def radio_init_def message_ok_def)
  have on: "on_air (radio_mem (radio_send 64 6 example_radio) 64) = [7, 0x41, 0x88, 9, 10, 11]"
    using radio_send_on_air [OF r(1), of 6] r by simp
  have d: "send_mem ?d = radio_mem (radio_send 64 6 example_radio)" "script ?d = ok_reply 8 # ok_reply 5 # []"
    by (simp_all add: example_dev_def)
  have c: "send_child_ok ?c" "script ?c = data_reply (put_whdr 64 (6 + 1)) # data_reply (tl (on_air (send_mem ?d 64))) # ok_reply 0 # ok_reply 12 # []"
    by (simp_all add: example_child_def send_child_ok_def WHDR_SIZE_def PACKET_BUFFER_LEN_def on)
  have p: "[7, 0x41, 0x88, 9, 10, 11] = take (unat (6 :: u8)) ((air (radio_mem example_radio 64))[0 := 6 + 1, 3 := sequence_number example_radio])"
    by (simp add: r)
  have f: "?f = driver_frame (tl [7, 0x41, 0x88, 9, 10, 11]) 30 0x85" "bit (0x85 :: u8) 7"
    by (simp_all add: driver_frame_def bit_numeral_rec)
  have e: "script ?e = data_reply ?f # ok_reply 8 # []" "script ?b = data_reply [hd ?f] # data_reply (tl ?f) # []"
      "unat (6 :: u8) + 2 \<le> length (air (rx_mem ?b (rx_ptr ?b)))" "rx_ptr ?b = 3" "received ?b = []"
    by (simp_all add: example_child_def example_recv_def blank_def)
  have n: "(64 :: nat) < 2 ^ 32" "2 \<le> unat (6 :: u8)" "unat (6 :: u8) < 254" "unat (6 :: u8) + 1 \<le> length (air (radio_mem example_radio 64))"
    by (simp_all add: r)
  from node_to_node [OF r(1) n d c p f e(1-3), of 7 8 9 0 0 1000 "\<lambda>p. p"] e(4,5) show ?thesis by fastforce
qed

text \<open>C31. A packet that never left can be reported as sent: the acknowledgement flag of a buffer is
  not cleared when it is sent, and a result the sender does not know (such as the -1 of a
  failed write, or the length error of the driver) leaves it. With a buffer that was
  acknowledged before, the link layer then reports success at the first try.\<close>

theorem refused_packet_reported_sent:
  assumes "link_reach False s" "state s = STATE_SENDDONE" "sub s = [m]" "currentMsg s = m" "wasAcked (mem s) m"
    and "send_mem d = mem s" "rhdr_ptr (send_hdr d) = m"
    and "rhdr_ret (send_hdr d) = -1 \<or> rhdr_ret (send_hdr d) = CC2520_TX_LENGTH" "2 \<le> uint (rhdr_len (send_hdr d))"
    and "uint (rhdr_len (send_hdr d)) < 254"
    and "s1 = sub_sendDone m SUCCESS (s\<lparr>sub := [], mem := send_mem (sendDone_task d)\<rparr>)"
    and "s2 = send_task r (s1\<lparr>posted := False\<rparr>)"
  shows "link_reach False s2 \<and> events s2 = events s @ [Done m SUCCESS True]"
proof -
  have none: "tx_acked (rhdr_ret (send_hdr d)) (rhdr_len (send_hdr d)) = None"
    using assms(8-10) by (auto simp: tx_acked_def tx_defs)
  then have mem: "send_mem (sendDone_task d) = mem s"
    using sendDone_signals [of d] assms(6) by (simp add: report_def)
  have "radio_sender.completed d = m"
    using sendDone_signals [of d] assms(7) by (simp add: radio_sender.completed_def)
  then have "link_step False s s1"
    using radio_sender.completion_step [of s d "[]" False] assms(3,6,11) by simp
  then have reach: "link_reach False s1" using assms(1) by (rule link_reach.step [rotated])
  moreover have p: "posted s1" by (simp add: assms(11) sub_sendDone_def)
  ultimately have "link_reach False s2" unfolding assms(12) by (rule link_reach_task)
  moreover have "events s2 = events s @ [Done m SUCCESS True]"
    using assms(2,4,5)
    by (simp add: assms(11,12) mem send_task_def after_sendDone_def sub_sendDone_def signal_done_def
        state_defs Let_def pm.laws)
  ultimately show ?thesis by simp
qed

text \<open>A packet with five tries in a buffer that was acknowledged before, passed down once.\<close>

definition reused :: link_sys where
  "reused = send_task SUCCESS ((snd (link_send 64 (link_init (\<lambda>_. blank\<lparr>max_retries := 5, ack := 1\<rparr>))))\<lparr>posted := False\<rparr>)"

theorem refused_packet_reported_sent_witness:
  "\<exists>s2. link_reach False s2 \<and> last (events s2) = Done 64 SUCCESS True"
proof -
  have r0: "link_reach False (snd (link_send 64 (link_init (\<lambda>_. blank\<lparr>max_retries := 5, ack := 1\<rparr>))))"
    by (rule link_reach_send [OF link_reach.init])
  have "link_reach False reused" unfolding reused_def
    by (rule link_reach_task [OF r0]) (simp add: link_send_def link_init_def Let_def)
  moreover have "state reused = STATE_SENDDONE" "sub reused = [64]" "currentMsg reused = 64" "wasAcked (mem reused) 64"
    by (simp_all add: reused_def link_send_def link_init_def send_task_def after_sendDone_def
        sub_send_def state_defs Let_def getRetries_def requestAck_def wasAcked_def set_fcf_def)
  moreover define d where "d = (example_dev [])\<lparr>send_mem := mem reused, send_hdr := put_rhdr 64 (-1) 20\<rparr>"
  moreover have "rhdr_ptr (send_hdr d) = 64" "rhdr_ret (send_hdr d) = -1" "rhdr_len (send_hdr d) = 20"
    using rhdr_roundtrip [of 64 "-1" 20] by (simp_all add: d_def)
  ultimately have "link_reach False (send_task SUCCESS ((sub_sendDone 64 SUCCESS (reused\<lparr>sub := [], mem := send_mem (sendDone_task d)\<rparr>))\<lparr>posted := False\<rparr>)) \<and>
    events (send_task SUCCESS ((sub_sendDone 64 SUCCESS (reused\<lparr>sub := [], mem := send_mem (sendDone_task d)\<rparr>))\<lparr>posted := False\<rparr>)) =
      events reused @ [Done 64 SUCCESS True]"
    by (intro refused_packet_reported_sent) simp_all
  then show ?thesis by fastforce
qed

section \<open>From the radio network to Linux\<close>

lemma hop_removed_length: "hop_removed cksum n body p \<Longrightarrow> length (iov_bytes (ip6_data p)) = length body"
  by (auto simp: hop_removed_def cksum_filled_def with_cksum_def split: if_splits)

text \<open>C6. What of the radio network reaches Linux: a packet that starts with a hop-by-hop header is
  approved by the border router without it and written to the TUN device as one frame, which
  is the header of the approved packet, its payload (the old one, with a fresh checksum in the
  case of UDP), and four stale bytes of the buffer, which the added length of a packet
  information that is not there lets through. Then the packet is reported as sent; when Linux
  refuses the frame, the command fails and nothing is reported later.\<close>

theorem border_to_linux:
  assumes "buffer (ip6_data pkt) = pre @ hop_header n hl opts @ body @ post" "base (ip6_data pkt) = length pre"
    and "header_ok hl opts" "length opts + 2 < 256"
    and "unat (iov_len (ip6_data pkt)) = length opts + 2 + length body"
    and "n = IANA_UDP \<Longrightarrow> 8 \<le> length body"
    and "findHeader ip (ip6_data pkt) (ip6_nxt pkt) IPV6_HOP = 0"
    and "inputif pkt \<noteq> ROUTE_IFACE_PPP ip" "\<not> comes_back pfx next_hop pkt"
    and "\<And>p. length (hdr_bytes p) = IP6_HDR_LEN" "length body + 44 \<le> MAX_IPV6_PACKET_LEN"
    and "tun_ok s" "script s = r # rs"
  shows "\<exists>pkt' s' stale. rpl_approve ip pfx next_hop pkt = Some (True, pkt') \<and>
    hop_removed (msg_cksum ip) n body pkt' \<and> ip6_nxt pkt' = n \<and>
    htons (ip6_plen pkt') = htons (ip6_plen pkt) - of_nat (length opts + 2) \<and>
    tun_send (\<lambda>d. unat (iov_len d)) (\<lambda>d off k. take k (drop off (iov_bytes d))) (hdr_bytes pkt') (ip6_data pkt') upper s =
      Ret (if failed r then FAIL else SUCCESS) s' \<and>
    trace s' = trace s @ [(Write (tun_fd s) (hdr_bytes pkt' @ iov_bytes (ip6_data pkt') @ stale), r)] \<and>
    stale = take 4 (drop (40 + length body) (out_buf s)) \<and> length stale = 4 \<and>
    sendDone_posted s' = (sendDone_posted s \<or> \<not> failed r) \<and>
    (\<not> failed r \<longrightarrow> sent_up (tun_sendDone_task s') =
       sent_up s @ [\<lparr>upper_data = upper, link_fragments = 1, link_transmissions = 1, send_failed = False\<rparr>])"
proof -
  from drop_hop_header_short [OF assms(1-6), of "msg_cksum ip"] obtain pkt' where
    p: "drop_hop_header (msg_cksum ip) pkt = Some pkt'" "hop_removed (msg_cksum ip) n body pkt'" "ip6_nxt pkt' = n"
      "htons (ip6_plen pkt') = htons (ip6_plen pkt) - of_nat (length opts + 2)"
      "unat (iov_len (ip6_data pkt')) = length body" by blast
  have "rpl_approve ip pfx next_hop pkt = Some (True, pkt')"
    using p(1) assms(7-9) by (simp add: rpl_approve_def Let_def)
  moreover
  have len: "length (iov_bytes (ip6_data pkt')) = length body" using hop_removed_length [OF p(2)] .
  then have "take (length (iov_bytes (ip6_data pkt')) + 40) (drop 0 (iov_bytes (ip6_data pkt'))) = iov_bytes (ip6_data pkt')"
    by simp
  from tun_send_frame [where s = s and upper = upper and hdr = "hdr_bytes pkt'" and body = "iov_bytes (ip6_data pkt')" and d = "ip6_data pkt'"
      and iov_len = "\<lambda>d. unat (iov_len d)" and iov_read = "\<lambda>d off k. take k (drop off (iov_bytes d))", OF assms(10) _ assms(12) _ this assms(13)]
  obtain s' stale where "tun_send (\<lambda>d. unat (iov_len d)) (\<lambda>d off k. take k (drop off (iov_bytes d))) (hdr_bytes pkt') (ip6_data pkt') upper s =
      Ret (if failed r then FAIL else SUCCESS) s'"
    "trace s' = trace s @ [(Write (tun_fd s) (hdr_bytes pkt' @ iov_bytes (ip6_data pkt') @ stale), r)]"
    "stale = take 4 (drop (40 + length body) (out_buf s))" "length stale = 4"
    "sendDone_posted s' = (sendDone_posted s \<or> \<not> failed r)"
    "sent_up (tun_sendDone_task s') = sent_up s @ [\<lparr>upper_data = upper, link_fragments = 1, link_transmissions = 1, send_failed = failed r\<rparr>]"
    using assms(11) p(5) len by (auto simp del: length_take)
  ultimately show ?thesis using p(2-4) by (intro exI [of _ pkt'] exI [of _ s'] exI [of _ stale]) simp
qed

theorem border_to_linux_witness:
  "\<exists>pkt' s' stale. rpl_approve example_stack None [] (example_packet 58 0 (replicate 6 0)) = Some (True, pkt') \<and>
     trace s' = [(Write 7 (replicate 40 6 @ [1, 2, 3, 4, 5, 6, 7, 8, 9] @ stale), ok_reply 46)] \<and>
     tun_send (\<lambda>d. unat (iov_len d)) (\<lambda>d off k. take k (drop off (iov_bytes d))) (replicate 40 6) (ip6_data pkt') 5 example_tun = Ret SUCCESS s'"
proof -
  let ?p = "example_packet 58 0 (replicate 6 0)" and ?b = "[1, 2, 3, 4, 5, 6, 7, 8, 9] :: u8 list"
  have p: "buffer (ip6_data ?p) = [] @ hop_header 58 0 (replicate 6 0) @ ?b @ []" "base (ip6_data ?p) = length []"
      "header_ok 0 (replicate 6 0)" "length (replicate 6 0) + 2 < 256"
      "unat (iov_len (ip6_data ?p)) = length (replicate 6 0) + 2 + length ?b" "58 = IANA_UDP \<Longrightarrow> 8 \<le> length ?b"
      "findHeader example_stack (ip6_data ?p) (ip6_nxt ?p) IPV6_HOP = 0"
      "inputif ?p \<noteq> ROUTE_IFACE_PPP example_stack" "\<not> comes_back None [] ?p"
    by (simp_all add: example_packet_def example_stack_def header_ok_def comes_back_def IPV6_HOP_def)
  have h: "\<And>q. length ((\<lambda>_. replicate 40 6) q :: u8 list) = IP6_HDR_LEN" by (simp add: IP6_HDR_LEN_def)
  have m: "length ?b + 44 \<le> MAX_IPV6_PACKET_LEN" by (simp add: MAX_IPV6_PACKET_LEN_def)
  from border_to_linux [OF p h m example_tun_simps(2,1), where upper = 5]
  show ?thesis by (auto simp: hop_removed_def IANA_UDP_def example_tun_simps)
qed

end
